(* ===== verification/Prelude.thy ===== *)
theory Prelude
  imports Main "HOL-Library.Word"
begin

unbundle bit_operations_syntax

text \<open>
  Shared vocabulary of the development: machine integers at the width the C sources
  give them, C error numbers, results of fallible calls, and the arithmetic facts on
  64-bit words and on finite updates that the component theories use.

  Conventions.  An \<open>int64_t\<close> or \<open>uint64_t\<close> is a 64-bit word; a signed comparison with
  zero is written with \<^const>\<open>sint\<close>.  A function that returns an error number (0 for
  success) becomes a function into \<open>errno + 'a\<close>, where \<^const>\<open>Inl\<close> carries the error.
\<close>

section \<open>Machine integers and error numbers\<close>

type_synonym u8 = "8 word"
type_synonym u16 = "16 word"
type_synonym u32 = "32 word"
type_synonym u64 = "64 word"
type_synonym i64 = "64 word"

type_synonym errno = int

abbreviation (input) ENOENT :: errno where "ENOENT \<equiv> 2"
abbreviation (input) EINTR :: errno where "EINTR \<equiv> 4"
abbreviation (input) EIO :: errno where "EIO \<equiv> 5"
abbreviation (input) ENXIO :: errno where "ENXIO \<equiv> 6"
abbreviation (input) E2BIG :: errno where "E2BIG \<equiv> 7"
abbreviation (input) EBADF :: errno where "EBADF \<equiv> 9"
abbreviation (input) EAGAIN :: errno where "EAGAIN \<equiv> 11"
abbreviation (input) ENOMEM :: errno where "ENOMEM \<equiv> 12"
abbreviation (input) EBUSY :: errno where "EBUSY \<equiv> 16"
abbreviation (input) EEXIST :: errno where "EEXIST \<equiv> 17"
abbreviation (input) ENOTDIR :: errno where "ENOTDIR \<equiv> 20"
abbreviation (input) EISDIR :: errno where "EISDIR \<equiv> 21"
abbreviation (input) EINVAL :: errno where "EINVAL \<equiv> 22"
abbreviation (input) EFBIG :: errno where "EFBIG \<equiv> 27"
abbreviation (input) ENOSPC :: errno where "ENOSPC \<equiv> 28"
abbreviation (input) ENAMETOOLONG :: errno where "ENAMETOOLONG \<equiv> 36"
abbreviation (input) ENOTEMPTY :: errno where "ENOTEMPTY \<equiv> 39"
abbreviation (input) ENODATA :: errno where "ENODATA \<equiv> 61"
abbreviation (input) EOVERFLOW :: errno where "EOVERFLOW \<equiv> 75"
abbreviation (input) EOPNOTSUPP :: errno where "EOPNOTSUPP \<equiv> 95"
abbreviation (input) EALREADY :: errno where "EALREADY \<equiv> 114"
abbreviation (input) ESTALE :: errno where "ESTALE \<equiv> 116"
abbreviation (input) ECANCELED :: errno where "ECANCELED \<equiv> 125"

text \<open>Signed view of a 64-bit word: the test \<open>x < 0\<close> of an \<open>int64_t\<close>.\<close>

definition neg64 :: "i64 \<Rightarrow> bool" where
  "neg64 x = (sint x < 0)"

section \<open>Collections of facts\<close>

named_theorems config_defs "layout constants and address macros"
named_theorems frame_simps "what an operation leaves unchanged"

section \<open>Arithmetic of 64-bit words\<close>

lemma unat_add64: "unat a + unat b < 2 ^ 64 \<Longrightarrow> unat (a + b) = unat a + unat b"
  for a b :: u64
  by (simp add: unat_word_ariths)

lemma unat_mult64: "unat a * unat b < 2 ^ 64 \<Longrightarrow> unat (a * b) = unat a * unat b"
  for a b :: u64
  by (simp add: unat_word_ariths)

lemma unat_sub64: "b \<le> a \<Longrightarrow> unat (a - b) = unat a - unat b"
  for a b :: u64
  by (simp add: unat_sub_if_size word_le_nat_alt)

lemma unat_lt64: "unat (a :: u64) < 18446744073709551616"
  using unsigned_less [of a] by simp

lemma unat_add_less: "unat a + unat b < unat c \<Longrightarrow> unat (a + b) = unat a + unat b"
  for a b c :: u64
  using unat_lt64 [of c] by (intro unat_add64) simp

lemma unat_of_nat64: "n < 2 ^ 64 \<Longrightarrow> unat (of_nat n :: u64) = n"
  by (simp add: unat_of_nat take_bit_nat_eq_self)

lemma of_nat_inj64: "m < 2 ^ 64 \<Longrightarrow> n < 2 ^ 64 \<Longrightarrow> (of_nat m :: u64) = of_nat n \<longleftrightarrow> m = n"
  by (metis unat_of_nat64)

lemma neg64_iff: "neg64 x \<longleftrightarrow> 2 ^ 63 \<le> unat x"
proof -
  have "sint x < 0 \<longleftrightarrow> bit x 63"
    using bit_last_iff [of x] by simp
  also have "\<dots> \<longleftrightarrow> odd (unat x div 2 ^ 63)"
    using bit_unsigned_iff [where ?'a = nat, of x 63] bit_iff_odd [of "unat x" 63] by simp
  also have "\<dots> \<longleftrightarrow> 2 ^ 63 \<le> unat x"
    using div_nat_eqI [of "2 ^ 63" 1 "unat x"] unat_lt64 [of x]
    by (cases "2 ^ 63 \<le> unat x") auto
  finally show ?thesis by (simp add: neg64_def)
qed

lemma nonneg64_sint: "\<not> neg64 x \<Longrightarrow> sint x = int (unat x)"
proof -
  assume nn: "\<not> neg64 x"
  have "sint x < 0 \<longleftrightarrow> bit x 63" using bit_last_iff [of x] by simp
  with nn have "\<not> bit (uint x) 63"
    using bit_unsigned_iff [where ?'a = int, of x 63] by (simp add: neg64_def)
  moreover have "unat x < 2 ^ 63" using nn unfolding neg64_iff by linarith
  then have "int (unat x) < int (2 ^ 63)" by (simp only: of_nat_less_iff)
  then have "uint x < 2 ^ 63" by simp
  ultimately have "sint x = uint x"
    by (simp add: sint_uint signed_take_bit_eq_if_positive take_bit_int_eq_self)
  then show ?thesis by simp
qed

lemma nonneg64_small: "\<not> neg64 x \<Longrightarrow> \<not> int n < sint x \<Longrightarrow> unat x \<le> n"
  unfolding nonneg64_sint of_nat_less_iff by linarith

lemma neg64_minus_1 [simp]: "neg64 (- 1)"
  by (simp add: neg64_def)

lemma neg64_0 [simp]: "\<not> neg64 0"
  by (simp add: neg64_def)

end
