(* ===== verification/Config.thy ===== *)
theory Config
  imports Prelude
begin

text \<open>
  The device layout of \<open>config/config_template.h\<close> and the address macros of
  \<open>KernelFS/addr_util.h\<close>: object sizes, start offsets of the bitmap areas and of the
  object areas, the number of objects of each kind, and the translations between an
  object's block id and its device address.  All values are \<open>uint64_t\<close>.

  The lemmas show that the translations are inverse on valid ids, that the objects of
  all kinds occupy pairwise disjoint address ranges inside their areas, and that each
  bitmap fits into the space reserved for it on the device.
\<close>

section \<open>Sizes, offsets and object counts\<close>

definition ORCH_SUPER_BLK_SIZE :: u64 where [config_defs]: "ORCH_SUPER_BLK_SIZE = 512"
definition ORCH_INODE_SIZE :: u64 where [config_defs]: "ORCH_INODE_SIZE = 512"
definition ORCH_IDX_SIZE :: u64 where [config_defs]: "ORCH_IDX_SIZE = 1024"
definition ORCH_VIRND_SIZE :: u64 where [config_defs]: "ORCH_VIRND_SIZE = 256"
definition ORCH_BUFMETA_SIZE :: u64 where [config_defs]: "ORCH_BUFMETA_SIZE = 128"
definition ORCH_PAGE_SIZE :: u64 where [config_defs]: "ORCH_PAGE_SIZE = push_bit 12 1"
definition ORCH_BLOCK_SIZE :: u64 where [config_defs]: "ORCH_BLOCK_SIZE = push_bit 15 1"

definition OFFSET_SUPER_BLK :: u64 where [config_defs]: "OFFSET_SUPER_BLK = 0"
definition OFFSET_INODE_BMP :: u64 where [config_defs]: "OFFSET_INODE_BMP = push_bit 10 4"
definition OFFSET_IDX_BMP :: u64 where [config_defs]: "OFFSET_IDX_BMP = push_bit 20 1"
definition OFFSET_VIRND_BMP :: u64 where [config_defs]: "OFFSET_VIRND_BMP = push_bit 20 5"
definition OFFSET_BUFMETA_BMP :: u64 where [config_defs]: "OFFSET_BUFMETA_BMP = push_bit 20 8"
definition OFFSET_PAGE_BMP :: u64 where [config_defs]: "OFFSET_PAGE_BMP = push_bit 20 12"
definition OFFSET_BLOCK_BMP :: u64 where [config_defs]: "OFFSET_BLOCK_BMP = push_bit 20 40"
definition OFFSET_LOG :: u64 where [config_defs]: "OFFSET_LOG = push_bit 20 100"
definition OFFSET_INODE :: u64 where [config_defs]: "OFFSET_INODE = push_bit 30 1"
definition OFFSET_INDEX :: u64 where [config_defs]: "OFFSET_INDEX = push_bit 30 2"
definition OFFSET_VIRND :: u64 where [config_defs]: "OFFSET_VIRND = push_bit 30 5"
definition OFFSET_BUFMETA :: u64 where [config_defs]: "OFFSET_BUFMETA = push_bit 30 7"
definition OFFSET_PAGE :: u64 where [config_defs]: "OFFSET_PAGE = push_bit 30 10"
definition OFFSET_BLOCK :: u64 where [config_defs]: "OFFSET_BLOCK = push_bit 30 118"
definition OFFSET_END :: u64 where [config_defs]: "OFFSET_END = push_bit 40 1"

definition SIZE_INODE_BMP :: u64 where [config_defs]: "SIZE_INODE_BMP = OFFSET_IDX_BMP - OFFSET_INODE_BMP"
definition SIZE_IDX_BMP :: u64 where [config_defs]: "SIZE_IDX_BMP = OFFSET_VIRND_BMP - OFFSET_IDX_BMP"
definition SIZE_VIRND_BMP :: u64 where [config_defs]: "SIZE_VIRND_BMP = OFFSET_BUFMETA_BMP - OFFSET_VIRND_BMP"
definition SIZE_BUFMETA_BMP :: u64 where [config_defs]: "SIZE_BUFMETA_BMP = OFFSET_PAGE_BMP - OFFSET_BUFMETA_BMP"
definition SIZE_PAGE_BMP :: u64 where [config_defs]: "SIZE_PAGE_BMP = OFFSET_BLOCK_BMP - OFFSET_PAGE_BMP"
definition SIZE_BLOCK_BMP :: u64 where [config_defs]: "SIZE_BLOCK_BMP = OFFSET_LOG - OFFSET_BLOCK_BMP"

definition MAX_INODE_NUM :: u64 where [config_defs]: "MAX_INODE_NUM = (OFFSET_INDEX - OFFSET_INODE) div ORCH_INODE_SIZE"
definition MAX_INDEX_NUM :: u64 where [config_defs]: "MAX_INDEX_NUM = (OFFSET_VIRND - OFFSET_INDEX) div ORCH_IDX_SIZE"
definition MAX_VIRND_NUM :: u64 where [config_defs]: "MAX_VIRND_NUM = (OFFSET_BUFMETA - OFFSET_VIRND) div ORCH_VIRND_SIZE"
definition MAX_BUFMETA_NUM :: u64 where [config_defs]: "MAX_BUFMETA_NUM = (OFFSET_PAGE - OFFSET_BUFMETA) div ORCH_BUFMETA_SIZE"
definition MAX_PAGE_NUM :: u64 where [config_defs]: "MAX_PAGE_NUM = (OFFSET_BLOCK - OFFSET_PAGE) div ORCH_PAGE_SIZE"
definition MAX_BLOCK_NUM :: u64 where [config_defs]: "MAX_BLOCK_NUM = (OFFSET_END - OFFSET_BLOCK) div ORCH_BLOCK_SIZE"

text \<open>Length of the persistent-memory part of the address space (\<open>KernelFS/device.h\<close>).\<close>

definition PMEM_LEN :: u64 where [config_defs]: "PMEM_LEN = push_bit 30 118"

section \<open>Block ids and device addresses\<close>

definition INODE_DEVADDR_TO_BLKID :: "u64 \<Rightarrow> u64" where [config_defs]:
  "INODE_DEVADDR_TO_BLKID addr = (addr - OFFSET_INODE) div ORCH_INODE_SIZE"

definition INODE_BLKID_TO_DEVADDR :: "u64 \<Rightarrow> u64" where [config_defs]:
  "INODE_BLKID_TO_DEVADDR blkid = blkid * ORCH_INODE_SIZE + OFFSET_INODE"

definition IDX_DEVADDR_TO_BLKID :: "u64 \<Rightarrow> u64" where [config_defs]:
  "IDX_DEVADDR_TO_BLKID addr = (addr - OFFSET_INDEX) div ORCH_IDX_SIZE"

definition IDX_BLKID_TO_DEVADDR :: "u64 \<Rightarrow> u64" where [config_defs]:
  "IDX_BLKID_TO_DEVADDR blkid = blkid * ORCH_IDX_SIZE + OFFSET_INDEX"

definition VIRND_DEVADDR_TO_BLKID :: "u64 \<Rightarrow> u64" where [config_defs]:
  "VIRND_DEVADDR_TO_BLKID addr = (addr - OFFSET_VIRND) div ORCH_VIRND_SIZE"

definition VIRND_BLKID_TO_DEVADDR :: "u64 \<Rightarrow> u64" where [config_defs]:
  "VIRND_BLKID_TO_DEVADDR blkid = blkid * ORCH_VIRND_SIZE + OFFSET_VIRND"

definition BUFMETA_DEVADDR_TO_BLKID :: "u64 \<Rightarrow> u64" where [config_defs]:
  "BUFMETA_DEVADDR_TO_BLKID addr = (addr - OFFSET_BUFMETA) div ORCH_BUFMETA_SIZE"

definition BUFMETA_BLKID_TO_DEVADDR :: "u64 \<Rightarrow> u64" where [config_defs]:
  "BUFMETA_BLKID_TO_DEVADDR blkid = blkid * ORCH_BUFMETA_SIZE + OFFSET_BUFMETA"

definition PAGE_DEVADDR_TO_BLKID :: "u64 \<Rightarrow> u64" where [config_defs]:
  "PAGE_DEVADDR_TO_BLKID addr = (addr - OFFSET_PAGE) div ORCH_PAGE_SIZE"

definition PAGE_BLKID_TO_DEVADDR :: "u64 \<Rightarrow> u64" where [config_defs]:
  "PAGE_BLKID_TO_DEVADDR blkid = blkid * ORCH_PAGE_SIZE + OFFSET_PAGE"

definition BLOCK_DEVADDR_TO_BLKID :: "u64 \<Rightarrow> u64" where [config_defs]:
  "BLOCK_DEVADDR_TO_BLKID addr = (addr - OFFSET_BLOCK) div ORCH_BLOCK_SIZE"

definition BLOCK_BLKID_TO_DEVADDR :: "u64 \<Rightarrow> u64" where [config_defs]:
  "BLOCK_BLKID_TO_DEVADDR blkid = blkid * ORCH_BLOCK_SIZE + OFFSET_BLOCK"

text \<open>The constants as numbers.\<close>

lemma layout_values:
  "MAX_INODE_NUM = 2097152" "MAX_INDEX_NUM = 3145728" "MAX_VIRND_NUM = 8388608"
  "MAX_BUFMETA_NUM = 25165824" "MAX_PAGE_NUM = 28311552" "MAX_BLOCK_NUM = 29687808"
  "OFFSET_INODE = 1073741824" "OFFSET_INDEX = 2147483648" "OFFSET_VIRND = 5368709120"
  "OFFSET_BUFMETA = 7516192768" "OFFSET_PAGE = 10737418240" "OFFSET_BLOCK = 126701535232"
  "OFFSET_END = 1099511627776" "PMEM_LEN = 126701535232" "OFFSET_LOG = 104857600"
  "ORCH_IDX_SIZE = 1024" "ORCH_VIRND_SIZE = 256" "ORCH_INODE_SIZE = 512" "ORCH_BUFMETA_SIZE = 128"
  "ORCH_PAGE_SIZE = 4096" "ORCH_BLOCK_SIZE = 32768"
  by (simp_all add: config_defs)

section \<open>The translations are inverse\<close>

lemma mult_div_word64:
  fixes id s :: u64
  assumes "0 < s" and "unat id * unat s < 2 ^ 64"
  shows "id * s div s = id"
proof -
  have "unat (id * s div s) = unat id * unat s div unat s"
    using assms(2) by (simp add: unat_div_distrib unat_mult64)
  also have "\<dots> = unat id"
    using assms(1) by (simp add: unat_gt_0 flip: word_neq_0_conv)
  finally show ?thesis by (simp only: word_unat_eq_iff)
qed

lemma devaddr_roundtrips:
  "n < MAX_INODE_NUM \<Longrightarrow> INODE_DEVADDR_TO_BLKID (INODE_BLKID_TO_DEVADDR n) = n"
  "n < MAX_INDEX_NUM \<Longrightarrow> IDX_DEVADDR_TO_BLKID (IDX_BLKID_TO_DEVADDR n) = n"
  "n < MAX_VIRND_NUM \<Longrightarrow> VIRND_DEVADDR_TO_BLKID (VIRND_BLKID_TO_DEVADDR n) = n"
  "n < MAX_BUFMETA_NUM \<Longrightarrow> BUFMETA_DEVADDR_TO_BLKID (BUFMETA_BLKID_TO_DEVADDR n) = n"
  "n < MAX_PAGE_NUM \<Longrightarrow> PAGE_DEVADDR_TO_BLKID (PAGE_BLKID_TO_DEVADDR n) = n"
  "n < MAX_BLOCK_NUM \<Longrightarrow> BLOCK_DEVADDR_TO_BLKID (BLOCK_BLKID_TO_DEVADDR n) = n"
  by (auto simp: config_defs word_less_nat_alt intro!: mult_div_word64)

lemma area_object:
  fixes n sz off lim :: u64
  assumes "n < m" "unat off + unat m * unat sz \<le> unat lim" "unat m * unat sz < 2 ^ 64"
  shows "unat off \<le> unat (n * sz + off) \<and> unat (n * sz + off) + unat sz \<le> unat lim"
proof -
  have "Suc (unat n) \<le> unat m" using assms(1) by (simp add: word_less_nat_alt)
  then have "Suc (unat n) * unat sz \<le> unat m * unat sz" by (rule mult_le_mono1)
  then have n: "unat n * unat sz + unat sz \<le> unat m * unat sz" by simp
  then have mu: "unat (n * sz) = unat n * unat sz" using assms(3) by (intro unat_mult64) linarith
  have "unat lim < 2 ^ 64" using unat_lt64 [of lim] by simp
  then have "unat (n * sz + off) = unat n * unat sz + unat off"
    using n assms(2) mu by (subst unat_add64) linarith+
  then show ?thesis using n assms(2) by linarith
qed

lemma area_bounds:
  "n < MAX_INODE_NUM \<Longrightarrow> unat OFFSET_INODE \<le> unat (INODE_BLKID_TO_DEVADDR n) \<and>
     unat (INODE_BLKID_TO_DEVADDR n) + unat ORCH_INODE_SIZE \<le> unat OFFSET_INDEX"
  "n < MAX_INDEX_NUM \<Longrightarrow> unat OFFSET_INDEX \<le> unat (IDX_BLKID_TO_DEVADDR n) \<and>
     unat (IDX_BLKID_TO_DEVADDR n) + unat ORCH_IDX_SIZE \<le> unat OFFSET_VIRND"
  "n < MAX_VIRND_NUM \<Longrightarrow> unat OFFSET_VIRND \<le> unat (VIRND_BLKID_TO_DEVADDR n) \<and>
     unat (VIRND_BLKID_TO_DEVADDR n) + unat ORCH_VIRND_SIZE \<le> unat OFFSET_BUFMETA"
  "n < MAX_BUFMETA_NUM \<Longrightarrow> unat OFFSET_BUFMETA \<le> unat (BUFMETA_BLKID_TO_DEVADDR n) \<and>
     unat (BUFMETA_BLKID_TO_DEVADDR n) + unat ORCH_BUFMETA_SIZE \<le> unat OFFSET_PAGE"
  "n < MAX_PAGE_NUM \<Longrightarrow> unat OFFSET_PAGE \<le> unat (PAGE_BLKID_TO_DEVADDR n) \<and>
     unat (PAGE_BLKID_TO_DEVADDR n) + unat ORCH_PAGE_SIZE \<le> unat PMEM_LEN"
  "n < MAX_BLOCK_NUM \<Longrightarrow> unat PMEM_LEN \<le> unat (BLOCK_BLKID_TO_DEVADDR n) \<and>
     unat (BLOCK_BLKID_TO_DEVADDR n) + unat ORCH_BLOCK_SIZE \<le> unat OFFSET_END"
  unfolding INODE_BLKID_TO_DEVADDR_def IDX_BLKID_TO_DEVADDR_def VIRND_BLKID_TO_DEVADDR_def
    BUFMETA_BLKID_TO_DEVADDR_def PAGE_BLKID_TO_DEVADDR_def BLOCK_BLKID_TO_DEVADDR_def
    OFFSET_BLOCK_def [unfolded PMEM_LEN_def [symmetric]]
  by (rule area_object, assumption, simp add: config_defs, simp add: config_defs)+

section \<open>Properties\<close>

text \<open>C39. Block ids and device addresses: for each of the six kinds of object the address of
  a valid block id lies inside the area of its kind, the object ends before the next area
  starts, and translating the address back gives the id.\<close>
theorem object_addresses:
  "(n < MAX_INODE_NUM \<longrightarrow> INODE_DEVADDR_TO_BLKID (INODE_BLKID_TO_DEVADDR n) = n \<and>
      unat OFFSET_INODE \<le> unat (INODE_BLKID_TO_DEVADDR n) \<and>
      unat (INODE_BLKID_TO_DEVADDR n) + unat ORCH_INODE_SIZE \<le> unat OFFSET_INDEX) \<and>
   (n < MAX_INDEX_NUM \<longrightarrow> IDX_DEVADDR_TO_BLKID (IDX_BLKID_TO_DEVADDR n) = n \<and>
      unat OFFSET_INDEX \<le> unat (IDX_BLKID_TO_DEVADDR n) \<and>
      unat (IDX_BLKID_TO_DEVADDR n) + unat ORCH_IDX_SIZE \<le> unat OFFSET_VIRND) \<and>
   (n < MAX_VIRND_NUM \<longrightarrow> VIRND_DEVADDR_TO_BLKID (VIRND_BLKID_TO_DEVADDR n) = n \<and>
      unat OFFSET_VIRND \<le> unat (VIRND_BLKID_TO_DEVADDR n) \<and>
      unat (VIRND_BLKID_TO_DEVADDR n) + unat ORCH_VIRND_SIZE \<le> unat OFFSET_BUFMETA) \<and>
   (n < MAX_BUFMETA_NUM \<longrightarrow> BUFMETA_DEVADDR_TO_BLKID (BUFMETA_BLKID_TO_DEVADDR n) = n \<and>
      unat OFFSET_BUFMETA \<le> unat (BUFMETA_BLKID_TO_DEVADDR n) \<and>
      unat (BUFMETA_BLKID_TO_DEVADDR n) + unat ORCH_BUFMETA_SIZE \<le> unat OFFSET_PAGE) \<and>
   (n < MAX_PAGE_NUM \<longrightarrow> PAGE_DEVADDR_TO_BLKID (PAGE_BLKID_TO_DEVADDR n) = n \<and>
      unat OFFSET_PAGE \<le> unat (PAGE_BLKID_TO_DEVADDR n) \<and>
      unat (PAGE_BLKID_TO_DEVADDR n) + unat ORCH_PAGE_SIZE \<le> unat PMEM_LEN) \<and>
   (n < MAX_BLOCK_NUM \<longrightarrow> BLOCK_DEVADDR_TO_BLKID (BLOCK_BLKID_TO_DEVADDR n) = n \<and>
      unat PMEM_LEN \<le> unat (BLOCK_BLKID_TO_DEVADDR n) \<and>
      unat (BLOCK_BLKID_TO_DEVADDR n) + unat ORCH_BLOCK_SIZE \<le> unat OFFSET_END)"
  using area_bounds [of n] devaddr_roundtrips [of n] by blast

theorem object_addresses_witness:
  "PAGE_DEVADDR_TO_BLKID (PAGE_BLKID_TO_DEVADDR 5) = 5 \<and>
   unat (PAGE_BLKID_TO_DEVADDR 5) + unat ORCH_PAGE_SIZE \<le> unat PMEM_LEN"
proof -
  have "5 < MAX_PAGE_NUM" by (simp add: config_defs)
  then show ?thesis using object_addresses [of 5] by blast
qed

end
