(* ===== verification/Device_Routing.thy ===== *)
theory Device_Routing
  imports Device
begin

text \<open>
  The SSD half of \<open>KernelFS/device.c\<close> (file-backed build) and the routing of one linear
  address space over persistent memory and SSD.  The SSD is a byte map; \<open>pread\<close> and
  \<open>pwrite\<close> transfer in full (a short transfer ends the process by assertion in the
  source).  The bounce buffer of \<open>ssd_write\<close> comes from \<open>valloc\<close>: its initial contents
  are a parameter.  A completion callback is the pair of error number and byte count it
  is called with.
\<close>

section \<open>The file-backed SSD\<close>

type_synonym ssd = "nat \<Rightarrow> u8"

definition ssd_read :: "ssd \<Rightarrow> nat \<Rightarrow> nat \<Rightarrow> u8 list" where
  "ssd_read d len off = map (\<lambda>i. d (off + i)) [0..<len]"

definition shm_ssd_write :: "ssd \<Rightarrow> u8 list \<Rightarrow> nat \<Rightarrow> nat \<Rightarrow> nat \<Rightarrow> ssd option" where
  "shm_ssd_write d src src_off len off =
     (if len mod 4096 = 0 then Some (put_range d off (\<lambda>i. src ! i) src_off len) else None)"

function ssd_write_chunks :: "ssd \<Rightarrow> (nat \<Rightarrow> u8) \<Rightarrow> nat \<Rightarrow> nat \<Rightarrow> nat \<Rightarrow> ssd" where
  "ssd_write_chunks d buf woffset block_sum buf_off =
     (if 0 < block_sum then
        let max_wblks = 1024 * 256;
            real_wblks = (if max_wblks < block_sum then max_wblks else block_sum)
        in ssd_write_chunks (put_range d (woffset + buf_off) buf buf_off (real_wblks * 4096))
             buf woffset (block_sum - real_wblks) (buf_off + real_wblks * 4096)
      else d)"
  by auto
termination
  by (relation "measure (\<lambda>(d, buf, woffset, block_sum, buf_off). block_sum)") auto

declare ssd_write_chunks.simps [simp del]

definition ssd_write :: "ssd \<Rightarrow> (nat \<Rightarrow> u8) \<Rightarrow> u8 list \<Rightarrow> nat \<Rightarrow> ssd" where
  "ssd_write d alignbuf src off =
     (let len = length src;
          end_byte = of_nat (off + len) - 1 :: u64;
          start_offset_4k = drop_bit 12 (of_nat off :: u64);
          end_offset_4k = drop_bit 12 end_byte;
          block_sum = end_offset_4k - start_offset_4k + 1;
          start_blk_pos = of_nat off AND (push_bit 12 1 - 1 :: u64);
          end_blk_pos = end_byte AND (push_bit 12 1 - 1);
          last_pos = unat ((block_sum - 1) * 4096);
          buf = (if start_blk_pos \<noteq> 0 \<or> block_sum = 1 \<and> len < 4096
                 then put_range alignbuf 0 d off 4096 else alignbuf);
          buf = (if 1 < block_sum \<and> end_blk_pos + 1 \<noteq> 4096
                 then put_range buf last_pos d (off + last_pos) 4096 else buf);
          buf = put_range buf (unat start_blk_pos) (\<lambda>i. src ! i) 0 len;
          woffset = unat (push_bit 12 start_offset_4k)
      in if 1024 * 256 < block_sum then ssd_write_chunks d buf woffset (unat block_sum) 0
         else put_range d woffset buf 0 (unat (block_sum * 4096)))"

section \<open>Routing over both devices\<close>

record devs =
  dv_pmem :: pmem
  dv_base :: nat
  dv_ssd :: ssd

abbreviation pmem_len :: nat where "pmem_len \<equiv> unat PMEM_LEN"

definition read_data_from_devs :: "devs \<Rightarrow> nat \<Rightarrow> nat \<Rightarrow> u8 list" where
  "read_data_from_devs dv len off =
     (if off + len \<le> pmem_len then nvm_read (dv_pmem dv) (dv_base dv) len off
      else if off < pmem_len then
        nvm_read (dv_pmem dv) (dv_base dv) (pmem_len - off) off @
        ssd_read (dv_ssd dv) (off + len - pmem_len) 0
      else ssd_read (dv_ssd dv) len (off - pmem_len))"

definition write_data_to_devs :: "(nat \<Rightarrow> u8) \<Rightarrow> devs \<Rightarrow> u8 list \<Rightarrow> nat \<Rightarrow> devs" where
  "write_data_to_devs alignbuf dv src off =
     (let len = length src in
      if off + len \<le> pmem_len then
        dv\<lparr>dv_pmem := nvm_write (dv_pmem dv) (dv_base dv) src off\<rparr>
      else if off < pmem_len then
        let nvm_write_len = pmem_len - off in
        dv\<lparr>dv_pmem := nvm_write (dv_pmem dv) (dv_base dv) (take nvm_write_len src) off,
           dv_ssd := ssd_write (dv_ssd dv) alignbuf (drop nvm_write_len src) 0\<rparr>
      else dv\<lparr>dv_ssd := ssd_write (dv_ssd dv) alignbuf src (off - pmem_len)\<rparr>)"

definition shm_write_data_to_devs :: "devs \<Rightarrow> u8 list \<Rightarrow> nat \<Rightarrow> nat \<Rightarrow> nat \<Rightarrow> devs option" where
  "shm_write_data_to_devs dv src src_off len off =
     (if off + len \<le> pmem_len then
        Some (dv\<lparr>dv_pmem := nvm_write (dv_pmem dv) (dv_base dv) (take len (drop src_off src)) off\<rparr>)
      else if off < pmem_len then
        let nvm_write_len = pmem_len - off;
            ssd_write_len = off + len - pmem_len;
            dv = dv\<lparr>dv_pmem :=
              nvm_write (dv_pmem dv) (dv_base dv) (take nvm_write_len (drop src_off src)) off\<rparr>
        in map_option (\<lambda>d. dv\<lparr>dv_ssd := d\<rparr>)
             (shm_ssd_write (dv_ssd dv) src (src_off + nvm_write_len) ssd_write_len 0)
      else map_option (\<lambda>d. dv\<lparr>dv_ssd := d\<rparr>)
             (shm_ssd_write (dv_ssd dv) src src_off len (off - pmem_len)))"

text \<open>The asynchronous seam.  Offsets and lengths are \<open>int64_t\<close>; the result is the error
  number of the submission and the call of the completion, if there was one.\<close>

definition submit_split_read :: "devs \<Rightarrow> nat \<Rightarrow> nat \<Rightarrow> nat \<Rightarrow> u8 list \<times> (errno \<times> nat)" where
  "submit_split_read dv prefix_bytes ssd_offset len =
     (ssd_read (dv_ssd dv) len ssd_offset, (0, prefix_bytes + len))"

definition submit_split_write ::
  "(nat \<Rightarrow> u8) \<Rightarrow> devs \<Rightarrow> nat \<Rightarrow> nat \<Rightarrow> u8 list \<Rightarrow> devs \<times> (errno \<times> nat)" where
  "submit_split_write alignbuf dv prefix_bytes ssd_offset src =
     (dv\<lparr>dv_ssd := ssd_write (dv_ssd dv) alignbuf src ssd_offset\<rparr>, (0, prefix_bytes + length src))"

definition submit_read_data_from_devs ::
  "devs \<Rightarrow> int \<Rightarrow> int \<Rightarrow> errno + u8 list \<times> (errno \<times> nat)" where
  "submit_read_data_from_devs dv len off =
     (if len < 0 \<or> off < 0 \<or> 2 ^ 63 - 1 - off < len then Inl EINVAL
      else if len = 0 then Inr ([], (0, 0))
      else if off + len \<le> int pmem_len then
        Inr (nvm_read (dv_pmem dv) (dv_base dv) (nat len) (nat off), (0, nat len))
      else if off < int pmem_len then
        let nvm_len = pmem_len - nat off;
            (rest, done) = submit_split_read dv nvm_len 0 (nat len - nvm_len)
        in Inr (nvm_read (dv_pmem dv) (dv_base dv) nvm_len (nat off) @ rest, done)
      else Inr (submit_split_read dv 0 (nat off - pmem_len) (nat len)))"

definition submit_write_data_to_devs ::
  "(nat \<Rightarrow> u8) \<Rightarrow> devs \<Rightarrow> u8 list \<Rightarrow> int \<Rightarrow> errno + devs \<times> (errno \<times> nat)" where
  "submit_write_data_to_devs alignbuf dv src off =
     (let len = int (length src) in
      if off < 0 \<or> 2 ^ 63 - 1 - off < len then Inl EINVAL
      else if len = 0 then Inr (dv, (0, 0))
      else if off + len \<le> int pmem_len then
        Inr (dv\<lparr>dv_pmem := nvm_write (dv_pmem dv) (dv_base dv) src (nat off)\<rparr>, (0, length src))
      else if off < int pmem_len then
        let nvm_len = pmem_len - nat off;
            dv = dv\<lparr>dv_pmem :=
              nvm_write (dv_pmem dv) (dv_base dv) (take nvm_len src) (nat off)\<rparr>
        in Inr (submit_split_write alignbuf dv nvm_len 0 (drop nvm_len src))
      else Inr (submit_split_write alignbuf dv 0 (nat off - pmem_len) src))"

text \<open>The joint address space: what a read of one byte returns.\<close>

definition dev_view :: "devs \<Rightarrow> nat \<Rightarrow> u8" where
  "dev_view dv a =
     (if a < pmem_len then pm_data (dv_pmem dv) (dv_base dv + a) else dv_ssd dv (a - pmem_len))"

section \<open>The SSD write\<close>

lemma ssd_write_chunks_eq:
  "ssd_write_chunks d buf w B b = put_range d (w + b) buf b (B * 4096)"
proof (induction B arbitrary: d b rule: less_induct)
  case (less B)
  define r where "r = (if 1024 * 256 < B then 1024 * 256 else B)"
  show ?case
  proof (cases "0 < B")
    case True
    then have r: "0 < r" "r \<le> B" by (auto simp: r_def)
    have "ssd_write_chunks d buf w B b =
        ssd_write_chunks (put_range d (w + b) buf b (r * 4096)) buf w (B - r) (b + r * 4096)"
      using True by (simp add: ssd_write_chunks.simps [of d] Let_def r_def)
    also have "\<dots> = put_range d (w + b) buf b (r * 4096 + (B - r) * 4096)"
      using less [of "B - r"] r True by (simp add: add.assoc flip: put_range_append)
    finally show ?thesis using r by (simp flip: add_mult_distrib)
  qed (simp add: ssd_write_chunks.simps [of d])
qed

text \<open>The values \<open>ssd_write\<close> computes, as natural numbers.\<close>

definition ssd_write_nat :: "ssd \<Rightarrow> (nat \<Rightarrow> u8) \<Rightarrow> u8 list \<Rightarrow> nat \<Rightarrow> ssd" where
  "ssd_write_nat d alignbuf src off =
     (let len = length src;
          B = (off + len - 1) div 4096 - off div 4096 + 1;
          buf = (if off mod 4096 \<noteq> 0 \<or> B = 1 \<and> len < 4096
                 then put_range alignbuf 0 d off 4096 else alignbuf);
          buf = (if 1 < B \<and> (off + len - 1) mod 4096 + 1 \<noteq> 4096
                 then put_range buf ((B - 1) * 4096) d (off + (B - 1) * 4096) 4096 else buf);
          buf = put_range buf (off mod 4096) (\<lambda>i. src ! i) 0 len
      in put_range d (off div 4096 * 4096) buf 0 (B * 4096))"

lemma unat_page_pos: "unat (x AND (push_bit 12 1 - 1)) = unat x mod 4096" for x :: u64
proof -
  have "x AND (push_bit 12 1 - 1) = x mod 4096"
    using take_bit_eq_mask [of 12 x] take_bit_eq_mod [of 12 x] by (simp add: mask_eq_exp_minus_1)
  then show ?thesis by (simp add: unat_mod_distrib)
qed

lemma unat_page_no: "unat (drop_bit 12 x) = unat x div 4096" for x :: u64
  by (simp add: drop_bit_eq_div unat_div_distrib)

lemma ssd_write_nat_eq:
  assumes "src \<noteq> []" and "off + length src \<le> 2 ^ 63"
  shows "ssd_write d alignbuf src off = ssd_write_nat d alignbuf src off"
proof -
  define e where "e = off + length src - 1"
  define endb where "endb = (of_nat (off + length src) - 1 :: u64)"
  have len: "0 < length src" using assms(1) by simp
  have "1 \<le> off + length src" using len by linarith
  from of_nat_diff [OF this, where ?'a = u64] have "endb = of_nat e"
    by (simp only: endb_def e_def of_nat_1)
  then have e: "unat endb = e" using assms(2) by (simp add: e_def unat_of_nat64)
  have o: "unat (of_nat off :: u64) = off" using assms(2) by (simp add: unat_of_nat64)
  have le: "off div 4096 \<le> e div 4096" using len unfolding e_def by (intro div_le_mono) linarith
  have "off + length src \<le> 9223372036854775808" using assms(2) by simp
  then have "e < 9223372036854775808" using len unfolding e_def by linarith
  then have el: "e div 4096 < 2 ^ 51" by (intro less_mult_imp_div_less) simp
  define bs where "bs = drop_bit 12 endb - drop_bit 12 (of_nat off) + (1 :: u64)"
  define B where "B = e div 4096 - off div 4096 + 1"
  have "unat (drop_bit 12 endb - drop_bit 12 (of_nat off)) = e div 4096 - off div 4096"
    using le by (simp add: unat_sub64 word_le_nat_alt unat_page_no e o)
  then have bs: "unat bs = B"
    using el by (simp add: bs_def B_def unat_add64)
  have B: "0 < B" "B \<le> 2 ^ 51" using el by (auto simp: B_def)
  have bm2: "bs = of_nat B" by (simp flip: bs)
  have "1 \<le> B" using B(1) by simp
  from of_nat_diff [OF this, where ?'a = u64] have bm: "bs - 1 = of_nat (B - 1)"
    by (simp only: bm2 of_nat_1)
  have u: "unat (bs - 1) = B - 1"
    using B unfolding bm by (intro unat_of_nat64) simp
  have last: "unat ((bs - 1) * 4096) = (B - 1) * 4096"
    using B unat_mult64 [of "bs - 1" 4096] unfolding u by simp
  have full: "unat (bs * 4096) = B * 4096"
    using B unat_mult64 [of bs 4096] unfolding bs by simp
  have cmp: "bs = 1 \<longleftrightarrow> B = 1" "1 < bs \<longleftrightarrow> 1 < B" "1024 * 256 < bs \<longleftrightarrow> 1024 * 256 < B"
    using bs by (simp_all add: word_less_nat_alt word_unat_eq_iff)
  have pos: "unat (of_nat off AND (push_bit 12 1 - 1 :: u64)) = off mod 4096"
    "unat (endb AND (push_bit 12 1 - 1)) = e mod 4096"
    by (simp_all only: unat_page_pos e o)
  have pos0: "of_nat off AND (push_bit 12 1 - 1 :: u64) = 0 \<longleftrightarrow> off mod 4096 = 0"
    using pos(1) by (simp only: word_unat_eq_iff unat_0)
  have pose: "(endb AND (push_bit 12 1 - 1)) + 1 = 4096 \<longleftrightarrow> e mod 4096 + 1 = 4096"
  proof -
    have "unat ((endb AND (push_bit 12 1 - 1)) + 1) = e mod 4096 + 1"
      using pos(2) mod_less_divisor [of 4096 e] by (subst unat_add64) (simp_all only: unat_1, simp)
    then show ?thesis by (simp only: word_unat_eq_iff) simp
  qed
  have w: "unat (push_bit 12 (drop_bit 12 (of_nat off :: u64))) = off div 4096 * 4096"
    using assms(2) unat_page_no [of "of_nat off"] o div_times_less_eq_dividend [of off 4096]
    by (simp add: push_bit_eq_mult unat_mult64)
  show ?thesis
    unfolding ssd_write_def ssd_write_nat_def Let_def
    by (simp only: flip: endb_def bs_def e_def B_def)
      (simp only: pos pos0 pose w last full cmp bs ssd_write_chunks_eq if_cancel add_0_right simp_thms)
qed

lemma ssd_write_aligned:
  assumes "src \<noteq> []" and "off + length src \<le> 2 ^ 63" and "off mod 4096 = 0"
  shows "ssd_write d alignbuf src off = put_range d off (\<lambda>i. src ! i) 0 (length src)"
proof -
  obtain q where q: "off = 4096 * q" using assms(3) by (auto elim: dvdE)
  define k r where "k = (length src - 1) div 4096" and "r = (length src - 1) mod 4096"
  have "length src - 1 = 4096 * k + r" by (simp add: k_def r_def)
  with assms(1) have len: "length src = 4096 * k + r + 1" by (cases src) auto
  have r: "r < 4096" by (simp add: r_def)
  have e: "off + length src - 1 = (q + k) * 4096 + r" by (simp add: q len)
  have ed: "(off + length src - 1) div 4096 = q + k" "(off + length src - 1) mod 4096 = r"
    using r by (simp_all only: e div_mult_self3 mod_mult_self3 div_less mod_less)
  have oq: "off div 4096 = q" "off mod 4096 = 0" by (simp_all add: q)
  have "ssd_write_nat d alignbuf src off x = put_range d off (\<lambda>i. src ! i) 0 (length src) x" for x
  proof (cases "off \<le> x \<and> x < off + (k + 1) * 4096")
    case True
    then obtain y where x: "x = off + y" and y: "y < (k + 1) * 4096"
      by (metis le_add_diff_inverse nat_add_left_cancel_less)
    show ?thesis
      using y r unfolding ssd_write_nat_def Let_def ed oq
      by (auto simp: put_range_def x q len)
  next
    case False
    then show ?thesis
      using r unfolding ssd_write_nat_def Let_def ed oq
      by (auto simp: put_range_def q len)
  qed
  then show ?thesis using ssd_write_nat_eq [OF assms(1,2)] by auto
qed

lemma ssd_write_unaligned_prefix:
  assumes "src \<noteq> []" and "off + length src \<le> 2 ^ 63" and "i < off mod 4096"
  shows "ssd_write d alignbuf src off (off - off mod 4096 + i) = d (off + i)"
proof -
  define p where "p = off mod 4096"
  have p: "p < 4096" "i < p" using assms(3) by (simp_all add: p_def)
  have a: "off - p = off div 4096 * 4096" by (simp add: p_def minus_mod_eq_div_mult)
  show ?thesis
    unfolding ssd_write_nat_eq [OF assms(1,2)] ssd_write_nat_def Let_def
    unfolding p_def [symmetric] a using p by (auto simp: put_range_def)
qed

section \<open>Routing updates and reads exactly the addressed range\<close>

abbreviation bytes_at :: "devs \<Rightarrow> nat \<Rightarrow> nat \<Rightarrow> u8 list" where
  "bytes_at dv off len \<equiv> map (dev_view dv) [off..<off + len]"

lemma map_offset: "map (\<lambda>i. f (off + i)) [0..<len] = map f [off..<off + len]"
  by (rule nth_equalityI) auto

lemma nvm_read_view:
  "off + len \<le> pmem_len \<Longrightarrow> nvm_read (dv_pmem dv) (dv_base dv) len off = bytes_at dv off len"
  by (rule nth_equalityI) (auto simp: nvm_read_def dev_view_def add.assoc)

lemma ssd_read_view:
  "pmem_len \<le> off \<Longrightarrow> ssd_read (dv_ssd dv) len (off - pmem_len) = bytes_at dv off len"
  by (rule nth_equalityI) (auto simp: ssd_read_def dev_view_def)

lemma read_data_from_devs_view: "read_data_from_devs dv len off = bytes_at dv off len"
proof (cases "off + len \<le> pmem_len \<or> pmem_len \<le> off")
  case True
  then show ?thesis
    by (auto simp: read_data_from_devs_def nvm_read_view ssd_read_view)
next
  case False
  then have "[off..<off + len] = [off..<off + (pmem_len - off)] @ [pmem_len..<pmem_len + (off + len - pmem_len)]"
    using upt_add_eq_append [of off pmem_len "off + len - pmem_len"] by simp
  with False show ?thesis
    using nvm_read_view [of off "pmem_len - off" dv] ssd_read_view [of pmem_len dv "off + len - pmem_len"]
    by (simp add: read_data_from_devs_def)
qed

lemma nvm_write_view:
  assumes "off + length xs \<le> pmem_len"
  shows "dev_view (dv\<lparr>dv_pmem := nvm_write (dv_pmem dv) (dv_base dv) xs off\<rparr>) =
    put_range (dev_view dv) off (\<lambda>i. xs ! i) 0 (length xs)"
  using assms by (auto simp: dev_view_def nvm_write_data put_range_def fun_eq_iff)

lemma ssd_put_view:
  assumes "pmem_len \<le> off"
  shows "dev_view (dv\<lparr>dv_ssd := put_range (dv_ssd dv) (off - pmem_len) f s n\<rparr>) =
    put_range (dev_view dv) off f s n"
  using assms by (auto simp: dev_view_def put_range_def fun_eq_iff)

lemma pmem_len_aligned: "pmem_len mod 4096 = 0" "pmem_len = 126701535232"
  by (simp_all add: PMEM_LEN_def)

lemma put_range_take_drop:
  assumes "n \<le> length xs"
  shows "put_range (put_range g d (\<lambda>i. take n xs ! i) 0 n) (d + n) (\<lambda>i. drop n xs ! i) 0 (length xs - n)
    = put_range g d (\<lambda>i. xs ! i) 0 (length xs)"
  using assms by (auto simp: put_range_def fun_eq_iff)

lemma ssd_write_view:
  assumes "src \<noteq> []" "off + length src \<le> 2 ^ 63" "pmem_len \<le> off" "off mod 4096 = 0"
  shows "dev_view (dv\<lparr>dv_ssd := ssd_write (dv_ssd dv) alignbuf src (off - pmem_len)\<rparr>) =
    put_range (dev_view dv) off (\<lambda>i. src ! i) 0 (length src)"
proof -
  have "(off - pmem_len) mod 4096 = 0"
    using assms(3,4) pmem_len_aligned(1) by (simp add: dvd_minus_mod mod_0_imp_dvd dvd_imp_mod_0)
  then show ?thesis
    using assms by (simp add: ssd_write_aligned ssd_put_view)
qed

lemma write_data_to_devs_view:
  assumes "src \<noteq> []" "off + length src \<le> 2 ^ 63" "off < pmem_len \<or> off mod 4096 = 0"
  shows "dev_view (write_data_to_devs alignbuf dv src off) =
    put_range (dev_view dv) off (\<lambda>i. src ! i) 0 (length src)"
proof -
  consider "off + length src \<le> pmem_len" | "pmem_len \<le> off" "pmem_len < off + length src"
    | "off < pmem_len" "pmem_len < off + length src" by linarith
  then show ?thesis
  proof cases
    case 1
    then show ?thesis by (simp add: write_data_to_devs_def nvm_write_view)
  next
    case 2
    then show ?thesis using assms by (simp add: write_data_to_devs_def ssd_write_view)
  next
    case 3
    define n where "n = pmem_len - off"
    define dv' where "dv' = dv\<lparr>dv_pmem := nvm_write (dv_pmem dv) (dv_base dv) (take n src) off\<rparr>"
    have n: "n < length src" "off + n = pmem_len" using 3 by (auto simp: n_def)
    have "write_data_to_devs alignbuf dv src off =
        dv'\<lparr>dv_ssd := ssd_write (dv_ssd dv') alignbuf (drop n src) (pmem_len - pmem_len)\<rparr>"
      using 3 by (simp add: write_data_to_devs_def n_def dv'_def Let_def)
    also have "dev_view \<dots> = put_range (dev_view dv') pmem_len (\<lambda>i. drop n src ! i) 0 (length src - n)"
      using n pmem_len_aligned assms(2) by (subst ssd_write_view) auto
    also have "dev_view dv' = put_range (dev_view dv) off (\<lambda>i. take n src ! i) 0 n"
      using n nvm_write_view [of off "take n src" dv] by (simp add: dv'_def)
    finally show ?thesis using n put_range_take_drop [of n src "dev_view dv" off] by simp
  qed
qed

lemma submit_read_eq:
  assumes "0 \<le> off" "0 \<le> len" "off + len < 2 ^ 63"
  shows "submit_read_data_from_devs dv len off =
    Inr (read_data_from_devs dv (nat len) (nat off), (0, nat len))"
proof -
  obtain n m where nm: "off = int n" "len = int m" using assms(1,2) nonneg_int_cases by metis
  show ?thesis
    using assms(3)
    unfolding nm submit_read_data_from_devs_def read_data_from_devs_def submit_split_read_def
      pmem_len_aligned(2)
    by (auto simp: Let_def nvm_read_def ssd_read_def add.commute)
qed

lemma submit_write_eq:
  assumes "0 \<le> off" "off + int (length src) < 2 ^ 63" "src \<noteq> []"
  shows "submit_write_data_to_devs alignbuf dv src off =
    Inr (write_data_to_devs alignbuf dv src (nat off), (0, length src))"
proof -
  obtain n where n: "off = int n" using assms(1) nonneg_int_cases by metis
  show ?thesis
    using assms(2,3)
    unfolding n submit_write_data_to_devs_def write_data_to_devs_def submit_split_write_def
      pmem_len_aligned(2)
    by (auto simp: Let_def)
qed

lemma bytes_at_put_range:
  assumes "dev_view dv' = put_range (dev_view dv) off (\<lambda>i. src ! i) 0 (length src)"
  shows "bytes_at dv' off (length src) = src"
    and "a < off \<or> off + length src \<le> a \<Longrightarrow> dev_view dv' a = dev_view dv a"
  unfolding assms by (auto simp: put_range_def intro: nth_equalityI)

section \<open>Properties\<close>

text \<open>Erased devices, for the concrete instances.\<close>

definition blank_devs :: devs where
  "blank_devs = \<lparr>dv_pmem = \<lparr>pm_data = (\<lambda>_. 0), pm_dirty = (\<lambda>_. False)\<rparr>, dv_base = 0, dv_ssd = (\<lambda>_. 0)\<rparr>"

text \<open>C31. The two devices behave as one byte array: a write that stays below the SSD or
  starts on a page boundary, also one that crosses from persistent memory to the SSD, is
  returned by the next read of its range, and the bytes outside the range are unchanged.\<close>
theorem devs_write_then_read:
  assumes "src \<noteq> []" and "off + length src \<le> 2 ^ 63" and "off < pmem_len \<or> off mod 4096 = 0"
  shows "read_data_from_devs (write_data_to_devs alignbuf dv src off) (length src) off = src \<and>
    (\<forall>a n. a + n \<le> off \<or> off + length src \<le> a \<longrightarrow>
       read_data_from_devs (write_data_to_devs alignbuf dv src off) n a = read_data_from_devs dv n a)"
  using bytes_at_put_range [OF write_data_to_devs_view [OF assms, of alignbuf dv]]
  by (auto simp: read_data_from_devs_view)

theorem devs_write_then_read_witness:
  "read_data_from_devs (write_data_to_devs (\<lambda>_. 0) blank_devs [1, 2, 3] 126701535230) 3 126701535230 = [1, 2, 3]"
proof -
  have p: "126701535230 < pmem_len \<or> (126701535230 :: nat) mod 4096 = 0"
    by (rule disjI1) (simp add: pmem_len_aligned(2))
  have l: "length [1, 2, 3 :: u8] = 3" by simp
  show ?thesis
    by (rule devs_write_then_read [OF _ _ p, of "[1, 2, 3]", unfolded l, THEN conjunct1]) simp_all
qed

text \<open>C32. The asynchronous entry points agree with the synchronous ones: a submitted read or
  write with a valid range completes with status 0 and the full length, and has the result
  of the direct call.\<close>
theorem submit_agrees:
  assumes "0 \<le> off" and "off + int (length src) < 2 ^ 63" and "src \<noteq> []"
  shows "submit_write_data_to_devs alignbuf dv src off =
      Inr (write_data_to_devs alignbuf dv src (nat off), (0, length src)) \<and>
    submit_read_data_from_devs dv (int (length src)) off =
      Inr (read_data_from_devs dv (length src) (nat off), (0, length src))"
  using submit_write_eq [OF assms] submit_read_eq [of off "int (length src)" dv] assms by simp

theorem submit_agrees_witness:
  "submit_read_data_from_devs blank_devs 2 10 = Inr (read_data_from_devs blank_devs 2 10, (0, 2))"
proof -
  have l: "length [1, 2 :: u8] = 2" by simp
  show ?thesis
    using submit_agrees [of 10 "[1, 2]" "\<lambda>_. 0" blank_devs, unfolded l] by simp
qed

text \<open>C40. The formatter's SSD write does not preserve the bytes in front of an unaligned
  range: the bytes of the first page before the range are replaced by bytes read at the
  range's own offset.\<close>
theorem ssd_write_unaligned_corrupts:
  assumes "src \<noteq> []" and "off + length src \<le> 2 ^ 63" and "i < off mod 4096"
  shows "ssd_write d alignbuf src off (off - off mod 4096 + i) = d (off + i)"
  using ssd_write_unaligned_prefix [OF assms] .

theorem ssd_write_unaligned_corrupts_witness:
  "ssd_write (\<lambda>a. if a = 0 then 9 else 0) (\<lambda>_. 0) [1, 2] 2 0 = 0 \<and> (\<lambda>a. if a = 0 then 9 else (0 :: u8)) (0 :: nat) = 9"
  using ssd_write_unaligned_corrupts [of "[1, 2]" 2 0 "\<lambda>a. if a = 0 then 9 else 0" "\<lambda>_. 0"] by simp

end
