(* ===== verification/Byte_Codec.thy ===== *)
theory Byte_Codec
  imports Prelude
begin

text \<open>
  Little-endian images of the fixed-width integers that the on-media structures of
  \<open>include/orchfs/disk_format.h\<close> and \<open>KernelFS/type.h\<close> hold (the format is the memory
  layout of an x86-64 machine), with their decoders and round trips.
\<close>

definition le32 :: "u32 \<Rightarrow> u8 list" where
  "le32 w = map (\<lambda>i. ucast (drop_bit (8 * i) w)) [0..<4]"

definition le64 :: "u64 \<Rightarrow> u8 list" where
  "le64 w = map (\<lambda>i. ucast (drop_bit (8 * i) w)) [0..<8]"

primrec of_le :: "u8 list \<Rightarrow> 'a::len word" where
  "of_le [] = 0"
| "of_le (b # bs) = ucast b OR push_bit 8 (of_le bs)"

lemma le32_length [simp]: "length (le32 w) = 4"
  by (simp add: le32_def)

lemma le64_length [simp]: "length (le64 w) = 8"
  by (simp add: le64_def)

lemma bit_of_le:
  "n < LENGTH('a) \<Longrightarrow>
    bit (of_le bs :: 'a::len word) n \<longleftrightarrow> n div 8 < length bs \<and> bit (bs ! (n div 8)) (n mod 8)"
proof (induction bs arbitrary: n)
  case (Cons b bs)
  show ?case
  proof (cases "n < 8")
    case True
    with Cons.prems show ?thesis by (simp add: bit_or_iff bit_push_bit_iff bit_unsigned_iff)
  next
    case False
    then obtain m where m: "n = m + 8" by (metis add.commute le_Suc_ex not_less)
    have "(m + 8) div 8 = Suc (m div 8)" by simp
    moreover have "\<not> bit b (m + 8)" by (simp add: bit_word.rep_eq bit_imp_le_length)
    ultimately show ?thesis
      using Cons.IH [of m] Cons.prems m
      by (auto simp: bit_or_iff bit_push_bit_iff bit_unsigned_iff dest: bit_imp_le_length)
  qed
qed simp

lemma of_le_le64 [simp]: "of_le (le64 w) = w"
  by (rule bit_word_eqI)
    (auto simp: bit_of_le le64_def bit_unsigned_iff bit_drop_bit_eq less_mult_imp_div_less)

lemma of_le_le32 [simp]: "of_le (le32 w) = w"
  by (rule bit_word_eqI)
    (auto simp: bit_of_le le32_def bit_unsigned_iff bit_drop_bit_eq less_mult_imp_div_less)

lemma le64_inject [simp]: "le64 v = le64 w \<longleftrightarrow> v = w"
  by (metis of_le_le64)

lemma le32_inject [simp]: "le32 v = le32 w \<longleftrightarrow> v = w"
  by (metis of_le_le32)

lemma le64_of_le: "length bs = 8 \<Longrightarrow> le64 (of_le bs) = bs"
  by (rule nth_equalityI)
    (auto simp: le64_def intro!: bit_word_eqI simp: bit_unsigned_iff bit_drop_bit_eq bit_of_le)

end
