(* ===== verification/Balloc.thy ===== *)
theory Balloc
  imports Device Byte_Codec
begin

text \<open>
  The block allocator of \<open>KernelFS/balloc.c\<close>: one bitmap per object kind, kept in memory
  and mirrored on the device.  A bitmap is sharded over the runtime workers; a worker
  scans its own shard first and then the others, and every bit is claimed by one atomic
  fetch-or.

  The record \<open>mem_bmp\<close> is \<open>struct memory_bitmap_info_t\<close>; the bitmap bytes are a map from
  byte index to byte.  The used counter is kept modulo \<open>2 ^ 64\<close> as in the source.  Calls
  that end the process (\<open>exit\<close>) return \<^const>\<open>None\<close>.
\<close>

section \<open>Bitmaps\<close>

abbreviation (input) START_BMP_ID :: int where "START_BMP_ID \<equiv> 1"
abbreviation (input) INODE_BMP :: int where "INODE_BMP \<equiv> 1"
abbreviation (input) IDX_NODE_BMP :: int where "IDX_NODE_BMP \<equiv> 2"
abbreviation (input) VIR_NODE_BMP :: int where "VIR_NODE_BMP \<equiv> 3"
abbreviation (input) BUFMETA_BMP :: int where "BUFMETA_BMP \<equiv> 4"
abbreviation (input) PAGE_BMP :: int where "PAGE_BMP \<equiv> 5"
abbreviation (input) BLOCK_BMP :: int where "BLOCK_BMP \<equiv> 6"
abbreviation (input) END_BMP_ID :: int where "END_BMP_ID \<equiv> 6"

abbreviation (input) RET_BLK_ID :: int where "RET_BLK_ID \<equiv> 0"
abbreviation (input) RET_BLK_ADDR :: int where "RET_BLK_ADDR \<equiv> 1"
abbreviation (input) PAR_BLK_ID :: int where "PAR_BLK_ID \<equiv> 0"
abbreviation (input) PAR_BLK_ADDR :: int where "PAR_BLK_ADDR \<equiv> 1"

record mem_bmp =
  bmp_start_pt :: "nat \<Rightarrow> u8"
  dev_start_addr :: u64
  bmp_alloc_cur :: u64
  bmp_used_num :: u64
  bmp_alloc_range :: u64
  bmp_capacity :: u64
  blk_area_start :: u64
  blk_size :: u64
  shard_cursor :: "nat \<Rightarrow> u64"
  shard_count :: u64

type_synonym bmp_arr = "int \<Rightarrow> mem_bmp"

definition bit_mask :: "u64 \<Rightarrow> u8" where
  "bit_mask n = push_bit (7 - unat n mod 8) 1"

section \<open>Claiming and scanning\<close>

definition claim_bit :: "mem_bmp \<Rightarrow> u64 \<Rightarrow> mem_bmp \<times> bool" where
  "claim_bit b n =
     (let i = unat (n div 8);
          previous = bmp_start_pt b i;
          b = b\<lparr>bmp_start_pt := (bmp_start_pt b)(i := previous OR bit_mask n)\<rparr>
      in if previous AND bit_mask n \<noteq> 0 then (b, False)
         else (b\<lparr>bmp_used_num := bmp_used_num b + 1\<rparr>, True))"

text \<open>The two loops of \<open>allocate_one\<close>; the last argument counts the remaining iterations.\<close>

fun scan_shard :: "mem_bmp \<Rightarrow> u64 \<Rightarrow> u64 \<Rightarrow> u64 \<Rightarrow> u64 \<Rightarrow> nat \<Rightarrow> mem_bmp \<times> u64 option" where
  "scan_shard b begin span start i 0 = (b, None)"
| "scan_shard b begin span start i (Suc n) =
     (let pos = begin + (start + i) mod span;
          (b, won) = claim_bit b pos
      in if won then (b, Some pos) else scan_shard b begin span start (i + 1) n)"

fun scan_rest :: "mem_bmp \<Rightarrow> u64 \<Rightarrow> u64 \<Rightarrow> u64 \<Rightarrow> u64 \<Rightarrow> nat \<Rightarrow> mem_bmp \<times> u64 option" where
  "scan_rest b begin fin tot i 0 = (b, None)"
| "scan_rest b begin fin tot i (Suc n) =
     (let pos = (fin + i) mod tot in
      if begin \<le> pos \<and> pos < fin then scan_rest b begin fin tot (i + 1) n
      else let (b, won) = claim_bit b pos
           in if won then (b, Some pos) else scan_rest b begin fin tot (i + 1) n)"

definition allocate_one :: "mem_bmp \<Rightarrow> u64 \<Rightarrow> mem_bmp \<times> (errno + u64)" where
  "allocate_one b worker =
     (let tot = bmp_capacity b * 8;
          worker = worker mod shard_count b;
          begin = tot * worker div shard_count b;
          fin = tot * (worker + 1) div shard_count b;
          span = fin - begin;
          start = shard_cursor b (unat worker);
          b = b\<lparr>shard_cursor := (shard_cursor b)(unat worker := start + 1)\<rparr>
      in case scan_shard b begin span start 0 (unat span) of
           (b, Some pos) \<Rightarrow> (b, Inr pos)
         | (b, None) \<Rightarrow>
             (case scan_rest b begin fin tot 0 (unat tot) of
                (b, Some pos) \<Rightarrow> (b, Inr pos)
              | (b, None) \<Rightarrow> (b, Inl ENOSPC)))"

section \<open>Allocation and deallocation\<close>

text \<open>\<open>do_dealloc\<close> reports 4 for an id out of range and 6 for a bit that was not set.\<close>

definition dealloc_bit :: "mem_bmp \<Rightarrow> i64 \<Rightarrow> mem_bmp \<times> errno" where
  "dealloc_bit b blk_id =
     (if neg64 blk_id \<or> bmp_capacity b * 8 \<le> blk_id then (b, 4)
      else let i = unat (blk_id div 8);
               previous = bmp_start_pt b i;
               b = b\<lparr>bmp_start_pt := (bmp_start_pt b)(i := previous AND NOT (bit_mask blk_id))\<rparr>
           in if previous AND bit_mask blk_id \<noteq> 0
              then (b\<lparr>bmp_used_num := bmp_used_num b - 1\<rparr>, 0) else (b, 6))"

definition do_dealloc :: "bmp_arr \<Rightarrow> int \<Rightarrow> i64 \<Rightarrow> bmp_arr \<times> errno" where
  "do_dealloc arr bmp_type blk_id =
     (let (b, err) = dealloc_bit (arr bmp_type) blk_id in (arr(bmp_type := b), err))"

text \<open>The rollback loop of \<open>do_alloc\<close>: the ids handed out, last first.\<close>

fun dealloc_back :: "bmp_arr \<Rightarrow> int \<Rightarrow> u64 list \<Rightarrow> bmp_arr" where
  "dealloc_back arr bmp_type [] = arr"
| "dealloc_back arr bmp_type (a # as) = dealloc_back (fst (do_dealloc arr bmp_type a)) bmp_type as"

fun alloc_loop :: "bmp_arr \<Rightarrow> int \<Rightarrow> u64 \<Rightarrow> nat \<Rightarrow> u64 list \<Rightarrow> bmp_arr \<times> (errno + u64 list)" where
  "alloc_loop arr bmp_type worker 0 done = (arr, Inr (rev done))"
| "alloc_loop arr bmp_type worker (Suc n) done =
     (case allocate_one (arr bmp_type) worker of
        (b, Inr a) \<Rightarrow> alloc_loop (arr(bmp_type := b)) bmp_type worker n (a # done)
      | (b, Inl err) \<Rightarrow> (dealloc_back (arr(bmp_type := b)) bmp_type done, Inl err))"

definition do_alloc :: "bmp_arr \<Rightarrow> u64 \<Rightarrow> int \<Rightarrow> u64 \<Rightarrow> bmp_arr \<times> (errno + u64 list)" where
  "do_alloc arr worker bmp_type alloc_blk_num =
     (if bmp_type < START_BMP_ID \<or> END_BMP_ID < bmp_type then (arr, Inl EINVAL)
      else alloc_loop arr bmp_type worker (unat alloc_blk_num) [])"

section \<open>Bits of a bitmap\<close>

definition bmp_bit :: "mem_bmp \<Rightarrow> nat \<Rightarrow> bool" where
  "bmp_bit b n = bit (bmp_start_pt b (n div 8)) (7 - n mod 8)"

abbreviation bmp_total :: "mem_bmp \<Rightarrow> nat" where
  "bmp_total b \<equiv> unat (bmp_capacity b) * 8"

definition bmp_bits :: "mem_bmp \<Rightarrow> nat set" where
  "bmp_bits b = {n. n < bmp_total b \<and> bmp_bit b n}"

definition bmp_wf :: "mem_bmp \<Rightarrow> bool" where
  "bmp_wf b \<longleftrightarrow> 0 < unat (shard_count b) \<and> bmp_total b * unat (shard_count b) < 2 ^ 63"

definition bmp_counted :: "mem_bmp \<Rightarrow> bool" where
  "bmp_counted b \<longleftrightarrow> bmp_used_num b = of_nat (card (bmp_bits b))"

definition same_geometry :: "mem_bmp \<Rightarrow> mem_bmp \<Rightarrow> bool" where
  "same_geometry b b' \<longleftrightarrow>
     dev_start_addr b' = dev_start_addr b \<and> bmp_alloc_cur b' = bmp_alloc_cur b \<and>
     bmp_alloc_range b' = bmp_alloc_range b \<and> bmp_capacity b' = bmp_capacity b \<and>
     blk_area_start b' = blk_area_start b \<and> blk_size b' = blk_size b \<and>
     shard_count b' = shard_count b"

lemma same_geometry_refl [simp]: "same_geometry b b"
  by (simp add: same_geometry_def)

lemma same_geometry_trans: "same_geometry a b \<Longrightarrow> same_geometry b c \<Longrightarrow> same_geometry a c"
  by (simp add: same_geometry_def)

lemma bmp_wf_geometry: "same_geometry b b' \<Longrightarrow> bmp_wf b' = bmp_wf b"
  by (simp add: same_geometry_def bmp_wf_def)

lemma byte_index: "unat (n div 8) = unat n div 8" for n :: u64
  by (simp add: unat_div_distrib)

lemma mask_test: "x AND bit_mask n \<noteq> 0 \<longleftrightarrow> bit x (7 - unat n mod 8)"
  using and_exp_eq_0_iff_not_bit [of x "7 - unat n mod 8"] by (simp add: bit_mask_def push_bit_eq_mult)

lemma bit_index_inj: "n div 8 = m div 8 \<Longrightarrow> 7 - n mod 8 = 7 - m mod 8 \<longleftrightarrow> n = m" for n m :: nat
proof -
  assume "n div 8 = m div 8"
  moreover have "n mod 8 < 8" "m mod 8 < 8" by simp_all
  then have "7 - n mod 8 = 7 - m mod 8 \<longleftrightarrow> n mod 8 = m mod 8" by linarith
  ultimately show ?thesis by (metis div_mult_mod_eq)
qed

lemma bit_mask_bit: "bit (bit_mask n) k \<longleftrightarrow> k = 7 - unat n mod 8"
  by (auto simp: bit_mask_def push_bit_eq_mult bit_exp_iff)

lemma bmp_bit_or:
  "bmp_bit (b\<lparr>bmp_start_pt := (bmp_start_pt b)(unat (n div 8) := bmp_start_pt b (unat (n div 8)) OR bit_mask n)\<rparr>) m
     \<longleftrightarrow> bmp_bit b m \<or> m = unat n"
  using bit_index_inj [of m "unat n"]
  by (auto simp: bmp_bit_def byte_index bit_or_iff bit_mask_bit)

lemma bmp_bit_and_not:
  "bmp_bit (b\<lparr>bmp_start_pt := (bmp_start_pt b)(unat (n div 8) := bmp_start_pt b (unat (n div 8)) AND NOT (bit_mask n))\<rparr>) m
     \<longleftrightarrow> bmp_bit b m \<and> m \<noteq> unat n"
  using bit_index_inj [of m "unat n"]
  by (auto simp: bmp_bit_def byte_index bit_and_iff bit_not_iff bit_mask_bit dest: bit_imp_le_length)

lemma bmp_bit_cong [simp]:
  "bmp_bit (b\<lparr>bmp_used_num := u\<rparr>) m = bmp_bit b m"
  "bmp_bit (b\<lparr>shard_cursor := c\<rparr>) m = bmp_bit b m"
  by (simp_all add: bmp_bit_def)

text \<open>A claim that fails changes nothing; one that succeeds sets its bit, which was clear,
  and counts it.\<close>

lemma claim_bit_False:
  assumes "claim_bit b n = (b', False)"
  shows "b' = b \<and> bmp_bit b (unat n)"
proof -
  have set: "bit (bmp_start_pt b (unat (n div 8))) (7 - unat n mod 8)"
    using assms by (simp add: claim_bit_def Let_def mask_test split: if_splits)
  then have "bmp_start_pt b (unat (n div 8)) OR bit_mask n = bmp_start_pt b (unat (n div 8))"
    by (intro bit_eqI) (auto simp: bit_or_iff bit_mask_bit)
  then show ?thesis
    using assms set by (auto simp: claim_bit_def Let_def bmp_bit_def byte_index split: if_splits)
qed

lemma claim_bit_True:
  assumes "claim_bit b n = (b', True)"
  shows "\<not> bmp_bit b (unat n)" "bmp_bit b' m \<longleftrightarrow> bmp_bit b m \<or> m = unat n"
    "bmp_used_num b' = bmp_used_num b + 1" "shard_cursor b' = shard_cursor b" "same_geometry b b'"
  using assms bmp_bit_or [of b n m]
  by (auto simp: claim_bit_def Let_def mask_test bmp_bit_def byte_index same_geometry_def split: if_splits)

section \<open>The scans\<close>

lemma scan_shard_None:
  "scan_shard b bg sp st i n = (b', None) \<Longrightarrow>
     b' = b \<and> (\<forall>j < n. bmp_bit b (unat (bg + (st + i + of_nat j) mod sp)))"
proof (induction n arbitrary: i)
  case (Suc n)
  have c: "claim_bit b (bg + (st + i) mod sp) = (b, False)" "bmp_bit b (unat (bg + (st + i) mod sp))"
    using Suc.prems claim_bit_False by (auto simp: Let_def split: prod.splits if_splits)
  from Suc.IH [of "i + 1"] Suc.prems c(1) show ?case
    using c(2) by (auto simp: Let_def less_Suc_eq_0_disj add.assoc)
qed simp

lemma scan_shard_Some:
  "scan_shard b bg sp st i n = (b', Some pos) \<Longrightarrow>
     claim_bit b pos = (b', True) \<and> (\<exists>j < n. pos = bg + (st + i + of_nat j) mod sp)"
proof (induction n arbitrary: i)
  case (Suc n)
  obtain b1 won where c: "claim_bit b (bg + (st + i) mod sp) = (b1, won)" by fastforce
  show ?case
  proof (cases won)
    case True
    with Suc.prems c show ?thesis by (auto simp: Let_def intro!: exI [of _ 0])
  next
    case False
    then have "b1 = b" using c claim_bit_False by simp
    with Suc.IH [of "i + 1"] Suc.prems c False obtain j where "claim_bit b pos = (b', True)"
      "j < n" "pos = bg + (st + (i + 1) + of_nat j) mod sp" by (auto simp: Let_def)
    then show ?thesis by (auto simp: add.assoc intro!: exI [of _ "Suc j"])
  qed
qed simp

lemma scan_rest_None:
  "scan_rest b bg fin tot i n = (b', None) \<Longrightarrow>
     b' = b \<and> (\<forall>j < n. bg \<le> (fin + i + of_nat j) mod tot \<and> (fin + i + of_nat j) mod tot < fin
                   \<or> bmp_bit b (unat ((fin + i + of_nat j) mod tot)))"
proof (induction n arbitrary: i)
  case (Suc n)
  let ?p = "(fin + i) mod tot"
  have own: "bg \<le> ?p \<and> ?p < fin \<or>
      \<not> (bg \<le> ?p \<and> ?p < fin) \<and> claim_bit b ?p = (b, False) \<and> bmp_bit b (unat ?p)"
    using Suc.prems claim_bit_False by (auto simp: Let_def split: prod.splits if_splits)
  then have "scan_rest b bg fin tot (i + 1) n = (b', None)"
    using Suc.prems by (auto simp: Let_def)
  from Suc.IH [OF this] own show ?case
    by (auto simp: less_Suc_eq_0_disj add.assoc)
qed simp

lemma scan_rest_Some:
  "scan_rest b bg fin tot i n = (b', Some pos) \<Longrightarrow>
     claim_bit b pos = (b', True) \<and> (\<exists>j. pos = (fin + i + of_nat j) mod tot)"
proof (induction n arbitrary: i)
  case (Suc n)
  let ?p = "(fin + i) mod tot"
  obtain b1 won where c: "claim_bit b ?p = (b1, won)" by fastforce
  show ?case
  proof (cases "\<not> (bg \<le> ?p \<and> ?p < fin) \<and> won")
    case True
    with Suc.prems c show ?thesis by (auto simp: Let_def intro!: exI [of _ 0])
  next
    case False
    then have "\<not> (bg \<le> ?p \<and> ?p < fin) \<Longrightarrow> b1 = b" using c claim_bit_False by auto
    with Suc.prems c False have "scan_rest b bg fin tot (i + 1) n = (b', Some pos)"
      by (auto simp: Let_def split: if_splits)
    from Suc.IH [OF this] obtain j where "claim_bit b pos = (b', True)"
      "pos = (fin + (i + 1) + of_nat j) mod tot" by auto
    then show ?thesis by (auto simp: add.assoc intro!: exI [of _ "Suc j"])
  qed
qed simp

section \<open>Shards\<close>

definition shard_first :: "mem_bmp \<Rightarrow> nat \<Rightarrow> nat" where
  "shard_first b w = bmp_total b * w div unat (shard_count b)"

lemma shard_first_mono: "v \<le> w \<Longrightarrow> shard_first b v \<le> shard_first b w"
  by (simp add: shard_first_def div_le_mono)

lemma shard_first_total: "bmp_wf b \<Longrightarrow> shard_first b (unat (shard_count b)) = bmp_total b"
  by (simp add: shard_first_def bmp_wf_def)

lemma wf_total: "bmp_wf b \<Longrightarrow> bmp_total b < 2 ^ 63"
  by (cases "unat (shard_count b)") (auto simp: bmp_wf_def)

lemma unat_total: "bmp_wf b \<Longrightarrow> unat (bmp_capacity b * 8) = bmp_total b"
  using wf_total [of b] by (simp add: unat_mult64)

lemma unat_shard:
  assumes "bmp_wf b" "unat w \<le> unat (shard_count b)"
  shows "unat (bmp_capacity b * 8 * w div shard_count b) = shard_first b (unat w)"
proof -
  have "bmp_total b * unat w \<le> bmp_total b * unat (shard_count b)"
    using assms(2) by simp
  also have "\<dots> < 2 ^ 64" using assms(1) by (simp add: bmp_wf_def)
  finally show ?thesis
    using assms by (simp add: unat_div_distrib unat_mult64 unat_total shard_first_def)
qed

section \<open>Allocating one object\<close>

lemma mod_cover:
  fixes s t n :: nat
  assumes "t < n"
  obtains i where "i < n" "(s + i) mod n = t"
proof (rule that)
  show "(t + n - s mod n) mod n < n" using assms by simp
  define q r where "q = s div n" and "r = s mod n"
  have "s = n * q + r" "r < n" using assms by (simp_all add: q_def r_def)
  then have "s + (t + n - s mod n) = t + n * Suc q"
    by (simp flip: r_def)
  then have "(s + (t + n - s mod n) mod n) mod n = (t + n * Suc q) mod n"
    by (simp only: mod_add_right_eq)
  also have "\<dots> = t" using assms by (simp only: mod_mult_self2 mod_less)
  finally show "(s + (t + n - s mod n) mod n) mod n = t" .
qed

text \<open>The variables of \<open>allocate_one\<close> as natural numbers.\<close>

definition own_shard :: "mem_bmp \<Rightarrow> u64 \<Rightarrow> nat" where
  "own_shard b worker = unat (worker mod shard_count b)"

lemma own_shard_less: "bmp_wf b \<Longrightarrow> own_shard b w < unat (shard_count b)"
  by (simp add: own_shard_def bmp_wf_def unat_mod_distrib)

lemma shard_vars:
  fixes b :: mem_bmp and w :: u64
  assumes "bmp_wf b"
  defines "k \<equiv> own_shard b w"
  shows "unat (bmp_capacity b * 8 * (w mod shard_count b) div shard_count b) = shard_first b k"
    and "unat (bmp_capacity b * 8 * (w mod shard_count b + 1) div shard_count b) = shard_first b (Suc k)"
    and "unat (bmp_capacity b * 8 * (w mod shard_count b + 1) div shard_count b
           - bmp_capacity b * 8 * (w mod shard_count b) div shard_count b)
         = shard_first b (Suc k) - shard_first b k"
    and "shard_first b (Suc k) \<le> bmp_total b"
proof -
  have k: "k < unat (shard_count b)" using own_shard_less [OF assms(1)] by (simp add: k_def)
  have u: "unat (w mod shard_count b) = k" by (simp add: k_def own_shard_def)
  from k unat_lt64 [of "shard_count b"] have "k + 1 < 18446744073709551616" by linarith
  then have u1: "unat (w mod shard_count b + 1) = Suc k"
    using u by (simp add: unat_add64)
  show 1: "unat (bmp_capacity b * 8 * (w mod shard_count b) div shard_count b) = shard_first b k"
    using unat_shard [OF assms(1), of "w mod shard_count b"] k u by simp
  show 2: "unat (bmp_capacity b * 8 * (w mod shard_count b + 1) div shard_count b) = shard_first b (Suc k)"
    using unat_shard [OF assms(1), of "w mod shard_count b + 1"] k u1 by simp
  show "unat (bmp_capacity b * 8 * (w mod shard_count b + 1) div shard_count b
           - bmp_capacity b * 8 * (w mod shard_count b) div shard_count b)
         = shard_first b (Suc k) - shard_first b k"
    using shard_first_mono [of k "Suc k" b] by (simp add: unat_sub64 word_le_nat_alt 1 2)
  show "shard_first b (Suc k) \<le> bmp_total b"
    using shard_first_mono [of "Suc k" "unat (shard_count b)" b] k
    by (simp add: shard_first_total [OF assms(1)])
qed

lemma allocate_one_cases:
  fixes b :: mem_bmp and w :: u64
  assumes "allocate_one b w = (b', r)"
  defines "b0 \<equiv> b\<lparr>shard_cursor := (shard_cursor b)(own_shard b w := shard_cursor b (own_shard b w) + 1)\<rparr>"
    and "bg \<equiv> bmp_capacity b * 8 * (w mod shard_count b) div shard_count b"
    and "fin \<equiv> bmp_capacity b * 8 * (w mod shard_count b + 1) div shard_count b"
  obtains
    (own) pos j where "r = Inr pos" "claim_bit b0 pos = (b', True)" "j < unat (fin - bg)"
      "pos = bg + (shard_cursor b (own_shard b w) + of_nat j) mod (fin - bg)"
  | (rest) pos j where "r = Inr pos" "claim_bit b0 pos = (b', True)"
      "pos = (fin + of_nat j) mod (bmp_capacity b * 8)"
      "\<forall>j < unat (fin - bg).
         bmp_bit b (unat (bg + (shard_cursor b (own_shard b w) + of_nat j) mod (fin - bg)))"
      "unat (bmp_capacity b * 8) \<noteq> 0"
  | (full) "r = Inl ENOSPC" "b' = b0"
      "\<forall>j < unat (fin - bg).
         bmp_bit b (unat (bg + (shard_cursor b (own_shard b w) + of_nat j) mod (fin - bg)))"
      "\<forall>j < unat (bmp_capacity b * 8).
         bg \<le> (fin + of_nat j) mod (bmp_capacity b * 8) \<and> (fin + of_nat j) mod (bmp_capacity b * 8) < fin
         \<or> bmp_bit b (unat ((fin + of_nat j) mod (bmp_capacity b * 8)))"
proof -
  let ?st = "shard_cursor b (own_shard b w)" and ?tot = "bmp_capacity b * 8"
  obtain b1 r1 where s1: "scan_shard b0 bg (fin - bg) ?st 0 (unat (fin - bg)) = (b1, r1)"
    by fastforce
  obtain b2 r2 where s2: "scan_rest b1 bg fin ?tot 0 (unat ?tot) = (b2, r2)" by fastforce
  have a: "(b', r) = (case r1 of Some pos \<Rightarrow> (b1, Inr pos)
      | None \<Rightarrow> (case r2 of Some pos \<Rightarrow> (b2, Inr pos) | None \<Rightarrow> (b2, Inl ENOSPC)))"
    using assms(1) s1 s2
    by (simp add: allocate_one_def Let_def own_shard_def b0_def bg_def fin_def split: option.splits)
  show thesis
  proof (cases r1)
    case (Some pos)
    with scan_shard_Some s1 obtain j where "claim_bit b0 pos = (b1, True)" "j < unat (fin - bg)"
      "pos = bg + (?st + 0 + of_nat j) mod (fin - bg)" by blast
    with a Some show thesis by (intro own) auto
  next
    case None
    note n1 = scan_shard_None [OF s1 [unfolded None]]
    have n1': "\<forall>j < unat (fin - bg). bmp_bit b (unat (bg + (?st + of_nat j) mod (fin - bg)))"
      using n1 by (simp add: b0_def)
    show thesis
    proof (cases r2)
      case (Some pos)
      then have "unat ?tot \<noteq> 0" using s2 by (cases "unat ?tot") auto
      moreover obtain j where "claim_bit b1 pos = (b2, True)" "pos = (fin + 0 + of_nat j) mod ?tot"
        using Some scan_rest_Some s2 by blast
      ultimately show thesis using Some a None n1 n1' by (intro rest) auto
    next
      case N2: None
      note n2 = scan_rest_None [OF s2 [unfolded N2]]
      with n1 n1' a None N2 show thesis by (intro full) (auto simp: b0_def)
    qed
  qed
qed

lemma allocate_one_Inr:
  assumes "bmp_wf b" "allocate_one b w = (b', Inr pos)"
  shows "unat pos < bmp_total b" "\<not> bmp_bit b (unat pos)"
    "bmp_bit b' m \<longleftrightarrow> bmp_bit b m \<or> m = unat pos"
    "bmp_used_num b' = bmp_used_num b + 1" "same_geometry b b'"
    "shard_cursor b' = (shard_cursor b)(own_shard b w := shard_cursor b (own_shard b w) + 1)"
proof -
  let ?b0 = "b\<lparr>shard_cursor := (shard_cursor b)(own_shard b w := shard_cursor b (own_shard b w) + 1)\<rparr>"
  let ?bg = "bmp_capacity b * 8 * (w mod shard_count b) div shard_count b"
  let ?fin = "bmp_capacity b * 8 * (w mod shard_count b + 1) div shard_count b"
  note v = shard_vars [OF assms(1), of w]
  have "claim_bit ?b0 pos = (b', True) \<and> unat pos < bmp_total b"
    using assms(2)
  proof (cases rule: allocate_one_cases)
    case (own p j)
    define x where "x = (shard_cursor b (own_shard b w) + of_nat j) mod (?fin - ?bg)"
    have "unat x < unat (?fin - ?bg)"
      unfolding x_def unat_mod_distrib using own(3) by (intro mod_less_divisor) linarith
    then have "unat ?bg + unat x < unat ?fin" unfolding v by simp
    then have "unat (?bg + x) < unat ?fin" using unat_add_less by metis
    with own v(2,4) show ?thesis by (simp add: x_def)
  next
    case (rest p j)
    then have "unat pos < unat (bmp_capacity b * 8)"
      by (simp add: unat_mod_distrib)
    with rest unat_total [OF assms(1)] show ?thesis by simp
  qed simp
  then show "unat pos < bmp_total b" "\<not> bmp_bit b (unat pos)"
    "bmp_bit b' m \<longleftrightarrow> bmp_bit b m \<or> m = unat pos"
    "bmp_used_num b' = bmp_used_num b + 1" "same_geometry b b'"
    "shard_cursor b' = (shard_cursor b)(own_shard b w := shard_cursor b (own_shard b w) + 1)"
    using claim_bit_True [of ?b0 pos b'] by (auto simp: same_geometry_def)
qed

lemma allocate_one_Inl:
  assumes "allocate_one b w = (b', Inl err)"
  shows "err = ENOSPC"
    "b' = b\<lparr>shard_cursor := (shard_cursor b)(own_shard b w := shard_cursor b (own_shard b w) + 1)\<rparr>"
  using assms by (cases rule: allocate_one_cases; simp)+

lemma own_scan_complete:
  fixes b :: mem_bmp and w :: u64
  assumes wf: "bmp_wf b" and cur: "unat (shard_cursor b (own_shard b w)) + bmp_total b \<le> 2 ^ 64"
    and n: "shard_first b (own_shard b w) \<le> n" "n < shard_first b (Suc (own_shard b w))"
  defines "bg \<equiv> bmp_capacity b * 8 * (w mod shard_count b) div shard_count b"
    and "fin \<equiv> bmp_capacity b * 8 * (w mod shard_count b + 1) div shard_count b"
  assumes set: "\<forall>j < unat (fin - bg).
    bmp_bit b (unat (bg + (shard_cursor b (own_shard b w) + of_nat j) mod (fin - bg)))"
  shows "bmp_bit b n"
proof -
  let ?st = "shard_cursor b (own_shard b w)"
  define lo hi where "lo = shard_first b (own_shard b w)" and "hi = shard_first b (Suc (own_shard b w))"
  have v: "unat bg = lo" "unat fin = hi" "unat (fin - bg) = hi - lo" "hi \<le> bmp_total b"
    using shard_vars [OF wf, of w] by (simp_all add: lo_def hi_def bg_def fin_def)
  have lh: "lo \<le> n" "n < hi" using n by (simp_all add: lo_def hi_def)
  then have "n - lo < hi - lo" by linarith
  then obtain j where j: "j < hi - lo" "(unat ?st + j) mod (hi - lo) = n - lo"
    by (rule mod_cover)
  have "unat ?st + j < 2 ^ 64" using cur j v by linarith
  then have "unat ((?st + of_nat j) mod (fin - bg)) = n - lo"
    using j by (simp add: unat_mod_distrib v unat_add64 unat_of_nat64)
  then have "unat bg + unat ((?st + of_nat j) mod (fin - bg)) = n"
    using lh v(1) by simp
  then have "unat (bg + (?st + of_nat j) mod (fin - bg)) = n"
    using lh v(2) unat_add_less [of bg _ fin] by metis
  with set j(1) v(3) show ?thesis by metis
qed

text \<open>A failed allocation means that every bit is set, as long as the worker's cursor does
  not pass \<open>2 ^ 64\<close> during the scan; and a worker whose shard has a clear bit allocates
  from it.\<close>

lemma allocate_one_full:
  assumes wf: "bmp_wf b" and a: "allocate_one b w = (b', Inl err)"
    and cur: "unat (shard_cursor b (own_shard b w)) + bmp_total b \<le> 2 ^ 64"
    and n: "n < bmp_total b"
  shows "bmp_bit b n"
  using a
proof (cases rule: allocate_one_cases)
  case full
  let ?bg = "bmp_capacity b * 8 * (w mod shard_count b) div shard_count b"
  let ?fin = "bmp_capacity b * 8 * (w mod shard_count b + 1) div shard_count b"
  let ?tot = "bmp_capacity b * 8"
  define lo hi where "lo = shard_first b (own_shard b w)" and "hi = shard_first b (Suc (own_shard b w))"
  have v: "unat ?bg = lo" "unat ?fin = hi" "hi \<le> bmp_total b"
    using shard_vars [OF wf, of w] by (simp_all add: lo_def hi_def)
  have T: "bmp_total b < 2 ^ 63" "unat ?tot = bmp_total b"
    using wf_total [OF wf] unat_total [OF wf] by simp_all
  show ?thesis
  proof (cases "lo \<le> n \<and> n < hi")
    case True
    then show ?thesis
      using own_scan_complete [OF wf cur _ _ full(3)] by (simp add: lo_def hi_def)
  next
    case False
    obtain j where j: "j < bmp_total b" "(hi + j) mod bmp_total b = n"
      using mod_cover [OF n] by metis
    have "hi + j < 2 ^ 64" using T v j by simp
    then have p: "unat ((?fin + of_nat j) mod ?tot) = n"
      using j T by (simp add: unat_mod_distrib v unat_add64 unat_of_nat64)
    from full(4) j(1) T(2) have "?bg \<le> (?fin + of_nat j) mod ?tot \<and> (?fin + of_nat j) mod ?tot < ?fin
         \<or> bmp_bit b (unat ((?fin + of_nat j) mod ?tot))" by metis
    with False p v show ?thesis by (auto simp: word_le_nat_alt word_less_nat_alt)
  qed
qed simp_all

lemma allocate_one_own_shard:
  assumes wf: "bmp_wf b" and a: "allocate_one b w = (b', Inr pos)"
    and cur: "unat (shard_cursor b (own_shard b w)) + bmp_total b \<le> 2 ^ 64"
    and n: "shard_first b (own_shard b w) \<le> n" "n < shard_first b (Suc (own_shard b w))" "\<not> bmp_bit b n"
  shows "shard_first b (own_shard b w) \<le> unat pos \<and> unat pos < shard_first b (Suc (own_shard b w))"
  using a
proof (cases rule: allocate_one_cases)
  case (own p j)
  let ?bg = "bmp_capacity b * 8 * (w mod shard_count b) div shard_count b"
  let ?fin = "bmp_capacity b * 8 * (w mod shard_count b + 1) div shard_count b"
  define x where "x = (shard_cursor b (own_shard b w) + of_nat j) mod (?fin - ?bg)"
  note v = shard_vars [OF wf, of w]
  have "unat x < unat (?fin - ?bg)"
    unfolding x_def unat_mod_distrib using own(3) by (intro mod_less_divisor) linarith
  then have "unat ?bg + unat x < unat ?fin" unfolding v by simp
  moreover from this have "unat (?bg + x) = unat ?bg + unat x" by (rule unat_add_less)
  ultimately show ?thesis using own(1,4) v by (simp add: x_def)
next
  case (rest p j)
  from own_scan_complete [OF wf cur n(1,2) rest(4)] n(3) show ?thesis by simp
qed simp

section \<open>Deallocating one object\<close>

lemma in_range_id:
  assumes "bmp_wf b" "unat n < bmp_total b"
  shows "\<not> neg64 n" "\<not> bmp_capacity b * 8 \<le> n"
  using wf_total [OF assms(1)] unat_total [OF assms(1)] assms(2)
  by (simp_all add: neg64_iff word_le_nat_alt)

lemma dealloc_bit_set:
  assumes "bmp_wf b" "unat n < bmp_total b" "bmp_bit b (unat n)"
  obtains b' where "dealloc_bit b n = (b', 0)" "\<And>m. bmp_bit b' m \<longleftrightarrow> bmp_bit b m \<and> m \<noteq> unat n"
    "bmp_used_num b' = bmp_used_num b - 1" "shard_cursor b' = shard_cursor b" "same_geometry b b'"
proof
  let ?c = "b\<lparr>bmp_start_pt := (bmp_start_pt b)(unat (n div 8) :=
    bmp_start_pt b (unat (n div 8)) AND NOT (bit_mask n))\<rparr>"
  show "dealloc_bit b n = (?c\<lparr>bmp_used_num := bmp_used_num b - 1\<rparr>, 0)"
    using in_range_id [OF assms(1,2)] assms(3)
    by (simp add: dealloc_bit_def Let_def mask_test bmp_bit_def byte_index)
  show "bmp_bit (?c\<lparr>bmp_used_num := bmp_used_num b - 1\<rparr>) m \<longleftrightarrow> bmp_bit b m \<and> m \<noteq> unat n" for m
    using bmp_bit_and_not [of b n m] by (simp del: fun_upd_apply)
qed (simp_all add: same_geometry_def)

lemma dealloc_bit_clear:
  assumes "bmp_wf b" "unat n < bmp_total b" "\<not> bmp_bit b (unat n)"
  shows "dealloc_bit b n = (b, 6)"
proof -
  have "\<not> bit (bmp_start_pt b (unat (n div 8))) (7 - unat n mod 8)"
    using assms(3) by (simp add: bmp_bit_def byte_index)
  moreover from this
  have "bmp_start_pt b (unat (n div 8)) AND NOT (bit_mask n) = bmp_start_pt b (unat (n div 8))"
    by (intro bit_eqI) (auto simp: bit_and_iff bit_not_iff bit_mask_bit)
  ultimately show ?thesis
    using in_range_id [OF assms(1,2)] by (simp add: dealloc_bit_def Let_def mask_test)
qed

lemma dealloc_bit_range:
  "bmp_wf b \<Longrightarrow> bmp_total b \<le> unat n \<Longrightarrow> dealloc_bit b n = (b, 4)"
  by (simp add: dealloc_bit_def word_le_nat_alt unat_total)

section \<open>Allocating several objects\<close>

text \<open>The state of the loop of \<open>do_alloc\<close>: relative to the bitmaps before the call, exactly
  the ids handed out so far were claimed.\<close>

definition claimed :: "bmp_arr \<Rightarrow> int \<Rightarrow> bmp_arr \<Rightarrow> u64 list \<Rightarrow> bool" where
  "claimed arr0 t arr ids \<longleftrightarrow>
     (\<forall>s. s \<noteq> t \<longrightarrow> arr s = arr0 s) \<and> same_geometry (arr0 t) (arr t) \<and> distinct ids \<and>
     (\<forall>a \<in> set ids. unat a < bmp_total (arr0 t) \<and> \<not> bmp_bit (arr0 t) (unat a)) \<and>
     (\<forall>m. bmp_bit (arr t) m \<longleftrightarrow> bmp_bit (arr0 t) m \<or> m \<in> unat ` set ids) \<and>
     bmp_used_num (arr t) = bmp_used_num (arr0 t) + of_nat (length ids)"

lemma claimed_Nil [simp]: "claimed arr t arr []"
  by (simp add: claimed_def)

lemma claimed_step:
  assumes "bmp_wf (arr0 t)" "claimed arr0 t arr ids" "allocate_one (arr t) w = (b, Inr a)"
  shows "claimed arr0 t (arr(t := b)) (a # ids)"
proof -
  have wf: "bmp_wf (arr t)"
    using assms(1,2) bmp_wf_geometry [of "arr0 t" "arr t"] by (simp add: claimed_def)
  note a = allocate_one_Inr [OF wf assms(3)]
  have g: "same_geometry (arr0 t) b"
    using a(5) assms(2) same_geometry_trans [of "arr0 t" "arr t"] by (simp add: claimed_def)
  have cap: "bmp_capacity (arr t) = bmp_capacity (arr0 t)"
    using assms(2) by (simp add: claimed_def same_geometry_def)
  have "a \<notin> set ids" "\<not> bmp_bit (arr0 t) (unat a)"
    using a(2) assms(2) by (auto simp: claimed_def)
  then show ?thesis
    using a(1,3,4) assms(2) g cap by (simp add: claimed_def) blast
qed

lemma claimed_fail:
  assumes "claimed arr0 t arr ids" "allocate_one (arr t) w = (b, Inl err)"
  shows "claimed arr0 t (arr(t := b)) ids" "err = ENOSPC"
  using assms allocate_one_Inl [OF assms(2)] by (auto simp: claimed_def same_geometry_def)

lemma claimed_back:
  assumes "bmp_wf (arr0 t)" "claimed arr0 t arr (a # ids)"
  shows "claimed arr0 t (fst (do_dealloc arr t a)) ids"
proof -
  have wf: "bmp_wf (arr t)" and set: "bmp_bit (arr t) (unat a)" and r: "unat a < bmp_total (arr t)"
    using assms bmp_wf_geometry [of "arr0 t" "arr t"] by (simp_all add: claimed_def) (simp add: same_geometry_def)
  obtain b where b: "dealloc_bit (arr t) a = (b, 0)"
    "\<And>m. bmp_bit b m \<longleftrightarrow> bmp_bit (arr t) m \<and> m \<noteq> unat a"
    "bmp_used_num b = bmp_used_num (arr t) - 1" "same_geometry (arr t) b"
    using dealloc_bit_set [OF wf r set] by metis
  have g: "same_geometry (arr0 t) b"
    using b(4) assms(2) same_geometry_trans [of "arr0 t" "arr t"] by (simp add: claimed_def)
  have "m \<in> unat ` set ids \<longrightarrow> m \<noteq> unat a" "\<not> bmp_bit (arr0 t) (unat a)" for m
    using assms(2) by (auto simp: claimed_def dest: word_unat_eq_iff [THEN iffD2])
  then have bits: "bmp_bit b m \<longleftrightarrow> bmp_bit (arr0 t) m \<or> m \<in> unat ` set ids" for m
    using b(2) [of m] assms(2) by (auto simp: claimed_def)
  show ?thesis
    using assms(2) b(1,3) g bits by (simp add: claimed_def do_dealloc_def)
qed

lemma claimed_dealloc_back:
  "bmp_wf (arr0 t) \<Longrightarrow> claimed arr0 t arr ids \<Longrightarrow> claimed arr0 t (dealloc_back arr t ids) []"
proof (induction ids arbitrary: arr)
  case (Cons a ids)
  from Cons.IH [OF Cons.prems(1) claimed_back [of arr0 t, OF Cons.prems]] show ?case by simp
qed simp

lemma alloc_loop_claimed:
  assumes "bmp_wf (arr0 t)" "claimed arr0 t arr ids" "alloc_loop arr t w n ids = (arr', r)"
  shows "case r of Inr out \<Rightarrow> claimed arr0 t arr' out \<and> length out = length ids + n
           | Inl err \<Rightarrow> claimed arr0 t arr' [] \<and> err = ENOSPC"
  using assms(2,3)
proof (induction n arbitrary: arr ids)
  case 0
  then show ?case by (auto simp: claimed_def)
next
  case (Suc n)
  obtain b res where res: "allocate_one (arr t) w = (b, res)" by fastforce
  show ?case
  proof (cases res)
    case (Inr a)
    then have "alloc_loop (arr(t := b)) t w n (a # ids) = (arr', r)"
      using Suc.prems(2) res by simp
    from Suc.IH [OF claimed_step [of arr0 t, OF assms(1) Suc.prems(1) res [unfolded Inr]] this]
    show ?thesis by (simp split: sum.splits)
  next
    case (Inl err)
    note fail = claimed_fail [OF Suc.prems(1) res [unfolded Inl]]
    from claimed_dealloc_back [of arr0 t, OF assms(1) fail(1)] Suc.prems(2) res Inl fail(2)
    show ?thesis by auto
  qed
qed

end
