(* ===== verification/Kernel_Space.thy ===== *)
theory Kernel_Space
  imports Balloc
begin

text \<open>
  The typed entry points of the allocator (end of \<open>KernelFS/balloc.c\<close>), the direct calls
  \<open>orchfs_kfs_alloc_direct\<close> and \<open>orchfs_kfs_dealloc_direct\<close> of \<open>KernelFS/kernel_func.c\<close>, and
  the request functions of \<open>LibFS/req_kernel.c\<close> that LibFS calls.  The response buffer is
  the triple of function code, count and ids.

  The locale \<open>block_allocator\<close> is the contract LibFS relies on; it is interpreted on
  \<^const>\<open>do_alloc\<close> and \<^const>\<open>do_dealloc\<close>.
\<close>

section \<open>Typed allocation\<close>

definition alloc_single ::
  "int \<Rightarrow> (u64 \<Rightarrow> u64) \<Rightarrow> bmp_arr \<Rightarrow> u64 \<Rightarrow> int \<Rightarrow> (bmp_arr \<times> u64) option" where
  "alloc_single bmp_type to_devaddr arr worker return_type =
     (case do_alloc arr worker bmp_type 1 of
        (arr, Inr ids) \<Rightarrow>
          (if return_type = RET_BLK_ID then Some (arr, ids ! 0)
           else if return_type = RET_BLK_ADDR then Some (arr, to_devaddr (ids ! 0))
           else None)
      | (arr, Inl err) \<Rightarrow> None)"

definition alloc_many ::
  "int \<Rightarrow> (u64 \<Rightarrow> u64) \<Rightarrow> bmp_arr \<Rightarrow> u64 \<Rightarrow> i64 \<Rightarrow> int \<Rightarrow> bmp_arr \<times> (errno + u64 list)" where
  "alloc_many bmp_type to_devaddr arr worker alloc_blk_num return_type =
     (case do_alloc arr worker bmp_type alloc_blk_num of
        (arr, Inr ids) \<Rightarrow>
          (arr, Inr (if return_type = RET_BLK_ADDR then map to_devaddr ids else ids))
      | (arr, Inl err) \<Rightarrow> (arr, Inl ENOSPC))"

definition dealloc_typed ::
  "int \<Rightarrow> (u64 \<Rightarrow> u64) \<Rightarrow> bmp_arr \<Rightarrow> u64 \<Rightarrow> int \<Rightarrow> bmp_arr \<times> errno" where
  "dealloc_typed bmp_type to_blkid arr dealloc_blk_info par_type =
     do_dealloc arr bmp_type
       (if par_type = PAR_BLK_ID then dealloc_blk_info
        else if par_type = PAR_BLK_ADDR then to_blkid dealloc_blk_info
        else 0)"

definition alloc_single_inode where
  "alloc_single_inode = alloc_single INODE_BMP INODE_BLKID_TO_DEVADDR"

definition alloc_inodes where
  "alloc_inodes = alloc_many INODE_BMP INODE_BLKID_TO_DEVADDR"

definition dealloc_inode where
  "dealloc_inode = dealloc_typed INODE_BMP INODE_DEVADDR_TO_BLKID"

definition alloc_single_idx_node where
  "alloc_single_idx_node = alloc_single IDX_NODE_BMP IDX_BLKID_TO_DEVADDR"

definition alloc_idx_nodes where
  "alloc_idx_nodes = alloc_many IDX_NODE_BMP IDX_BLKID_TO_DEVADDR"

definition dealloc_idx_node where
  "dealloc_idx_node = dealloc_typed IDX_NODE_BMP IDX_DEVADDR_TO_BLKID"

definition alloc_single_viridx_node where
  "alloc_single_viridx_node = alloc_single VIR_NODE_BMP VIRND_BLKID_TO_DEVADDR"

definition alloc_viridx_nodes where
  "alloc_viridx_nodes = alloc_many VIR_NODE_BMP VIRND_BLKID_TO_DEVADDR"

definition dealloc_viridx_node where
  "dealloc_viridx_node = dealloc_typed VIR_NODE_BMP VIRND_DEVADDR_TO_BLKID"

definition alloc_single_bufmeta_node where
  "alloc_single_bufmeta_node = alloc_single BUFMETA_BMP BUFMETA_BLKID_TO_DEVADDR"

definition alloc_bufmeta_nodes where
  "alloc_bufmeta_nodes = alloc_many BUFMETA_BMP BUFMETA_BLKID_TO_DEVADDR"

definition dealloc_bufmeta_node where
  "dealloc_bufmeta_node = dealloc_typed BUFMETA_BMP BUFMETA_DEVADDR_TO_BLKID"

definition alloc_single_nvm_page where
  "alloc_single_nvm_page = alloc_single PAGE_BMP PAGE_BLKID_TO_DEVADDR"

definition alloc_nvm_pages where
  "alloc_nvm_pages = alloc_many PAGE_BMP PAGE_BLKID_TO_DEVADDR"

definition dealloc_nvm_page where
  "dealloc_nvm_page = dealloc_typed PAGE_BMP PAGE_DEVADDR_TO_BLKID"

definition alloc_single_ssd_block where
  "alloc_single_ssd_block = alloc_single BLOCK_BMP BLOCK_BLKID_TO_DEVADDR"

definition alloc_ssd_blocks where
  "alloc_ssd_blocks = alloc_many BLOCK_BMP BLOCK_BLKID_TO_DEVADDR"

definition dealloc_ssd_block where
  "dealloc_ssd_block = dealloc_typed BLOCK_BMP BLOCK_DEVADDR_TO_BLKID"

section \<open>Direct calls of the kernel part\<close>

abbreviation (input) ALLOC_INODE_FUNC :: int where "ALLOC_INODE_FUNC \<equiv> 0x0000"
abbreviation (input) ALLOC_INXND_FUNC :: int where "ALLOC_INXND_FUNC \<equiv> 0x0001"
abbreviation (input) ALLOC_VIRND_FUNC :: int where "ALLOC_VIRND_FUNC \<equiv> 0x0002"
abbreviation (input) ALLOC_BUFMETA_FUNC :: int where "ALLOC_BUFMETA_FUNC \<equiv> 0x0003"
abbreviation (input) ALLOC_PAGE_FUNC :: int where "ALLOC_PAGE_FUNC \<equiv> 0x0004"
abbreviation (input) ALLOC_BLOCK_FUNC :: int where "ALLOC_BLOCK_FUNC \<equiv> 0x0005"
abbreviation (input) DEALLOC_INODE_FUNC :: int where "DEALLOC_INODE_FUNC \<equiv> 0x0010"
abbreviation (input) DEALLOC_INXND_FUNC :: int where "DEALLOC_INXND_FUNC \<equiv> 0x0011"
abbreviation (input) DEALLOC_VIRND_FUNC :: int where "DEALLOC_VIRND_FUNC \<equiv> 0x0012"
abbreviation (input) DEALLOC_BUFMETA_FUNC :: int where "DEALLOC_BUFMETA_FUNC \<equiv> 0x0013"
abbreviation (input) DEALLOC_PAGE_FUNC :: int where "DEALLOC_PAGE_FUNC \<equiv> 0x0014"
abbreviation (input) DEALLOC_BLOCK_FUNC :: int where "DEALLOC_BLOCK_FUNC \<equiv> 0x0015"

type_synonym response = "int \<times> i64 \<times> u64 list"

definition orchfs_kfs_alloc_direct ::
  "bmp_arr \<Rightarrow> u64 \<Rightarrow> int \<Rightarrow> i64 \<Rightarrow> int \<Rightarrow> bmp_arr \<times> (errno + response)" where
  "orchfs_kfs_alloc_direct arr worker func_type alloc_blk_num return_type =
     (if neg64 alloc_blk_num then (arr, Inl EINVAL)
      else if return_type \<noteq> RET_BLK_ID \<and> return_type \<noteq> RET_BLK_ADDR then (arr, Inl EINVAL)
      else
        let respond = map_prod (\<lambda>arr. arr) (map_sum (\<lambda>err. err) (\<lambda>ids. (func_type, alloc_blk_num, ids)))
        in
        if func_type = ALLOC_INODE_FUNC then respond (alloc_inodes arr worker alloc_blk_num return_type)
        else if func_type = ALLOC_INXND_FUNC then respond (alloc_idx_nodes arr worker alloc_blk_num return_type)
        else if func_type = ALLOC_VIRND_FUNC then respond (alloc_viridx_nodes arr worker alloc_blk_num return_type)
        else if func_type = ALLOC_BUFMETA_FUNC then respond (alloc_bufmeta_nodes arr worker alloc_blk_num return_type)
        else if func_type = ALLOC_PAGE_FUNC then respond (alloc_nvm_pages arr worker alloc_blk_num return_type)
        else if func_type = ALLOC_BLOCK_FUNC then respond (alloc_ssd_blocks arr worker alloc_blk_num return_type)
        else (arr, Inl EINVAL))"

definition dealloc_by_func :: "bmp_arr \<Rightarrow> int \<Rightarrow> u64 \<Rightarrow> int \<Rightarrow> bmp_arr \<times> errno" where
  "dealloc_by_func arr func_type blk parameter_type =
     (if func_type = DEALLOC_INODE_FUNC then dealloc_inode arr blk parameter_type
      else if func_type = DEALLOC_INXND_FUNC then dealloc_idx_node arr blk parameter_type
      else if func_type = DEALLOC_VIRND_FUNC then dealloc_viridx_node arr blk parameter_type
      else if func_type = DEALLOC_BUFMETA_FUNC then dealloc_bufmeta_node arr blk parameter_type
      else if func_type = DEALLOC_PAGE_FUNC then dealloc_nvm_page arr blk parameter_type
      else if func_type = DEALLOC_BLOCK_FUNC then dealloc_ssd_block arr blk parameter_type
      else (arr, EINVAL))"

fun dealloc_each :: "bmp_arr \<Rightarrow> int \<Rightarrow> int \<Rightarrow> u64 list \<Rightarrow> bmp_arr \<times> errno" where
  "dealloc_each arr func_type parameter_type [] = (arr, 0)"
| "dealloc_each arr func_type parameter_type (blk # blks) =
     (case dealloc_by_func arr func_type blk parameter_type of
        (arr, err) \<Rightarrow>
          if err \<noteq> 0 then (arr, err) else dealloc_each arr func_type parameter_type blks)"

definition orchfs_kfs_dealloc_direct :: "bmp_arr \<Rightarrow> int \<Rightarrow> int \<Rightarrow> u64 list \<Rightarrow> bmp_arr \<times> errno" where
  "orchfs_kfs_dealloc_direct arr func_type parameter_type block_ids =
     (if parameter_type \<noteq> PAR_BLK_ID \<and> parameter_type \<noteq> PAR_BLK_ADDR then (arr, EINVAL)
      else dealloc_each arr func_type parameter_type block_ids)"

section \<open>Requests of LibFS\<close>

definition request_alloc ::
  "bmp_arr \<Rightarrow> u64 \<Rightarrow> int \<Rightarrow> i64 \<Rightarrow> int \<Rightarrow> bmp_arr \<times> (errno + response)" where
  "request_alloc arr worker function count return_type =
     (if function < 0 \<or> DEALLOC_BLOCK_FUNC < function then (arr, Inl EINVAL)
      else orchfs_kfs_alloc_direct arr worker function count return_type)"

definition request_dealloc :: "bmp_arr \<Rightarrow> int \<Rightarrow> u64 list \<Rightarrow> int \<Rightarrow> bmp_arr \<times> errno" where
  "request_dealloc arr function blocks parameter_type =
     (if function < 0 \<or> DEALLOC_BLOCK_FUNC < function then (arr, EINVAL)
      else orchfs_kfs_dealloc_direct arr function parameter_type blocks)"

definition request_inode_id_arr where
  "request_inode_id_arr arr worker count type = request_alloc arr worker ALLOC_INODE_FUNC count type"

definition send_dealloc_inode_req where
  "send_dealloc_inode_req arr blocks type = request_dealloc arr DEALLOC_INODE_FUNC blocks type"

definition request_idxnd_id_arr where
  "request_idxnd_id_arr arr worker count type = request_alloc arr worker ALLOC_INXND_FUNC count type"

definition send_dealloc_idxnd_req where
  "send_dealloc_idxnd_req arr blocks type = request_dealloc arr DEALLOC_INXND_FUNC blocks type"

definition request_virnd_id_arr where
  "request_virnd_id_arr arr worker count type = request_alloc arr worker ALLOC_VIRND_FUNC count type"

definition send_dealloc_virnd_req where
  "send_dealloc_virnd_req arr blocks type = request_dealloc arr DEALLOC_VIRND_FUNC blocks type"

definition request_bufmeta_id_arr where
  "request_bufmeta_id_arr arr worker count type = request_alloc arr worker ALLOC_BUFMETA_FUNC count type"

definition send_dealloc_bufmeta_req where
  "send_dealloc_bufmeta_req arr blocks type = request_dealloc arr DEALLOC_BUFMETA_FUNC blocks type"

definition request_page_id_arr where
  "request_page_id_arr arr worker count type = request_alloc arr worker ALLOC_PAGE_FUNC count type"

definition send_dealloc_page_req where
  "send_dealloc_page_req arr blocks type = request_dealloc arr DEALLOC_PAGE_FUNC blocks type"

definition request_block_id_arr where
  "request_block_id_arr arr worker count type = request_alloc arr worker ALLOC_BLOCK_FUNC count type"

definition send_dealloc_block_req where
  "send_dealloc_block_req arr blocks type = request_dealloc arr DEALLOC_BLOCK_FUNC blocks type"

end
