(* ===== verification/Txn.thy ===== *)
theory Txn
  imports Kernel_Space
begin

text \<open>
  The state of LibFS and the transaction half of \<open>LibFS/lib_log.c\<close>: a transaction collects
  change records, the objects it allocated and the objects it will release; it is bound
  to the running operation and written out by the journal (theory \<open>Journal\<close>).

  Metadata blocks (index nodes, virtual nodes, inodes) are memory indexed by 64-bit word:
  all their fields and all offsets the sources log are multiples of eight bytes.  Memory
  allocation does not fail in the model.  The flag \<open>aborted\<close> records a call of \<open>abort\<close>.
\<close>

section \<open>State\<close>

type_synonym blk = "nat \<Rightarrow> u64"

datatype record_kind = RECORD_CREATE | RECORD_DELETE | RECORD_CHANGE | RECORD_PMEM

record transaction_record =
  tr_kind :: record_kind
  tr_block :: i64
  tr_type :: int
  tr_offset :: int
  tr_length :: int
  tr_data :: "u8 list"

record txn =
  tx_records :: "transaction_record list"
  tx_allocations :: "(int \<times> i64) list"
  tx_deallocations :: "(int \<times> i64) list"
  tx_error :: errno

record libfs =
  bmps :: bmp_arr
  worker :: u64
  nvm :: "nat \<Rightarrow> u8"
  inode_mem :: "i64 \<Rightarrow> blk"
  idx_mem :: "i64 \<Rightarrow> blk"
  vir_mem :: "i64 \<Rightarrow> blk"
  cur_tx :: "txn option"
  next_txid :: u64
  checkpoint_generation :: u64
  initialized :: bool
  aborted :: bool

abbreviation (input) MIN_EXT_ID :: int where "MIN_EXT_ID \<equiv> 1"
abbreviation (input) INODE_EXT :: int where "INODE_EXT \<equiv> 1"
abbreviation (input) IDXND_EXT :: int where "IDXND_EXT \<equiv> 2"
abbreviation (input) VIRND_EXT :: int where "VIRND_EXT \<equiv> 3"
abbreviation (input) BUFMETA_EXT :: int where "BUFMETA_EXT \<equiv> 4"
abbreviation (input) PAGE_EXT :: int where "PAGE_EXT \<equiv> 5"
abbreviation (input) BLOCK_EXT :: int where "BLOCK_EXT \<equiv> 6"
abbreviation (input) MAX_EXT_ID :: int where "MAX_EXT_ID \<equiv> 6"

abbreviation (input) MIN_BLKTYPE_OP :: int where "MIN_BLKTYPE_OP \<equiv> 0"
abbreviation (input) INODE_OP :: int where "INODE_OP \<equiv> 0"
abbreviation (input) IDXND_OP :: int where "IDXND_OP \<equiv> 1"
abbreviation (input) VIRND_OP :: int where "VIRND_OP \<equiv> 2"
abbreviation (input) BUFMETA_OP :: int where "BUFMETA_OP \<equiv> 3"
abbreviation (input) PAGE_OP :: int where "PAGE_OP \<equiv> 4"
abbreviation (input) BLOCK_OP :: int where "BLOCK_OP \<equiv> 5"
abbreviation (input) MAX_BLKTYPE_OP :: int where "MAX_BLKTYPE_OP \<equiv> 5"

definition byte_at :: "blk \<Rightarrow> nat \<Rightarrow> u8" where
  "byte_at b i = ucast (drop_bit (8 * (i mod 8)) (b (i div 8)))"

section \<open>Recording\<close>

definition empty_txn :: txn where
  "empty_txn = \<lparr>tx_records = [], tx_allocations = [], tx_deallocations = [], tx_error = 0\<rparr>"

definition orchfs_log_transaction_create :: "libfs \<Rightarrow> errno + txn" where
  "orchfs_log_transaction_create s = (if \<not> initialized s then Inl EIO else Inr empty_txn)"

definition orchfs_log_transaction_bind :: "libfs \<Rightarrow> txn \<Rightarrow> libfs" where
  "orchfs_log_transaction_bind s tx =
     (if cur_tx s \<noteq> None then s\<lparr>aborted := True\<rparr> else s\<lparr>cur_tx := Some tx\<rparr>)"

definition orchfs_log_transaction_unbind :: "libfs \<Rightarrow> libfs" where
  "orchfs_log_transaction_unbind s =
     (if cur_tx s = None then s\<lparr>aborted := True\<rparr> else s\<lparr>cur_tx := None\<rparr>)"

definition orchfs_log_transaction_record_allocation :: "txn \<Rightarrow> int \<Rightarrow> i64 \<Rightarrow> txn \<times> errno" where
  "orchfs_log_transaction_record_allocation tx type block =
     (if type < MIN_EXT_ID \<or> MAX_EXT_ID < type \<or> neg64 block then (tx, EINVAL)
      else (tx\<lparr>tx_allocations := (type, block) # tx_allocations tx\<rparr>, 0))"

definition orchfs_log_record_current_allocation :: "libfs \<Rightarrow> int \<Rightarrow> i64 \<Rightarrow> libfs \<times> errno" where
  "orchfs_log_record_current_allocation s type block =
     (case cur_tx s of
        None \<Rightarrow> (s, 0)
      | Some tx \<Rightarrow>
          (case orchfs_log_transaction_record_allocation tx type block of
             (tx, err) \<Rightarrow> (s\<lparr>cur_tx := Some tx\<rparr>, err)))"

text \<open>0: there is no transaction, 1: deferred, negative: the error.\<close>

definition orchfs_log_defer_current_release :: "libfs \<Rightarrow> int \<Rightarrow> i64 \<Rightarrow> libfs \<times> int" where
  "orchfs_log_defer_current_release s type block =
     (case cur_tx s of
        None \<Rightarrow> (s, 0)
      | Some tx \<Rightarrow>
          if type < MIN_EXT_ID \<or> MAX_EXT_ID < type \<or> neg64 block
          then (s\<lparr>cur_tx := Some (tx\<lparr>tx_error := EINVAL\<rparr>)\<rparr>, - EINVAL)
          else (s\<lparr>cur_tx := Some (tx\<lparr>tx_deallocations := (type, block) # tx_deallocations tx\<rparr>)\<rparr>, 1))"

definition tx_add_record ::
  "txn \<Rightarrow> record_kind \<Rightarrow> i64 \<Rightarrow> int \<Rightarrow> (nat \<Rightarrow> u8) option \<Rightarrow> int \<Rightarrow> int \<Rightarrow> txn" where
  "tx_add_record tx kind block type data offset len =
     (if tx_error tx \<noteq> 0 then tx
      else if type < MIN_BLKTYPE_OP \<or> MAX_BLKTYPE_OP < type \<or> neg64 block \<or> offset < 0 \<or> len < 0 \<or>
              len \<noteq> 0 \<and> data = None
      then tx\<lparr>tx_error := EINVAL\<rparr>
      else tx\<lparr>tx_records := tx_records tx @
             [\<lparr>tr_kind = kind, tr_block = block, tr_type = type, tr_offset = offset, tr_length = len,
               tr_data = (case data of None \<Rightarrow> []
                 | Some d \<Rightarrow> map d [nat offset..<nat offset + nat len])\<rparr>]\<rparr>)"

definition add_record ::
  "libfs \<Rightarrow> record_kind \<Rightarrow> i64 \<Rightarrow> int \<Rightarrow> (nat \<Rightarrow> u8) option \<Rightarrow> int \<Rightarrow> int \<Rightarrow> libfs" where
  "add_record s kind block type data offset len =
     (case cur_tx s of
        None \<Rightarrow> s\<lparr>aborted := True\<rparr>
      | Some tx \<Rightarrow> s\<lparr>cur_tx := Some (tx_add_record tx kind block type data offset len)\<rparr>)"

definition write_create_log :: "libfs \<Rightarrow> i64 \<Rightarrow> int \<Rightarrow> libfs" where
  "write_create_log s block type = add_record s RECORD_CREATE block type None 0 0"

definition write_delete_log :: "libfs \<Rightarrow> i64 \<Rightarrow> int \<Rightarrow> libfs" where
  "write_delete_log s block type = add_record s RECORD_DELETE block type None 0 0"

definition write_change_log :: "libfs \<Rightarrow> i64 \<Rightarrow> int \<Rightarrow> blk \<Rightarrow> nat \<Rightarrow> nat \<Rightarrow> libfs" where
  "write_change_log s block type data offset len =
     add_record s RECORD_CHANGE block type (Some (byte_at data)) (int offset) (int len)"

definition orchfs_log_transaction_add_pmem ::
  "libfs \<Rightarrow> txn \<Rightarrow> i64 \<Rightarrow> u8 list \<Rightarrow> txn \<times> errno" where
  "orchfs_log_transaction_add_pmem s tx offset data =
     (if cur_tx s \<noteq> None \<or> neg64 offset then (tx, EINVAL)
      else let tx = tx_add_record tx RECORD_PMEM offset BUFMETA_OP (Some (\<lambda>i. data ! i)) 0
                      (int (length data))
           in (tx, tx_error tx))"

definition orchfs_log_transaction_is_empty :: "txn \<Rightarrow> bool" where
  "orchfs_log_transaction_is_empty tx \<longleftrightarrow>
     tx_error tx = 0 \<and> tx_records tx = [] \<and> tx_allocations tx = [] \<and> tx_deallocations tx = []"

section \<open>What recording leaves unchanged\<close>

lemma add_record_frame [frame_simps]:
  "bmps (add_record s k b t d off n) = bmps s" "worker (add_record s k b t d off n) = worker s"
  "nvm (add_record s k b t d off n) = nvm s" "idx_mem (add_record s k b t d off n) = idx_mem s"
  "vir_mem (add_record s k b t d off n) = vir_mem s"
  "inode_mem (add_record s k b t d off n) = inode_mem s"
  "next_txid (add_record s k b t d off n) = next_txid s"
  "checkpoint_generation (add_record s k b t d off n) = checkpoint_generation s"
  "initialized (add_record s k b t d off n) = initialized s"
  by (simp_all add: add_record_def split: option.splits)

lemmas write_log_defs = write_create_log_def write_delete_log_def write_change_log_def

lemma write_log_frame [frame_simps]:
  "bmps (write_create_log s b t) = bmps s" "idx_mem (write_create_log s b t) = idx_mem s"
  "vir_mem (write_create_log s b t) = vir_mem s" "inode_mem (write_create_log s b t) = inode_mem s"
  "nvm (write_create_log s b t) = nvm s" "worker (write_create_log s b t) = worker s"
  "bmps (write_change_log s b t d off n) = bmps s"
  "idx_mem (write_change_log s b t d off n) = idx_mem s"
  "vir_mem (write_change_log s b t d off n) = vir_mem s"
  "inode_mem (write_change_log s b t d off n) = inode_mem s"
  "nvm (write_change_log s b t d off n) = nvm s"
  "worker (write_change_log s b t d off n) = worker s"
  by (simp_all add: write_log_defs frame_simps)

end
