(* ===== verification/Lib_Space.thy ===== *)
theory Lib_Space
  imports Txn
begin

text \<open>
  Object reservation and release in LibFS (\<open>LibFS/libspace.c\<close>).  A reservation takes one
  object from the kernel bitmap and attaches it to the bound transaction; a release inside
  a transaction is deferred to its commit.  A call that returns \<open>-1\<close> with \<open>errno\<close> set
  returns \<^const>\<open>Inl\<close> of that error.
\<close>

section \<open>Single objects\<close>

definition request_ids :: "bmp_arr \<Rightarrow> u64 \<Rightarrow> int \<Rightarrow> i64 \<Rightarrow> bmp_arr \<times> (errno + response)" where
  "request_ids arr w type count =
     (if type = INODE_EXT then request_inode_id_arr arr w count RET_BLK_ID
      else if type = IDXND_EXT then request_idxnd_id_arr arr w count RET_BLK_ID
      else if type = VIRND_EXT then request_virnd_id_arr arr w count RET_BLK_ID
      else if type = BUFMETA_EXT then request_bufmeta_id_arr arr w count RET_BLK_ID
      else if type = PAGE_EXT then request_page_id_arr arr w count RET_BLK_ID
      else if type = BLOCK_EXT then request_block_id_arr arr w count RET_BLK_ID
      else (arr, Inl EINVAL))"

definition request_one :: "bmp_arr \<Rightarrow> u64 \<Rightarrow> int \<Rightarrow> bmp_arr \<times> (errno + i64)" where
  "request_one arr w type =
     (case request_ids arr w type 1 of
        (arr, Inl err) \<Rightarrow> (arr, Inl err)
      | (arr, Inr (func, n, ids)) \<Rightarrow>
          (if n \<noteq> 1 \<or> neg64 (ids ! 0) then (arr, Inl EIO) else (arr, Inr (ids ! 0))))"

definition release_one :: "bmp_arr \<Rightarrow> int \<Rightarrow> i64 \<Rightarrow> bmp_arr \<times> errno" where
  "release_one arr type block =
     (if type = INODE_EXT then send_dealloc_inode_req arr [block] PAR_BLK_ID
      else if type = IDXND_EXT then send_dealloc_idxnd_req arr [block] PAR_BLK_ID
      else if type = VIRND_EXT then send_dealloc_virnd_req arr [block] PAR_BLK_ID
      else if type = BUFMETA_EXT then send_dealloc_bufmeta_req arr [block] PAR_BLK_ID
      else if type = PAGE_EXT then send_dealloc_page_req arr [block] PAR_BLK_ID
      else if type = BLOCK_EXT then send_dealloc_block_req arr [block] PAR_BLK_ID
      else (arr, EINVAL))"

definition reserve :: "libfs \<Rightarrow> int \<Rightarrow> libfs \<times> (errno + i64)" where
  "reserve s type =
     (case request_one (bmps s) (worker s) type of
        (arr, Inl err) \<Rightarrow> (s\<lparr>bmps := arr\<rparr>, Inl err)
      | (arr, Inr block) \<Rightarrow>
          (case orchfs_log_record_current_allocation (s\<lparr>bmps := arr\<rparr>) type block of
             (s, err) \<Rightarrow>
               if err \<noteq> 0 then (s\<lparr>bmps := fst (release_one (bmps s) type block)\<rparr>, Inl err)
               else (s, Inr block)))"

text \<open>The second component is the value left in \<open>errno\<close> (0: untouched).\<close>

definition release :: "libfs \<Rightarrow> int \<Rightarrow> i64 \<Rightarrow> libfs \<times> errno" where
  "release s type block =
     (if neg64 block then (s, EINVAL)
      else case orchfs_log_defer_current_release s type block of
             (s, deferred) \<Rightarrow>
               if 0 < deferred then (s, 0)
               else if deferred < 0 then (s, - deferred)
               else (case release_one (bmps s) type block of
                       (arr, err) \<Rightarrow> (s\<lparr>bmps := arr\<rparr>, err)))"

definition require_inode_id where "require_inode_id s = reserve s INODE_EXT"
definition require_index_node_id where "require_index_node_id s = reserve s IDXND_EXT"
definition require_virindex_node_id where "require_virindex_node_id s = reserve s VIRND_EXT"
definition require_buffer_metadata_id where "require_buffer_metadata_id s = reserve s BUFMETA_EXT"
definition require_nvm_page_id where "require_nvm_page_id s = reserve s PAGE_EXT"
definition require_ssd_block_id where "require_ssd_block_id s = reserve s BLOCK_EXT"

definition release_inode where "release_inode s block = fst (release s INODE_EXT block)"
definition release_index_node where "release_index_node s block = fst (release s IDXND_EXT block)"
definition release_virindex_node where "release_virindex_node s block = fst (release s VIRND_EXT block)"
definition release_buffer_metadata where "release_buffer_metadata s block = fst (release s BUFMETA_EXT block)"
definition release_nvm_page where "release_nvm_page s block = fst (release s PAGE_EXT block)"
definition release_ssd_block where "release_ssd_block s block = fst (release s BLOCK_EXT block)"

section \<open>Several objects\<close>

definition request_many :: "bmp_arr \<Rightarrow> u64 \<Rightarrow> int \<Rightarrow> i64 \<Rightarrow> bmp_arr \<times> (errno + response)" where
  "request_many arr w type count =
     (if type = BUFMETA_EXT then request_bufmeta_id_arr arr w count RET_BLK_ID
      else if type = PAGE_EXT then request_page_id_arr arr w count RET_BLK_ID
      else if type = BLOCK_EXT then request_block_id_arr arr w count RET_BLK_ID
      else (arr, Inl EINVAL))"

definition release_many :: "bmp_arr \<Rightarrow> int \<Rightarrow> i64 list \<Rightarrow> bmp_arr \<times> errno" where
  "release_many arr type blocks =
     (if type = BUFMETA_EXT then send_dealloc_bufmeta_req arr blocks PAR_BLK_ID
      else if type = PAGE_EXT then send_dealloc_page_req arr blocks PAR_BLK_ID
      else if type = BLOCK_EXT then send_dealloc_block_req arr blocks PAR_BLK_ID
      else (arr, EINVAL))"

text \<open>The recording loop of \<open>reserve_many\<close>: the ids recorded, the error that stopped it and
  the ids left over.\<close>

fun record_each :: "libfs \<Rightarrow> int \<Rightarrow> i64 list \<Rightarrow> i64 list \<Rightarrow> libfs \<times> errno \<times> i64 list \<times> i64 list" where
  "record_each s type done [] = (s, 0, rev done, [])"
| "record_each s type done (block # blocks) =
     (if neg64 block then (s, EIO, rev done, block # blocks)
      else case orchfs_log_record_current_allocation s type block of
             (s, err) \<Rightarrow>
               if err \<noteq> 0 then (s, err, rev done, block # blocks)
               else record_each s type (block # done) blocks)"

definition reserve_many :: "libfs \<Rightarrow> int \<Rightarrow> i64 \<Rightarrow> libfs \<times> (errno + i64 list)" where
  "reserve_many s type count =
     (if neg64 count then (s, Inl EINVAL)
      else if count = 0 then (s, Inr [])
      else if 2 ^ 31 - 1 < sint count then (s, Inl EOVERFLOW)
      else case request_many (bmps s) (worker s) type count of
             (arr, Inl err) \<Rightarrow> (s\<lparr>bmps := arr\<rparr>, Inl err)
           | (arr, Inr (func, n, ids)) \<Rightarrow>
               let s = s\<lparr>bmps := arr\<rparr> in
               if n \<noteq> count then
                 ((if 0 < sint n \<and> sint n \<le> sint count
                   then s\<lparr>bmps := fst (release_many (bmps s) type (take (unat n) ids))\<rparr> else s),
                  Inl EIO)
               else case record_each s type [] ids of
                      (s, err, out, rest) \<Rightarrow>
                        if err \<noteq> 0 then (s\<lparr>bmps := fst (release_many (bmps s) type rest)\<rparr>, Inl err)
                        else (s, Inr out))"

definition require_buffer_metadata_ids where
  "require_buffer_metadata_ids s count = reserve_many s BUFMETA_EXT count"
definition require_nvm_page_ids where
  "require_nvm_page_ids s count = reserve_many s PAGE_EXT count"
definition require_ssd_block_ids where
  "require_ssd_block_ids s count = reserve_many s BLOCK_EXT count"

section \<open>The calls reach the bitmap of their type\<close>

abbreviation is_ext :: "int \<Rightarrow> bool" where
  "is_ext t \<equiv> MIN_EXT_ID \<le> t \<and> t \<le> MAX_EXT_ID"

lemma is_ext_cases:
  assumes "is_ext t"
  obtains "t = INODE_EXT" | "t = IDXND_EXT" | "t = VIRND_EXT" | "t = BUFMETA_EXT" | "t = PAGE_EXT" | "t = BLOCK_EXT"
  using assms by force

lemmas dealloc_defs = dealloc_typed_def dealloc_inode_def dealloc_idx_node_def
  dealloc_viridx_node_def dealloc_bufmeta_node_def dealloc_nvm_page_def dealloc_ssd_block_def
  dealloc_by_func_def orchfs_kfs_dealloc_direct_def request_dealloc_def
  send_dealloc_inode_req_def send_dealloc_idxnd_req_def send_dealloc_virnd_req_def
  send_dealloc_bufmeta_req_def send_dealloc_page_req_def send_dealloc_block_req_def

lemmas alloc_defs = alloc_many_def alloc_inodes_def alloc_idx_nodes_def alloc_viridx_nodes_def
  alloc_bufmeta_nodes_def alloc_nvm_pages_def alloc_ssd_blocks_def orchfs_kfs_alloc_direct_def
  request_alloc_def request_inode_id_arr_def request_idxnd_id_arr_def request_virnd_id_arr_def
  request_bufmeta_id_arr_def request_page_id_arr_def request_block_id_arr_def

lemma release_one_eq:
  "release_one arr t a = (if is_ext t then do_dealloc arr t a else (arr, EINVAL))"
proof (cases "is_ext t")
  case True
  then show ?thesis
    by (cases rule: is_ext_cases) (auto simp: release_one_def dealloc_defs split: prod.splits)
qed (auto simp: release_one_def)

lemma request_ids_eq:
  assumes "\<not> neg64 n"
  shows "request_ids arr w t n =
    (if is_ext t
     then case do_alloc arr w t n of
            (arr, Inr ids) \<Rightarrow> (arr, Inr (t - 1, n, ids))
          | (arr, Inl err) \<Rightarrow> (arr, Inl ENOSPC)
     else (arr, Inl EINVAL))"
proof (cases "is_ext t")
  case True
  then show ?thesis
    using assms
    by (cases rule: is_ext_cases)
      (simp_all add: request_ids_def alloc_defs split: prod.splits sum.splits)
qed (auto simp: request_ids_def)

lemma request_many_eq:
  "request_many arr w t n =
    (if t = BUFMETA_EXT \<or> t = PAGE_EXT \<or> t = BLOCK_EXT then request_ids arr w t n else (arr, Inl EINVAL))"
  by (auto simp: request_many_def request_ids_def)

section \<open>The allocator contract\<close>

locale block_allocator =
  fixes inv :: "'s \<Rightarrow> bool" and used :: "'s \<Rightarrow> int \<Rightarrow> nat set"
    and alloc :: "'s \<Rightarrow> int \<Rightarrow> u64 \<Rightarrow> 's \<times> (errno + u64 list)"
    and free :: "'s \<Rightarrow> int \<Rightarrow> u64 \<Rightarrow> 's \<times> errno"
  assumes alloc_ok: "inv s \<Longrightarrow> alloc s t n = (s', Inr ids) \<Longrightarrow>
      inv s' \<and> length ids = unat n \<and> distinct ids \<and> unat ` set ids \<inter> used s t = {} \<and>
      used s' = (used s)(t := used s t \<union> unat ` set ids)"
    and alloc_fail: "inv s \<Longrightarrow> alloc s t n = (s', Inl err) \<Longrightarrow> inv s' \<and> used s' = used s"
    and free_ok: "inv s \<Longrightarrow> unat a \<in> used s t \<Longrightarrow>
      \<exists>s'. free s t a = (s', 0) \<and> inv s' \<and> used s' = (used s)(t := used s t - {unat a})"
    and free_bad: "inv s \<Longrightarrow> unat a \<notin> used s t \<Longrightarrow> \<exists>err. free s t a = (s, err) \<and> err \<noteq> 0"
begin

lemma free_all:
  "inv s \<Longrightarrow> distinct ids \<Longrightarrow> unat ` set ids \<subseteq> used s t \<Longrightarrow>
    inv (fold (\<lambda>a s. fst (free s t a)) ids s) \<and>
    used (fold (\<lambda>a s. fst (free s t a)) ids s) = (used s)(t := used s t - unat ` set ids)"
proof (induction ids arbitrary: s)
  case (Cons a ids)
  then obtain s' where s': "free s t a = (s', 0)" "inv s'"
    "used s' = (used s)(t := used s t - {unat a})" using free_ok [of s a t] by auto
  have "unat ` set ids \<subseteq> used s' t"
    using Cons.prems s'(3) by (auto dest: word_unat_eq_iff [THEN iffD2])
  from Cons.IH [OF s'(2) _ this] Cons.prems(2) s' show ?case by (auto simp: fun_eq_iff)
qed simp

text \<open>Giving back everything an allocation returned restores the set of used objects.\<close>

lemma alloc_free_roundtrip:
  assumes "inv s" "alloc s t n = (s', Inr ids)"
  shows "used (fold (\<lambda>a s. fst (free s t a)) ids s') = used s"
  using alloc_ok [OF assms] free_all [of s' ids t] by (auto simp: fun_eq_iff)

end

definition space_wf :: "bmp_arr \<Rightarrow> bool" where
  "space_wf arr \<longleftrightarrow> (\<forall>t. is_ext t \<longrightarrow> bmp_wf (arr t))"

definition used_ids :: "bmp_arr \<Rightarrow> int \<Rightarrow> nat set" where
  "used_ids arr t = (if is_ext t then bmp_bits (arr t) else {})"

lemma claimed_used:
  assumes "is_ext t" "claimed arr t arr' ids"
  shows "used_ids arr' = (used_ids arr)(t := used_ids arr t \<union> unat ` set ids)"
  using assms
  by (auto simp: claimed_def used_ids_def bmp_bits_def same_geometry_def fun_eq_iff)

lemma claimed_wf: "space_wf arr \<Longrightarrow> claimed arr t arr' ids \<Longrightarrow> space_wf arr'"
  unfolding space_wf_def claimed_def by (metis bmp_wf_geometry)

lemma do_alloc_contract:
  assumes "space_wf arr" "do_alloc arr w t n = (arr', r)"
  shows "case r of
      Inr ids \<Rightarrow> space_wf arr' \<and> is_ext t \<and> length ids = unat n \<and> distinct ids \<and>
        unat ` set ids \<inter> used_ids arr t = {} \<and>
        used_ids arr' = (used_ids arr)(t := used_ids arr t \<union> unat ` set ids)
    | Inl err \<Rightarrow> space_wf arr' \<and> used_ids arr' = used_ids arr"
proof (cases "is_ext t")
  case True
  then have wf: "bmp_wf (arr t)" using assms(1) by (simp add: space_wf_def)
  have "alloc_loop arr t w (unat n) [] = (arr', r)"
    using assms(2) True by (simp add: do_alloc_def)
  note c = alloc_loop_claimed [of arr t, OF wf claimed_Nil this]
  show ?thesis
  proof (cases r)
    case (Inl err)
    with c True assms(1) claimed_used [OF True, of arr arr' "[]"] claimed_wf [of arr t arr' "[]"]
    show ?thesis by simp
  next
    case (Inr ids)
    with c have "unat ` set ids \<inter> used_ids arr t = {}"
      by (auto simp: claimed_def used_ids_def bmp_bits_def)
    with c Inr True assms(1) claimed_used [OF True, of arr arr' ids] claimed_wf [of arr t arr' ids]
    show ?thesis by (simp add: claimed_def)
  qed
next
  case False
  with assms show ?thesis by (auto simp: do_alloc_def)
qed

lemma release_one_ok:
  assumes "space_wf arr" "unat a \<in> used_ids arr t"
  obtains arr' where "release_one arr t a = (arr', 0)" "space_wf arr'"
    "used_ids arr' = (used_ids arr)(t := used_ids arr t - {unat a})"
proof -
  have t: "is_ext t" and r: "unat a < bmp_total (arr t)" "bmp_bit (arr t) (unat a)"
    using assms(2) by (auto simp: used_ids_def bmp_bits_def split: if_splits)
  have wf: "bmp_wf (arr t)" using assms(1) t by (simp add: space_wf_def)
  from dealloc_bit_set [OF wf r] obtain b where b: "dealloc_bit (arr t) a = (b, 0)"
    "\<And>m. bmp_bit b m \<longleftrightarrow> bmp_bit (arr t) m \<and> m \<noteq> unat a" "same_geometry (arr t) b" by metis
  show thesis
  proof
    show "release_one arr t a = (arr(t := b), 0)"
      using t b(1) by (simp add: release_one_eq do_dealloc_def)
    show "space_wf (arr(t := b))"
      using assms(1) bmp_wf_geometry [OF b(3)] by (auto simp: space_wf_def)
    show "used_ids (arr(t := b)) = (used_ids arr)(t := used_ids arr t - {unat a})"
      using t b(2,3) by (auto simp: used_ids_def bmp_bits_def same_geometry_def fun_eq_iff)
  qed
qed

lemma release_one_bad:
  assumes "space_wf arr" "unat a \<notin> used_ids arr t"
  shows "\<exists>err. release_one arr t a = (arr, err) \<and> err \<noteq> 0"
proof (cases "is_ext t")
  case True
  then have "bmp_wf (arr t)" using assms(1) by (simp add: space_wf_def)
  then have "\<exists>err. dealloc_bit (arr t) a = (arr t, err) \<and> err \<noteq> 0"
    using assms(2) True dealloc_bit_clear [of "arr t" a] dealloc_bit_range [of "arr t" a]
    by (cases "unat a < bmp_total (arr t)") (auto simp: used_ids_def bmp_bits_def)
  with True show ?thesis by (auto simp: release_one_eq do_dealloc_def)
qed (auto simp: release_one_eq)

interpretation kspace: block_allocator space_wf used_ids "\<lambda>arr t n. do_alloc arr w t n" release_one
  for w
proof
  show "space_wf s' \<and> length ids = unat n \<and> distinct ids \<and> unat ` set ids \<inter> used_ids s t = {} \<and>
      used_ids s' = (used_ids s)(t := used_ids s t \<union> unat ` set ids)"
    if "space_wf s" "do_alloc s w t n = (s', Inr ids)" for s s' t n ids
    using do_alloc_contract [OF that] by simp
  show "space_wf s' \<and> used_ids s' = used_ids s"
    if "space_wf s" "do_alloc s w t n = (s', Inl err)" for s s' t n err
    using do_alloc_contract [OF that] by simp
  show "\<exists>s'. release_one s t a = (s', 0) \<and> space_wf s' \<and>
      used_ids s' = (used_ids s)(t := used_ids s t - {unat a})"
    if "space_wf s" "unat a \<in> used_ids s t" for s a t
    using release_one_ok [OF that] by metis
qed (rule release_one_bad)

section \<open>Capacities\<close>

definition space_caps :: "bmp_arr \<Rightarrow> int \<Rightarrow> u64" where
  "space_caps arr t = bmp_capacity (arr t)"

lemma claimed_caps: "claimed arr t arr' ids \<Longrightarrow> space_caps arr' = space_caps arr"
  by (auto simp: claimed_def space_caps_def same_geometry_def fun_eq_iff)

lemma do_alloc_caps:
  assumes "space_wf arr" "do_alloc arr w t n = (arr', r)"
  shows "space_caps arr' = space_caps arr"
proof (cases "is_ext t")
  case True
  then have "bmp_wf (arr t)" "alloc_loop arr t w (unat n) [] = (arr', r)"
    using assms by (simp_all add: space_wf_def do_alloc_def)
  from alloc_loop_claimed [of arr t, OF this(1) claimed_Nil this(2)] show ?thesis
    by (auto split: sum.splits dest: claimed_caps)
next
  case False
  with assms(2) show ?thesis by (auto simp: do_alloc_def)
qed

lemma release_one_caps: "space_caps (fst (release_one arr t a)) = space_caps arr"
  by (rule ext)
    (auto simp: release_one_eq do_dealloc_def dealloc_bit_def Let_def space_caps_def)

section \<open>Reservation and release in a transaction\<close>

definition tx_alloc :: "int \<Rightarrow> i64 \<Rightarrow> txn \<Rightarrow> txn" where
  "tx_alloc t a tx = tx\<lparr>tx_allocations := (t, a) # tx_allocations tx\<rparr>"

definition tx_dealloc :: "int \<Rightarrow> i64 \<Rightarrow> txn \<Rightarrow> txn" where
  "tx_dealloc t a tx = tx\<lparr>tx_deallocations := (t, a) # tx_deallocations tx\<rparr>"

lemma used_ids_bound: "n \<in> used_ids arr t \<Longrightarrow> n < unat (space_caps arr t) * 8"
  by (auto simp: used_ids_def bmp_bits_def space_caps_def split: if_splits)

lemma used_ids_nonneg:
  assumes "space_wf arr" "unat a \<in> used_ids arr t"
  shows "\<not> neg64 a"
proof -
  from assms(2) have t: "is_ext t" and "unat a < bmp_total (arr t)"
    by (auto simp: used_ids_def bmp_bits_def split: if_splits)
  moreover have "bmp_total (arr t) < 2 ^ 63"
    using assms(1) t wf_total by (simp add: space_wf_def)
  ultimately show ?thesis by (simp add: neg64_iff)
qed

lemma reserve_frame:
  "reserve s t = (s', r) \<Longrightarrow>
     idx_mem s' = idx_mem s \<and> vir_mem s' = vir_mem s \<and> inode_mem s' = inode_mem s \<and>
     nvm s' = nvm s \<and> worker s' = worker s \<and> next_txid s' = next_txid s \<and>
     checkpoint_generation s' = checkpoint_generation s \<and> initialized s' = initialized s \<and>
     aborted s' = aborted s"
  by (auto simp: reserve_def orchfs_log_record_current_allocation_def
      split: prod.splits sum.splits option.splits if_splits)

lemma request_one_ok:
  assumes "space_wf arr" "request_one arr w t = (arr', Inr a)"
  shows "is_ext t \<and> space_wf arr' \<and> space_caps arr' = space_caps arr \<and> \<not> neg64 a \<and>
    unat a \<notin> used_ids arr t \<and> used_ids arr' = (used_ids arr)(t := insert (unat a) (used_ids arr t))"
proof -
  have "\<not> neg64 (1 :: u64)" by (simp add: neg64_iff)
  from request_ids_eq [OF this] assms(2) obtain ids where
    a: "do_alloc arr w t 1 = (arr', Inr ids)" "a = ids ! 0" and t: "is_ext t"
    by (auto simp: request_one_def split: if_splits prod.splits sum.splits)
  note c = kspace.alloc_ok [OF assms(1) a(1)]
  then have ids: "ids = [a]" using a(2) by (cases ids) auto
  with c have "unat a \<in> used_ids arr' t" by simp
  then have "\<not> neg64 a" using used_ids_nonneg c by blast
  with c ids t do_alloc_caps [OF assms(1) a(1)] show ?thesis by auto
qed

lemma request_one_err:
  assumes "space_wf arr" "request_one arr w t = (arr', Inl err)"
  shows "space_wf arr' \<and> space_caps arr' = space_caps arr \<and> used_ids arr' = used_ids arr \<and>
    (err = EINVAL \<or> err = ENOSPC)"
proof -
  have n1: "\<not> neg64 (1 :: u64)" by (simp add: neg64_iff)
  show ?thesis
  proof (cases "is_ext t")
    case False
    with assms request_ids_eq [OF n1, of arr w t] show ?thesis
      by (auto simp: request_one_def split: prod.splits)
  next
    case True
    obtain arr1 r where a: "do_alloc arr w t 1 = (arr1, r)" by fastforce
    show ?thesis
    proof (cases r)
      case (Inl e)
      with a True assms request_ids_eq [OF n1, of arr w t] kspace.alloc_fail [OF assms(1)]
        do_alloc_caps [OF assms(1) a]
      show ?thesis by (auto simp: request_one_def)
    next
      case (Inr ids)
      note c = kspace.alloc_ok [OF assms(1) a [unfolded Inr]]
      then have "length ids = 1" by simp
      then have "unat (ids ! 0) \<in> used_ids arr1 t" using c by auto
      then have "\<not> neg64 (ids ! 0)" using used_ids_nonneg c by blast
      with a Inr True assms(2) request_ids_eq [OF n1, of arr w t] show ?thesis
        by (auto simp: request_one_def)
    qed
  qed
qed

lemma reserve_ok:
  assumes "space_wf (bmps s)" "reserve s t = (s', Inr a)"
  shows "is_ext t" "space_wf (bmps s')" "space_caps (bmps s') = space_caps (bmps s)"
    "\<not> neg64 a" "unat a \<notin> used_ids (bmps s) t"
    "used_ids (bmps s') = (used_ids (bmps s))(t := insert (unat a) (used_ids (bmps s) t))"
    "s' = s\<lparr>bmps := bmps s', cur_tx := map_option (tx_alloc t a) (cur_tx s)\<rparr>"
proof -
  from assms(2) obtain arr where r: "request_one (bmps s) (worker s) t = (arr, Inr a)"
    by (auto simp: reserve_def split: prod.splits sum.splits if_splits)
  note c = request_one_ok [OF assms(1) this]
  have s': "s' = s\<lparr>bmps := arr, cur_tx := map_option (tx_alloc t a) (cur_tx s)\<rparr>"
    using assms(2) r c
    by (auto simp: reserve_def orchfs_log_record_current_allocation_def tx_alloc_def
        orchfs_log_transaction_record_allocation_def split: option.splits)
  show "is_ext t" "space_wf (bmps s')" "space_caps (bmps s') = space_caps (bmps s)"
    "\<not> neg64 a" "unat a \<notin> used_ids (bmps s) t"
    "used_ids (bmps s') = (used_ids (bmps s))(t := insert (unat a) (used_ids (bmps s) t))"
    "s' = s\<lparr>bmps := bmps s', cur_tx := map_option (tx_alloc t a) (cur_tx s)\<rparr>"
    using c s' by auto
qed

lemma reserve_err:
  assumes "space_wf (bmps s)" "reserve s t = (s', Inl err)"
  shows "space_wf (bmps s')" "space_caps (bmps s') = space_caps (bmps s)"
    "used_ids (bmps s') = used_ids (bmps s)" "s' = s\<lparr>bmps := bmps s'\<rparr>" "err = EINVAL \<or> err = ENOSPC"
proof -
  obtain arr r where r: "request_one (bmps s) (worker s) t = (arr, r)" by fastforce
  have "space_wf (bmps s') \<and> space_caps (bmps s') = space_caps (bmps s) \<and>
      used_ids (bmps s') = used_ids (bmps s) \<and> s' = s\<lparr>bmps := bmps s'\<rparr> \<and> (err = EINVAL \<or> err = ENOSPC)"
  proof (cases r)
    case (Inl e)
    with r assms request_one_err [OF assms(1)] show ?thesis by (auto simp: reserve_def)
  next
    case (Inr a)
    with r assms request_one_ok [OF assms(1) r [unfolded Inr]] show ?thesis
      by (auto simp: reserve_def orchfs_log_record_current_allocation_def
          orchfs_log_transaction_record_allocation_def split: option.splits)
  qed
  then show "space_wf (bmps s')" "space_caps (bmps s') = space_caps (bmps s)"
    "used_ids (bmps s') = used_ids (bmps s)" "s' = s\<lparr>bmps := bmps s'\<rparr>" "err = EINVAL \<or> err = ENOSPC"
    by blast+
qed

lemma release_in_tx:
  assumes "cur_tx s = Some tx" "is_ext t" "\<not> neg64 a"
  shows "release s t a = (s\<lparr>cur_tx := Some (tx_dealloc t a tx)\<rparr>, 0)"
  using assms by (simp add: release_def orchfs_log_defer_current_release_def tx_dealloc_def)

lemma release_no_tx:
  assumes "cur_tx s = None" "\<not> neg64 a"
  shows "release s t a = (s\<lparr>bmps := fst (release_one (bmps s) t a)\<rparr>, snd (release_one (bmps s) t a))"
  using assms by (simp add: release_def orchfs_log_defer_current_release_def split: prod.splits)

section \<open>A small bitmap\<close>

text \<open>One byte of bitmap, objects 0 and 1 in use, one shard.\<close>

definition demo_bmp :: mem_bmp where
  "demo_bmp = \<lparr>bmp_start_pt = (\<lambda>i. if i = 0 then 192 else 0), dev_start_addr = 0, bmp_alloc_cur = 0, bmp_used_num = 2,
     bmp_alloc_range = 0, bmp_capacity = 1, blk_area_start = 0, blk_size = 0, shard_cursor = (\<lambda>_. 0), shard_count = 1\<rparr>"

end
