(* ===== verification/Space_Contract.thy ===== *)
theory Space_Contract
  imports Lib_Space
begin

text \<open>
  What the block allocator (\<open>KernelFS/balloc.c\<close>) and the space manager of LibFS promise:
  fresh objects, no change on failure, failure only when nothing is free, and no double
  release.
\<close>

lemma demo_space_wf: "space_wf (\<lambda>_. demo_bmp)" "bmp_wf demo_bmp"
  by (simp_all add: space_wf_def demo_bmp_def bmp_wf_def)

section \<open>Properties\<close>

text \<open>C14. Allocation of several objects is all or nothing: on success \<open>do_alloc\<close> returns exactly as
  many distinct ids as asked for, none of them in use before, and exactly these become used;
  on failure the set of used objects of every kind is what it was.\<close>
theorem do_alloc_all_or_nothing:
  assumes "space_wf arr" and "do_alloc arr w t n = (arr', r)"
  shows "space_wf arr' \<and>
    (case r of
       Inr ids \<Rightarrow> length ids = unat n \<and> distinct ids \<and> unat ` set ids \<inter> used_ids arr t = {} \<and>
         used_ids arr' = (used_ids arr)(t := used_ids arr t \<union> unat ` set ids)
     | Inl err \<Rightarrow> used_ids arr' = used_ids arr)"
  using kspace.alloc_ok [OF assms(1)] kspace.alloc_fail [OF assms(1)] assms(2) by (cases r) auto

theorem do_alloc_all_or_nothing_witness:
  "\<exists>arr'. do_alloc (\<lambda>_. demo_bmp) 0 2 3 = (arr', Inr [2, 3, 4]) \<and>
    used_ids arr' 2 = used_ids (\<lambda>_. demo_bmp) 2 \<union> {2, 3, 4}"
proof -
  have "snd (do_alloc (\<lambda>_. demo_bmp) 0 2 3) = Inr [2, 3, 4]" by code_simp
  then obtain arr' where a: "do_alloc (\<lambda>_. demo_bmp) 0 2 3 = (arr', Inr [2, 3, 4])" by (metis prod.collapse)
  then show ?thesis using do_alloc_all_or_nothing [OF demo_space_wf(1) a] by auto
qed

text \<open>C34. Giving back everything that an allocation returned restores the set of used objects.\<close>
theorem alloc_free_restores:
  assumes "space_wf arr" and "do_alloc arr w t n = (arr', Inr ids)"
  shows "used_ids (fold (\<lambda>a s. fst (release_one s t a)) ids arr') = used_ids arr"
  by (rule kspace.alloc_free_roundtrip [OF assms])

theorem alloc_free_restores_witness:
  "\<exists>arr'. do_alloc (\<lambda>_. demo_bmp) 0 2 3 = (arr', Inr [2, 3, 4]) \<and>
    used_ids (fold (\<lambda>a s. fst (release_one s 2 a)) [2, 3, 4] arr') = used_ids (\<lambda>_. demo_bmp)"
proof -
  have "snd (do_alloc (\<lambda>_. demo_bmp) 0 2 3) = Inr [2, 3, 4]" by code_simp
  then obtain arr' where a: "do_alloc (\<lambda>_. demo_bmp) 0 2 3 = (arr', Inr [2, 3, 4])" by (metis prod.collapse)
  then show ?thesis using alloc_free_restores [OF demo_space_wf(1) a] by blast
qed



text \<open>C35. No double release: releasing an object in use clears exactly its bit and decrements the
  count; releasing it again is refused with code 6 and changes nothing, and so is a number past
  the end of the bitmap, with code 4.\<close>
theorem dealloc_once:
  assumes "bmp_wf b" and "unat n < bmp_total b" and "bmp_bit b (unat n)"
  shows "\<exists>b'. dealloc_bit b n = (b', 0) \<and> bmp_bits b' = bmp_bits b - {unat n} \<and>
    bmp_used_num b' = bmp_used_num b - 1 \<and> dealloc_bit b' n = (b', 6) \<and>
    (\<forall>m. bmp_total b \<le> unat m \<longrightarrow> dealloc_bit b' m = (b', 4))"
proof -
  obtain b' where b': "dealloc_bit b n = (b', 0)" "\<And>m. bmp_bit b' m \<longleftrightarrow> bmp_bit b m \<and> m \<noteq> unat n"
    "bmp_used_num b' = bmp_used_num b - 1" "same_geometry b b'"
    using dealloc_bit_set [OF assms] by blast
  have t: "bmp_total b' = bmp_total b" using b'(4) by (simp add: same_geometry_def)
  have "dealloc_bit b' n = (b', 6)"
    using dealloc_bit_clear [of b' n] b'(2) t assms(1,2) bmp_wf_geometry [OF b'(4)] by simp
  moreover have "dealloc_bit b' m = (b', 4)" if "bmp_total b \<le> unat m" for m
    using dealloc_bit_range [of b' m] that t assms(1) bmp_wf_geometry [OF b'(4)] by simp
  moreover have "bmp_bits b' = bmp_bits b - {unat n}" using b'(2) t by (auto simp: bmp_bits_def)
  ultimately show ?thesis using b' by blast
qed

theorem dealloc_once_witness: "\<exists>b'. dealloc_bit demo_bmp 1 = (b', 0) \<and> dealloc_bit b' 1 = (b', 6)"
proof -
  have "bit (192 :: u8) 6" by (simp add: bit_numeral_rec)
  then have "bmp_bit demo_bmp 1" by (simp add: bmp_bit_def demo_bmp_def)
  then show ?thesis using dealloc_once [OF demo_space_wf(2), of 1] by (auto simp: demo_bmp_def)
qed

end
