(* ===== verification/Balloc_Persist.thy ===== *)
theory Balloc_Persist
  imports Lib_Space "HOL-Library.Signed_Division"
begin

text \<open>
  The durable side of the block allocator (\<open>KernelFS/balloc.c\<close>): loading the bitmaps at
  mount, writing them back, the single-bit updates of the journal, and recounting.  The
  media is the byte map of \<open>Device\<close>; the superblock is \<open>struct orch_super_blk\<close> of
  \<open>KernelFS/type.h\<close>, read and written through its byte offsets.  The memory that
  \<open>valloc\<close> returns is not initialised: bytes past the capacity keep their former value in
  the model and no operation reads them.
\<close>

section \<open>The superblock\<close>

definition get64 :: "(nat \<Rightarrow> u8) \<Rightarrow> nat \<Rightarrow> u64" where
  "get64 m off = of_le (nvm_get m off 8)"

definition put64 :: "(nat \<Rightarrow> u8) \<Rightarrow> nat \<Rightarrow> u64 \<Rightarrow> (nat \<Rightarrow> u8)" where
  "put64 m off v = nvm_put m off (le64 v)"

definition sb_bmp_dev_addr :: "int \<Rightarrow> nat" where "sb_bmp_dev_addr i = 32 + 8 * nat i"
definition sb_bmp_alloc_cur :: "int \<Rightarrow> nat" where "sb_bmp_alloc_cur i = 96 + 8 * nat i"
definition sb_bmp_used_num :: "int \<Rightarrow> nat" where "sb_bmp_used_num i = 160 + 8 * nat i"
definition sb_bmp_alloc_range :: "int \<Rightarrow> nat" where "sb_bmp_alloc_range i = 224 + 8 * nat i"

lemmas sb_defs = sb_bmp_dev_addr_def sb_bmp_alloc_cur_def sb_bmp_used_num_def sb_bmp_alloc_range_def

section \<open>Loading and storing\<close>

definition bmp_area :: "int \<Rightarrow> (u64 \<times> u64 \<times> u64) option" where
  "bmp_area i =
     (if i = INODE_BMP then Some (MAX_INODE_NUM div 8, OFFSET_INODE, ORCH_INODE_SIZE)
      else if i = PAGE_BMP then Some (MAX_PAGE_NUM div 8, OFFSET_PAGE, ORCH_PAGE_SIZE)
      else if i = BLOCK_BMP then Some (MAX_BLOCK_NUM div 8, OFFSET_BLOCK, ORCH_BLOCK_SIZE)
      else if i = BUFMETA_BMP then Some (MAX_BUFMETA_NUM div 8, OFFSET_BUFMETA, ORCH_BUFMETA_SIZE)
      else if i = IDX_NODE_BMP then Some (MAX_INDEX_NUM div 8, OFFSET_INDEX, ORCH_IDX_SIZE)
      else if i = VIR_NODE_BMP then Some (MAX_VIRND_NUM div 8, OFFSET_VIRND, ORCH_VIRND_SIZE)
      else None)"

definition init_one_bmp :: "(nat \<Rightarrow> u8) \<Rightarrow> u64 \<Rightarrow> int \<Rightarrow> mem_bmp \<Rightarrow> mem_bmp" where
  "init_one_bmp media workers i b =
     (let b = b\<lparr>dev_start_addr := get64 media (sb_bmp_dev_addr i), bmp_alloc_cur := get64 media (sb_bmp_alloc_cur i),
                bmp_alloc_range := get64 media (sb_bmp_alloc_range i), bmp_used_num := get64 media (sb_bmp_used_num i)\<rparr>;
          b = (case bmp_area i of
                 None \<Rightarrow> b
               | Some (cap, start, sz) \<Rightarrow> b\<lparr>bmp_capacity := cap, blk_area_start := start, blk_size := sz\<rparr>);
          cap = unat (bmp_capacity b);
          b = b\<lparr>bmp_start_pt := (\<lambda>k. if k < cap then media (unat (dev_start_addr b) + k) else bmp_start_pt b k)\<rparr>;
          b = (if bmp_alloc_range b < bmp_capacity b
               then b\<lparr>bmp_start_pt := (\<lambda>k. if unat (bmp_alloc_range b) \<le> k \<and> k < cap then 0 else bmp_start_pt b k)\<rparr>
               else b)
      in b\<lparr>bmp_alloc_range := bmp_capacity b, shard_count := (if workers = 0 then 1 else workers),
           shard_cursor := (\<lambda>_. 0)\<rparr>)"

definition bmp_ids :: "int list" where "bmp_ids = [1, 2, 3, 4, 5, 6]"

definition init_mem_bmp :: "bmp_arr \<Rightarrow> (nat \<Rightarrow> u8) \<Rightarrow> u64 \<Rightarrow> bmp_arr" where
  "init_mem_bmp arr media workers = fold (\<lambda>i arr. arr(i := init_one_bmp media workers i (arr i))) bmp_ids arr"

definition sync_type_mem_bmp :: "bmp_arr \<Rightarrow> int \<Rightarrow> (nat \<Rightarrow> u8) \<Rightarrow> (nat \<Rightarrow> u8)" where
  "sync_type_mem_bmp arr i media =
     nvm_put media (unat (dev_start_addr (arr i))) (nvm_get (bmp_start_pt (arr i)) 0 (unat (bmp_capacity (arr i))))"

text \<open>The entries of one bitmap in the copy of the superblock.\<close>

definition sb_record_bmp :: "mem_bmp \<Rightarrow> int \<Rightarrow> (nat \<Rightarrow> u8) \<Rightarrow> (nat \<Rightarrow> u8)" where
  "sb_record_bmp b i sb =
     put64 (put64 (put64 (put64 sb (sb_bmp_dev_addr i) (dev_start_addr b)) (sb_bmp_alloc_cur i) 0)
       (sb_bmp_alloc_range i) (bmp_alloc_range b)) (sb_bmp_used_num i) (bmp_used_num b)"

definition sync_all_mem_bmp :: "bmp_arr \<Rightarrow> (nat \<Rightarrow> u8) \<Rightarrow> (nat \<Rightarrow> u8)" where
  "sync_all_mem_bmp arr media =
     (let sb_off = unat OFFSET_SUPER_BLK; sb_len = unat ORCH_SUPER_BLK_SIZE;
          sb = nvm_get media sb_off sb_len;
          (media, sb) = fold (\<lambda>i (media, sb). (sync_type_mem_bmp arr i media, sb_record_bmp (arr i) i sb)) bmp_ids
            (media, (\<lambda>k. if k < sb_len then sb ! k else 0))
      in nvm_put media sb_off (nvm_get sb 0 sb_len))"

definition sync_mem_bmp :: "bmp_arr \<Rightarrow> int \<Rightarrow> i64 \<Rightarrow> i64 \<Rightarrow> (nat \<Rightarrow> u8) \<Rightarrow> (nat \<Rightarrow> u8) \<times> int" where
  "sync_mem_bmp arr bmp_type bit_off bit_len media =
     (let b = arr bmp_type in
      if bmp_capacity b * 8 < bit_off + bit_len then (media, 2)
      else let byte_start = word_of_int (sint bit_off sdiv 8) :: u64;
               byte_end = word_of_int (sint (bit_off + bit_len - 1) sdiv 8) :: u64;
               cpy_bytes = byte_end - byte_start + 1
           in (nvm_put media (unat (dev_start_addr b + byte_start))
                 (nvm_get (bmp_start_pt b) (unat byte_start) (unat cpy_bytes)), 0))"

section \<open>Single-bit updates of the journal\<close>

definition bitmap_change_location :: "bmp_arr \<Rightarrow> int \<Rightarrow> i64 \<Rightarrow> errno + (u64 \<times> u8)" where
  "bitmap_change_location arr bmp_type block =
     (if bmp_type < START_BMP_ID \<or> END_BMP_ID < bmp_type then Inl EINVAL
      else if neg64 block \<or> bmp_capacity (arr bmp_type) * 8 \<le> block then Inl EINVAL
      else Inr (block div 8, bit_mask block))"

definition orchfs_bitmap_persist_change ::
  "bmp_arr \<Rightarrow> int \<Rightarrow> i64 \<Rightarrow> int \<Rightarrow> (nat \<Rightarrow> u8) \<Rightarrow> (nat \<Rightarrow> u8) \<times> errno" where
  "orchfs_bitmap_persist_change arr bmp_type block allocated media =
     (case bitmap_change_location arr bmp_type block of
        Inl err \<Rightarrow> (media, err)
      | Inr (byte_offset, msk) \<Rightarrow>
          if allocated \<noteq> 0 \<and> allocated \<noteq> 1 then (media, EINVAL)
          else let addr = unat (dev_start_addr (arr bmp_type) + byte_offset);
                   durable = media addr;
                   durable = (if allocated \<noteq> 0 then durable OR msk else durable AND NOT msk)
               in (nvm_put media addr [durable], 0))"

definition orchfs_bitmap_replay_change ::
  "bmp_arr \<Rightarrow> int \<Rightarrow> i64 \<Rightarrow> int \<Rightarrow> (nat \<Rightarrow> u8) \<Rightarrow> bmp_arr \<times> (nat \<Rightarrow> u8) \<times> errno" where
  "orchfs_bitmap_replay_change arr bmp_type block allocated media =
     (case bitmap_change_location arr bmp_type block of
        Inl err \<Rightarrow> (arr, media, err)
      | Inr (byte_offset, msk) \<Rightarrow>
          if allocated \<noteq> 0 \<and> allocated \<noteq> 1 then (arr, media, EINVAL)
          else let b = arr bmp_type; i = unat byte_offset; memory = bmp_start_pt b i;
                   b = b\<lparr>bmp_start_pt := (bmp_start_pt b)(i :=
                          if allocated \<noteq> 0 then memory OR msk else memory AND NOT msk)\<rparr>;
                   arr = arr(bmp_type := b)
               in (arr, orchfs_bitmap_persist_change arr bmp_type block allocated media))"

section \<open>Counting and enumerating\<close>

definition popcount :: "u8 \<Rightarrow> nat" where
  "popcount w = length (filter (bit w) [0..<8])"

definition count_bytes :: "(nat \<Rightarrow> u8) \<Rightarrow> nat \<Rightarrow> u64" where
  "count_bytes bytes n = fold (\<lambda>i used. used + of_nat (popcount (bytes i))) [0..<n] 0"

definition orchfs_bitmap_recompute_counts :: "bmp_arr \<Rightarrow> bmp_arr" where
  "orchfs_bitmap_recompute_counts arr =
     fold (\<lambda>i arr. arr(i := (arr i)\<lparr>bmp_used_num := count_bytes (bmp_start_pt (arr i)) (unat (bmp_capacity (arr i)))\<rparr>))
       bmp_ids arr"

definition orchfs_bitmap_next_allocated :: "bmp_arr \<Rightarrow> int \<Rightarrow> i64 \<Rightarrow> i64" where
  "orchfs_bitmap_next_allocated arr bmp_type after =
     (if bmp_type < START_BMP_ID \<or> END_BMP_ID < bmp_type \<or> sint after < - 1 then - 1
      else let b = arr bmp_type in
           case find (\<lambda>n. bmp_start_pt b (n div 8) AND bit_mask (of_nat n) \<noteq> 0)
                  [unat (after + 1)..<unat (bmp_capacity b * 8)] of
             None \<Rightarrow> - 1
           | Some n \<Rightarrow> of_nat n)"

section \<open>One bit on the media\<close>

text \<open>Bit \<open>n\<close> of the durable image of a bitmap.\<close>

definition dev_bit :: "(nat \<Rightarrow> u8) \<Rightarrow> mem_bmp \<Rightarrow> nat \<Rightarrow> bool" where
  "dev_bit media b n = bit (media (unat (dev_start_addr b) + n div 8)) (7 - n mod 8)"

text \<open>The bitmap lies inside the address space.\<close>

definition bmp_placed :: "mem_bmp \<Rightarrow> bool" where
  "bmp_placed b \<longleftrightarrow> bmp_wf b \<and> unat (dev_start_addr b) + unat (bmp_capacity b) < 2 ^ 64"

lemma change_location:
  assumes "is_ext t" "bmp_wf (arr t)" "unat n < bmp_total (arr t)"
  shows "bitmap_change_location arr t n = Inr (n div 8, bit_mask n)"
proof -
  have "\<not> neg64 n" using wf_total [OF assms(2)] assms(3) by (simp add: neg64_iff)
  moreover have "\<not> bmp_capacity (arr t) * 8 \<le> n" using assms(3) unat_total [OF assms(2)] by (simp add: word_le_nat_alt)
  ultimately show ?thesis using assms(1) by (simp add: bitmap_change_location_def)
qed

lemma persist_addr:
  assumes "bmp_placed b" "unat n < bmp_total b"
  shows "unat (dev_start_addr b + n div 8) = unat (dev_start_addr b) + unat n div 8"
proof -
  have "unat n div 8 < unat (bmp_capacity b)" using assms(2) by (simp add: less_mult_imp_div_less)
  then have "unat (dev_start_addr b) + unat (n div 8) < 2 ^ 64" using assms(1) by (simp add: bmp_placed_def byte_index)
  then show ?thesis by (simp add: unat_add64 byte_index)
qed

lemma bit_change:
  "n div 8 = m div 8 \<Longrightarrow> bit (x OR bit_mask w) (7 - m mod 8) \<longleftrightarrow> m = unat w \<or> bit x (7 - m mod 8)"
  "n div 8 = m div 8 \<Longrightarrow> bit (x AND NOT (bit_mask w)) (7 - m mod 8) \<longleftrightarrow> m \<noteq> unat w \<and> bit x (7 - m mod 8)"
  if "n = unat w" for n m :: nat
  using that bit_index_inj [of m n]
  by (auto simp: bit_or_iff bit_and_iff bit_not_iff bit_mask_bit possible_bit_word)

lemma nvm_put_single: "nvm_put m a [v] = m(a := v)"
  by (auto simp: nvm_put_def fun_eq_iff)

lemma persist_change_spec:
  assumes t: "is_ext t" and b: "bmp_placed (arr t)" and n: "unat n < bmp_total (arr t)" and a: "a = 0 \<or> a = 1"
    and p: "orchfs_bitmap_persist_change arr t n a media = (media', err)"
  shows "err = 0" "dev_bit media' (arr t) m \<longleftrightarrow> (if m = unat n then a = 1 else dev_bit media (arr t) m)"
    "x \<noteq> unat (dev_start_addr (arr t)) + unat n div 8 \<Longrightarrow> media' x = media x"
proof -
  have wf: "bmp_wf (arr t)" using b by (simp add: bmp_placed_def)
  let ?addr = "unat (dev_start_addr (arr t)) + unat n div 8"
  have pr: "media' = media(?addr := if a \<noteq> 0 then media ?addr OR bit_mask n else media ?addr AND NOT (bit_mask n))" "err = 0"
    using p a by (auto simp: orchfs_bitmap_persist_change_def change_location [where arr = arr, OF t wf n] persist_addr [OF b n] Let_def
      nvm_put_single)
  then show "err = 0" by simp
  show "media' x = media x" if "x \<noteq> ?addr" using that by (simp add: pr)
  show "dev_bit media' (arr t) m \<longleftrightarrow> (if m = unat n then a = 1 else dev_bit media (arr t) m)"
  proof (cases "m div 8 = unat n div 8")
    case True
    then show ?thesis using a bit_change [OF refl, of n m] by (auto simp: dev_bit_def pr)
  next
    case False
    then show ?thesis by (auto simp: dev_bit_def pr)
  qed
qed

lemma replay_change_spec:
  assumes t: "is_ext t" and b: "bmp_placed (arr t)" and n: "unat n < bmp_total (arr t)" and a: "a = 0 \<or> a = 1"
    and p: "orchfs_bitmap_replay_change arr t n a media = (arr', media', err)"
  shows "err = 0" "dev_bit media' (arr' t) m \<longleftrightarrow> (if m = unat n then a = 1 else dev_bit media (arr t) m)"
    "bmp_bit (arr' t) m \<longleftrightarrow> (if m = unat n then a = 1 else bmp_bit (arr t) m)"
    "\<forall>s. s \<noteq> t \<longrightarrow> arr' s = arr s" "same_geometry (arr t) (arr' t)"
    "x \<noteq> unat (dev_start_addr (arr t)) + unat n div 8 \<Longrightarrow> media' x = media x"
proof -
  have wf: "bmp_wf (arr t)" using b by (simp add: bmp_placed_def)
  let ?i = "unat n div 8"
  have arr': "arr' = arr(t := (arr t)\<lparr>bmp_start_pt := (bmp_start_pt (arr t))(?i :=
      if a \<noteq> 0 then bmp_start_pt (arr t) ?i OR bit_mask n else bmp_start_pt (arr t) ?i AND NOT (bit_mask n))\<rparr>)"
    and pc: "orchfs_bitmap_persist_change arr' t n a media = (media', err)"
    using p a by (auto simp: orchfs_bitmap_replay_change_def change_location [where arr = arr, OF t wf n] Let_def byte_index)
  show g: "same_geometry (arr t) (arr' t)" by (simp add: arr' same_geometry_def)
  then have b': "bmp_placed (arr' t)" using b by (simp add: bmp_placed_def bmp_wf_geometry) (simp add: same_geometry_def)
  have n': "unat n < bmp_total (arr' t)" using n g by (simp add: same_geometry_def)
  note ps = persist_change_spec [where arr = arr', OF t b' n' a pc]
  have d: "dev_start_addr (arr' t) = dev_start_addr (arr t)" using g by (simp add: same_geometry_def)
  then have dev: "dev_bit media (arr' t) m = dev_bit media (arr t) m" by (simp add: dev_bit_def)
  show "err = 0" by (rule ps(1))
  show "dev_bit media' (arr' t) m \<longleftrightarrow> (if m = unat n then a = 1 else dev_bit media (arr t) m)" using ps(2) dev by simp
  show "media' x = media x" if "x \<noteq> unat (dev_start_addr (arr t)) + unat n div 8" using ps(3) that d by simp
  show "\<forall>s. s \<noteq> t \<longrightarrow> arr' s = arr s" by (simp add: arr')
  show "bmp_bit (arr' t) m \<longleftrightarrow> (if m = unat n then a = 1 else bmp_bit (arr t) m)"
  proof (cases "m div 8 = unat n div 8")
    case True
    then show ?thesis using a bit_change [OF refl, of n m] by (auto simp: bmp_bit_def arr')
  next
    case False
    then show ?thesis by (auto simp: bmp_bit_def arr')
  qed
qed

section \<open>Recounting\<close>

definition bits_below :: "(nat \<Rightarrow> u8) \<Rightarrow> nat \<Rightarrow> nat set" where
  "bits_below bytes k = {n. n < 8 * k \<and> bit (bytes (n div 8)) (7 - n mod 8)}"

lemma popcount_card: "popcount w = card {j. j < 8 \<and> bit w (7 - j)}"
proof -
  have "popcount w = card {j. j < 8 \<and> bit w j}"
    by (simp add: popcount_def distinct_length_filter) (rule arg_cong [of _ _ card], auto)
  also have "\<dots> = card {j. j < 8 \<and> bit w (7 - j)}"
    by (rule bij_betw_same_card [of "\<lambda>j. 7 - j"]) (rule bij_betw_byWitness [of _ "\<lambda>j. 7 - j"], auto)
  finally show ?thesis .
qed

lemma card_bits_below: "card (bits_below bytes (Suc k)) = card (bits_below bytes k) + popcount (bytes k)"
proof -
  have eq: "bits_below bytes (Suc k) = bits_below bytes k \<union> (\<lambda>j. 8 * k + j) ` {j. j < 8 \<and> bit (bytes k) (7 - j)}"
    (is "_ = _ \<union> ?S")
  proof (rule set_eqI)
    fix n
    have "n < 8 * Suc k \<longleftrightarrow> n < 8 * k \<or> (\<exists>j < 8. n = 8 * k + j)" by (auto dest: le_Suc_ex intro: leI)
      (metis add.commute add_less_cancel_left le_Suc_ex linorder_not_less mult_Suc_right)
    then show "n \<in> bits_below bytes (Suc k) \<longleftrightarrow> n \<in> bits_below bytes k \<union> ?S"
      by (auto simp: bits_below_def)
  qed
  have "card (bits_below bytes (Suc k)) = card (bits_below bytes k) + card ?S"
    unfolding eq by (rule card_Un_disjoint) (auto simp: bits_below_def)
  also have "card ?S = popcount (bytes k)"
    by (subst card_image) (auto simp: inj_on_def popcount_card)
  finally show ?thesis .
qed

lemma count_bytes_card: "count_bytes bytes k = of_nat (card (bits_below bytes k))"
proof (induction k)
  case 0
  then show ?case by (simp add: count_bytes_def bits_below_def)
next
  case (Suc k)
  have "count_bytes bytes (Suc k) = count_bytes bytes k + of_nat (popcount (bytes k))" by (simp add: count_bytes_def)
  then show ?case using Suc by (simp only: card_bits_below of_nat_add)
qed

section \<open>Unmount and mount\<close>

lemma get64_put64: "get64 (put64 m a v) a = v"
  using nvm.rd_wr_same [of m a "le64 v"] by (simp add: get64_def put64_def)

lemma get64_put64_other: "a + 8 \<le> c \<or> c + 8 \<le> a \<Longrightarrow> get64 (put64 m a v) c = get64 m c"
  using nvm.rd_wr_other [of c 8 a "le64 v" m] by (auto simp: get64_def put64_def)

text \<open>Where the formatter places the bitmaps.\<close>

definition bmp_home :: "int \<Rightarrow> u64" where
  "bmp_home i = (if i = INODE_BMP then OFFSET_INODE_BMP else if i = IDX_NODE_BMP then OFFSET_IDX_BMP
     else if i = VIR_NODE_BMP then OFFSET_VIRND_BMP else if i = BUFMETA_BMP then OFFSET_BUFMETA_BMP
     else if i = PAGE_BMP then OFFSET_PAGE_BMP else OFFSET_BLOCK_BMP)"

definition laid_out :: "bmp_arr \<Rightarrow> bool" where
  "laid_out arr \<longleftrightarrow> (\<forall>i \<in> set bmp_ids. dev_start_addr (arr i) = bmp_home i \<and>
     Some (bmp_capacity (arr i), blk_area_start (arr i), blk_size (arr i)) = bmp_area i \<and>
     bmp_alloc_range (arr i) = bmp_capacity (arr i))"

lemma laid_out_values:
  assumes "laid_out arr"
  shows "dev_start_addr (arr 1) = 4096" "dev_start_addr (arr 2) = 1048576" "dev_start_addr (arr 3) = 5242880"
    "dev_start_addr (arr 4) = 8388608" "dev_start_addr (arr 5) = 12582912" "dev_start_addr (arr 6) = 41943040"
    "bmp_capacity (arr 1) = 262144" "bmp_capacity (arr 2) = 393216" "bmp_capacity (arr 3) = 1048576"
    "bmp_capacity (arr 4) = 3145728" "bmp_capacity (arr 5) = 3538944" "bmp_capacity (arr 6) = 3710976"
  using assms by (simp_all add: laid_out_def bmp_ids_def bmp_home_def bmp_area_def layout_values)
    (simp_all add: config_defs)

lemma laid_out_range: "laid_out arr \<Longrightarrow> i \<in> set bmp_ids \<Longrightarrow> bmp_alloc_range (arr i) = bmp_capacity (arr i)"
  by (simp add: laid_out_def)

lemma get64_low:
  assumes "c + 8 \<le> n"
  shows "get64 (nvm_put m 0 (nvm_get sb 0 n)) c = get64 sb c"
  using assms by (auto simp: get64_def nvm_put_def intro!: arg_cong [of _ _ of_le] nth_equalityI)

lemma sync_all_media:
  assumes "laid_out arr" "i \<in> set bmp_ids" "k < unat (bmp_capacity (arr i))"
  shows "sync_all_mem_bmp arr media (unat (dev_start_addr (arr i)) + k) = bmp_start_pt (arr i) k"
proof -
  have z: "unat OFFSET_SUPER_BLK = 0" "unat ORCH_SUPER_BLK_SIZE = 512" by (simp_all add: config_defs)
  from assms(2) consider "i = 1" | "i = 2" | "i = 3" | "i = 4" | "i = 5" | "i = 6" by (auto simp: bmp_ids_def)
  then show ?thesis
    using assms(3)
    by cases (simp_all add: sync_all_mem_bmp_def bmp_ids_def sync_type_mem_bmp_def z nvm_put_def laid_out_values [OF assms(1)])
qed

lemma sync_all_super:
  assumes "laid_out arr" "i \<in> set bmp_ids"
  shows "get64 (sync_all_mem_bmp arr media) (sb_bmp_dev_addr i) = dev_start_addr (arr i)"
    "get64 (sync_all_mem_bmp arr media) (sb_bmp_used_num i) = bmp_used_num (arr i)"
    "get64 (sync_all_mem_bmp arr media) (sb_bmp_alloc_range i) = bmp_alloc_range (arr i)"
proof -
  have z: "unat OFFSET_SUPER_BLK = 0" "unat ORCH_SUPER_BLK_SIZE = 512" by (simp_all add: config_defs)
  from assms(2) consider "i = 1" | "i = 2" | "i = 3" | "i = 4" | "i = 5" | "i = 6" by (auto simp: bmp_ids_def)
  then show "get64 (sync_all_mem_bmp arr media) (sb_bmp_dev_addr i) = dev_start_addr (arr i)"
    "get64 (sync_all_mem_bmp arr media) (sb_bmp_used_num i) = bmp_used_num (arr i)"
    "get64 (sync_all_mem_bmp arr media) (sb_bmp_alloc_range i) = bmp_alloc_range (arr i)"
    by (cases; simp add: sync_all_mem_bmp_def bmp_ids_def z get64_low sb_defs sb_record_bmp_def get64_put64 get64_put64_other)+
qed

lemma init_at:
  assumes "i \<in> set bmp_ids"
  shows "init_mem_bmp arr media workers i = init_one_bmp media workers i (arr i)"
  using assms by (auto simp: init_mem_bmp_def bmp_ids_def)

lemma mount_after_unmount:
  assumes lo: "laid_out arr" and i: "i \<in> set bmp_ids" and b: "b = init_mem_bmp arr0 (sync_all_mem_bmp arr media) workers i"
  shows "\<forall>k < unat (bmp_capacity (arr i)). bmp_start_pt b k = bmp_start_pt (arr i) k"
    "bmp_capacity b = bmp_capacity (arr i)" "bmp_used_num b = bmp_used_num (arr i)"
    "dev_start_addr b = dev_start_addr (arr i)" "bmp_alloc_range b = bmp_capacity b"
proof -
  have a: "bmp_area i = Some (bmp_capacity (arr i), blk_area_start (arr i), blk_size (arr i))"
    using lo i by (simp add: laid_out_def)
  show "bmp_capacity b = bmp_capacity (arr i)" "bmp_used_num b = bmp_used_num (arr i)"
    "dev_start_addr b = dev_start_addr (arr i)" "bmp_alloc_range b = bmp_capacity b"
    "\<forall>k < unat (bmp_capacity (arr i)). bmp_start_pt b k = bmp_start_pt (arr i) k"
    using sync_all_super [OF lo i, of media] sync_all_media [OF lo i] laid_out_range [OF lo i]
    by (simp_all add: b init_at [OF i] init_one_bmp_def Let_def a)
qed

section \<open>Properties\<close>

text \<open>C25. A journal update of the durable bitmap sets exactly one bit: \<open>orchfs_bitmap_persist_change\<close>
  makes the bit of the block equal to \<open>allocated\<close>, changes no other bit of the bitmap and no
  other byte of the media.  It starts from the byte on the media, so an allocation that so
  far is only in memory does not become durable with it.\<close>
theorem persist_change_one_bit:
  assumes "1 \<le> t \<and> t \<le> 6" and "bmp_placed (arr t)" and "unat n < bmp_total (arr t)" and "a = 0 \<or> a = 1"
    and "orchfs_bitmap_persist_change arr t n a media = (media', err)"
  shows "err = 0 \<and> (\<forall>m. dev_bit media' (arr t) m \<longleftrightarrow> (if m = unat n then a = 1 else dev_bit media (arr t) m)) \<and>
    (\<forall>x. x \<noteq> unat (dev_start_addr (arr t)) + unat n div 8 \<longrightarrow> media' x = media x)"
  using persist_change_spec [where arr = arr, OF assms] by blast

theorem persist_change_one_bit_witness:
  "\<exists>media'. orchfs_bitmap_persist_change (\<lambda>_. demo_bmp) 2 5 1 (\<lambda>_. 0) = (media', 0) \<and>
    dev_bit media' demo_bmp 5 \<and> \<not> dev_bit media' demo_bmp 0 \<and> bmp_bit demo_bmp 0"
proof -
  obtain media' err where p: "orchfs_bitmap_persist_change (\<lambda>_. demo_bmp) 2 5 1 (\<lambda>_. 0) = (media', err)" by fastforce
  have b: "bmp_placed demo_bmp" by (simp add: bmp_placed_def bmp_wf_def demo_bmp_def)
  have n: "unat (5 :: i64) < bmp_total demo_bmp" by (simp add: demo_bmp_def)
  have "bit (192 :: u8) 7" by (simp add: bit_numeral_rec)
  then have "bmp_bit demo_bmp 0" by (simp add: bmp_bit_def demo_bmp_def)
  moreover have "\<not> dev_bit (\<lambda>_. 0) demo_bmp 0" by (simp add: dev_bit_def)
  ultimately show ?thesis using persist_change_one_bit [of 2 "\<lambda>_. demo_bmp" 5 1 "\<lambda>_. 0" media' err] b n p by auto
qed

text \<open>C15. Unmount then mount: for bitmaps placed where the formatter puts them, writing them back with
  \<open>sync_all_mem_bmp\<close> and loading them with \<open>init_mem_bmp\<close> gives for every kind the same
  allocated objects, the same count and the same place, for any number of workers.\<close>
theorem unmount_mount:
  assumes "laid_out arr" and "1 \<le> i \<and> i \<le> 6"
  shows "(let b = init_mem_bmp arr0 (sync_all_mem_bmp arr media) workers i in
    bmp_bits b = bmp_bits (arr i) \<and> bmp_used_num b = bmp_used_num (arr i) \<and>
    dev_start_addr b = dev_start_addr (arr i) \<and> bmp_capacity b = bmp_capacity (arr i) \<and> 0 < unat (shard_count b))"
proof -
  define b where "b = init_mem_bmp arr0 (sync_all_mem_bmp arr media) workers i"
  have i: "i \<in> set bmp_ids" using assms(2) by (auto simp: bmp_ids_def)
  note m = mount_after_unmount [OF assms(1) i b_def]
  have "n div 8 < unat (bmp_capacity (arr i))" if "n < bmp_total (arr i)" for n using that by (simp add: less_mult_imp_div_less)
  then have "bmp_bits b = bmp_bits (arr i)" using m(1,2) by (auto simp: bmp_bits_def bmp_bit_def)
  moreover have "0 < unat (shard_count b)"
    using i by (simp add: b_def init_at init_one_bmp_def Let_def unat_gt_0)
  ultimately show ?thesis using m by (simp add: b_def [symmetric])
qed

theorem unmount_mount_witness:
  "\<exists>arr. laid_out arr \<and> bmp_bit (arr 3) 9 \<and>
    bmp_bits (init_mem_bmp (\<lambda>_. demo_bmp) (sync_all_mem_bmp arr (\<lambda>_. 0)) 4 3) = bmp_bits (arr 3)"
proof -
  define arr where "arr = (\<lambda>i. case bmp_area i of None \<Rightarrow> demo_bmp
    | Some (c, st, sz) \<Rightarrow> demo_bmp\<lparr>bmp_start_pt := (\<lambda>k. if k = 1 then 64 else 0), dev_start_addr := bmp_home i,
        bmp_capacity := c, blk_area_start := st, blk_size := sz, bmp_alloc_range := c\<rparr>)"
  have lo: "laid_out arr" by (simp add: laid_out_def bmp_ids_def arr_def bmp_area_def)
  have "bit (64 :: u8) 6" by (simp add: bit_numeral_rec)
  then have "bmp_bit (arr 3) 9" by (simp add: bmp_bit_def arr_def bmp_area_def)
  then show ?thesis using unmount_mount [OF lo, of 3 "\<lambda>_. demo_bmp" "\<lambda>_. 0" 4] lo by (auto simp: Let_def)
qed

text \<open>C36. Recovery recounts: after \<open>orchfs_bitmap_recompute_counts\<close> the used counter of every bitmap
  is the number of its allocated objects, whatever the counters were, and no bit changed.\<close>
theorem recompute_counts_exact:
  assumes "1 \<le> i \<and> i \<le> 6"
  shows "bmp_counted (orchfs_bitmap_recompute_counts arr i) \<and>
    bmp_bits (orchfs_bitmap_recompute_counts arr i) = bmp_bits (arr i)"
proof -
  have i: "i \<in> set bmp_ids" using assms by (auto simp: bmp_ids_def)
  have r: "orchfs_bitmap_recompute_counts arr i =
      (arr i)\<lparr>bmp_used_num := count_bytes (bmp_start_pt (arr i)) (unat (bmp_capacity (arr i)))\<rparr>"
    using i by (auto simp: orchfs_bitmap_recompute_counts_def bmp_ids_def)
  have "bits_below (bmp_start_pt (arr i)) (unat (bmp_capacity (arr i))) = bmp_bits (arr i)"
    by (auto simp: bits_below_def bmp_bits_def bmp_bit_def)
  moreover have "bmp_bits ((arr i)\<lparr>bmp_used_num := c\<rparr>) = bmp_bits (arr i)" for c by (simp add: bmp_bits_def bmp_bit_def)
  ultimately show ?thesis by (simp add: r bmp_counted_def count_bytes_card)
qed

theorem recompute_counts_exact_witness:
  "bmp_counted (orchfs_bitmap_recompute_counts (\<lambda>_. demo_bmp\<lparr>bmp_used_num := 99\<rparr>) 2)"
  using recompute_counts_exact [of 2] by simp

end
