(* ===== verification/Crc32c.thy ===== *)
theory Crc32c
  imports Byte_Codec
begin

text \<open>
  The checksum of the on-media format (\<open>include/orchfs/crc32c.h\<close>).  The software variant
  works bit by bit; the hardware variant takes eight bytes at a time with the SSE4.2
  instructions, whose documented result is the remainder of the operand: the register is
  the checksum combined with the operand and is shifted out one bit at a time, feeding the
  reflected polynomial back.  Both variants are proved equal.
\<close>

section \<open>Definitions\<close>

definition crc_poly :: u32 where "crc_poly = 0x82f63b78"

definition crc_bit :: "u32 \<Rightarrow> u32" where
  "crc_bit crc = (drop_bit 1 crc) XOR (crc_poly AND (- (crc AND 1)))"

definition crc_byte :: "u32 \<Rightarrow> u8 \<Rightarrow> u32" where
  "crc_byte crc b = (crc_bit ^^ 8) (crc XOR ucast b)"

definition orchfs_crc32c_software :: "u8 list \<Rightarrow> u32" where
  "orchfs_crc32c_software bytes = NOT (fold (\<lambda>b crc. crc_byte crc b) bytes (- 1))"

text \<open>The instructions \<open>crc32\<close> with an 8-bit and with a 64-bit operand.\<close>

definition shift_out :: "'a::len word \<Rightarrow> 'a word" where
  "shift_out x = (drop_bit 1 x) XOR (if bit x 0 then ucast crc_poly else 0)"

definition mm_crc32_u8 :: "u32 \<Rightarrow> u8 \<Rightarrow> u32" where
  "mm_crc32_u8 crc b = (shift_out ^^ 8) (crc XOR ucast b)"

definition mm_crc32_u64 :: "u64 \<Rightarrow> u64 \<Rightarrow> u64" where
  "mm_crc32_u64 crc w = (shift_out ^^ 64) (ucast (ucast crc :: u32) XOR w)"

fun crc_words :: "u64 \<Rightarrow> u8 list \<Rightarrow> u64 \<times> u8 list" where
  "crc_words crc bytes =
     (if 8 \<le> length bytes then crc_words (mm_crc32_u64 crc (of_le (take 8 bytes))) (drop 8 bytes)
      else (crc, bytes))"

declare crc_words.simps [simp del]

definition orchfs_crc32c_hardware :: "u8 list \<Rightarrow> u32" where
  "orchfs_crc32c_hardware bytes =
     (let (crc, rest) = crc_words (ucast (- 1 :: u32)) bytes;
          crc = fold (\<lambda>b crc. ucast (mm_crc32_u8 (ucast crc) b)) rest crc
      in NOT (ucast crc))"

definition orchfs_crc32c :: "bool \<Rightarrow> u8 list \<Rightarrow> u32" where
  "orchfs_crc32c sse42 bytes = (if sse42 then orchfs_crc32c_hardware bytes else orchfs_crc32c_software bytes)"

section \<open>One bit\<close>

lemma crc_bit_shift: "crc_bit = shift_out"
proof
  fix x :: u32
  have "x AND 1 = (if bit x 0 then 1 else 0)" by (simp add: and_one_eq bit_0 odd_iff_mod_2_eq_one)
  then show "crc_bit x = shift_out x" by (simp add: crc_bit_def shift_out_def)
qed

lemma shift_out_xor: "shift_out (x XOR y) = shift_out x XOR shift_out y"
  by (rule bit_word_eqI) (auto simp: shift_out_def bit_xor_iff bit_drop_bit_eq)

section \<open>Eight bytes at once\<close>

lemma shift_outs_xor: "(shift_out ^^ k) (x XOR y) = (shift_out ^^ k) x XOR (shift_out ^^ k) y"
  by (induction k) (simp_all add: shift_out_xor)

lemma shift_out_ucast: "shift_out (ucast c :: u64) = ucast (shift_out c)" for c :: u32
  by (rule bit_word_eqI)
    (auto simp: shift_out_def bit_xor_iff bit_drop_bit_eq bit_unsigned_iff dest: bit_imp_le_length)

lemma shift_outs_ucast: "(shift_out ^^ k) (ucast c :: u64) = ucast ((shift_out ^^ k) c)" for c :: u32
  by (induction k) (simp_all add: shift_out_ucast)

lemma shift_outs_zero: "\<forall>i < k. \<not> bit x i \<Longrightarrow> (shift_out ^^ k) x = drop_bit k x"
proof (induction k)
  case (Suc k)
  then have "(shift_out ^^ Suc k) x = shift_out (drop_bit k x)" by simp
  also have "\<dots> = drop_bit (Suc k) x" using Suc.prems by (simp add: shift_out_def bit_drop_bit_eq)
  finally show ?case .
qed simp

lemma of_le_low: "bit (of_le bs :: u64) n \<Longrightarrow> n < 8 * length bs"
  using bit_of_le [of n bs, where ?'a = 64] bit_imp_le_length [of "of_le bs :: u64" n] by (auto simp: less_mult_imp_div_less)

lemma of_le_Cons_xor:
  assumes "length bs < 8"
  shows "(of_le (b # bs) :: u64) = ucast b XOR push_bit 8 (of_le bs)"
  by (rule bit_word_eqI) (auto simp: bit_or_iff bit_xor_iff bit_push_bit_iff bit_unsigned_iff dest: bit_imp_le_length)

lemma crc_word_bytes:
  "length bs \<le> 8 \<Longrightarrow>
    (shift_out ^^ (8 * length bs)) (ucast c XOR of_le bs :: u64) =
      ucast (fold (\<lambda>b c. (shift_out ^^ 8) (c XOR ucast b)) bs c)" for c :: u32
proof (induction bs arbitrary: c)
  case (Cons b bs)
  have u: "(ucast (c XOR ucast b :: u32) :: u64) = ucast c XOR ucast b"
    by (rule bit_word_eqI) (auto simp: bit_xor_iff bit_unsigned_iff dest: bit_imp_le_length)
  have d: "drop_bit 8 (push_bit 8 (of_le bs)) = (of_le bs :: u64)"
    by (rule bit_word_eqI) (use Cons.prems in \<open>auto simp: bit_drop_bit_eq bit_push_bit_iff dest: of_le_low\<close>)
  have z: "(shift_out ^^ 8) (push_bit 8 (of_le bs)) = (of_le bs :: u64)"
    by (subst shift_outs_zero) (auto simp: bit_push_bit_iff d)
  have "(ucast c XOR of_le (b # bs) :: u64) = ucast (c XOR ucast b :: u32) XOR push_bit 8 (of_le bs)"
    using Cons.prems by (simp only: of_le_Cons_xor u) (simp add: xor.assoc of_le_Cons_xor del: of_le.simps)
  then have "(shift_out ^^ 8) (ucast c XOR of_le (b # bs) :: u64) =
      ucast ((shift_out ^^ 8) (c XOR ucast b)) XOR of_le bs"
    by (simp only: shift_outs_xor shift_outs_ucast z)
  moreover have "8 * length (b # bs) = 8 * length bs + 8" by simp
  ultimately show ?case using Cons.IH [of "(shift_out ^^ 8) (c XOR ucast b)"] Cons.prems
    by (simp only: funpow_add comp_apply fold_simps length_Cons)
qed simp

lemma ucast_back [simp]: "ucast (ucast c :: u64) = c" for c :: u32
  by (rule bit_word_eqI) (auto simp: bit_unsigned_iff)

lemma crc_step: "crc_byte c b = (shift_out ^^ 8) (c XOR ucast b)"
  by (simp add: crc_byte_def crc_bit_shift)

lemma crc_words_spec:
  "fold (\<lambda>b crc. ucast (mm_crc32_u8 (ucast crc) b)) (snd (crc_words (ucast c) bs)) (fst (crc_words (ucast c) bs)) =
    ucast (fold (\<lambda>b c. crc_byte c b) bs c)" for c :: u32
proof (induction "length bs" arbitrary: bs c rule: less_induct)
  case less
  show ?case
  proof (cases "8 \<le> length bs")
    case True
    let ?c = "fold (\<lambda>b c. crc_byte c b) (take 8 bs) c"
    have "mm_crc32_u64 (ucast c) (of_le (take 8 bs)) = ucast ?c"
      using crc_word_bytes [of "take 8 bs" c] True by (simp add: mm_crc32_u64_def crc_step)
    then have "crc_words (ucast c) bs = crc_words (ucast ?c) (drop 8 bs)"
      using True by (subst crc_words.simps) simp
    moreover have "fold (\<lambda>b c. crc_byte c b) bs c = fold (\<lambda>b c. crc_byte c b) (drop 8 bs) ?c"
      by (metis append_take_drop_id fold_append comp_apply)
    ultimately show ?thesis using less [of "drop 8 bs" ?c] True by simp
  next
    case False
    have "fold (\<lambda>b crc. ucast (mm_crc32_u8 (ucast crc) b)) xs (ucast c :: u64) = ucast (fold (\<lambda>b c. crc_byte c b) xs c)"
      for xs and c :: u32
      by (induction xs arbitrary: c) (simp_all add: mm_crc32_u8_def crc_step)
    then show ?thesis using False by (simp add: crc_words.simps [of _ bs])
  qed
qed

section \<open>Properties\<close>

text \<open>C29. The hardware and the software checksum agree on every byte string, so an image written on
  one machine validates on another and \<open>orchfs_crc32c\<close> does not depend on the processor.\<close>
theorem crc_hardware_agrees: "orchfs_crc32c True bytes = orchfs_crc32c False bytes"
  using crc_words_spec [of "- 1" bytes]
  by (simp add: orchfs_crc32c_def orchfs_crc32c_hardware_def orchfs_crc32c_software_def split_beta Let_def)

end
