(* ===== verification/Journal_Frame.thy ===== *)
theory Journal_Frame
  imports Balloc_Persist Crc32c
begin

text \<open>
  Journal frames (\<open>LibFS/lib_log.c\<close>, format in \<open>include/orchfs/disk_format.h\<close>): building the
  byte image of a transaction, validating an image read back, and applying its records to
  the media.  A frame is a 64-byte header, the records (a 32-byte header and data, padded
  to whole cache lines) and a 64-byte commit record.
\<close>

section \<open>Locations\<close>

abbreviation (input) ORCHFS_JOURNAL_MAGIC :: u64 where "ORCHFS_JOURNAL_MAGIC \<equiv> 0x4f52434857414c32"
abbreviation (input) ORCHFS_JOURNAL_COMMIT_MAGIC :: u64 where "ORCHFS_JOURNAL_COMMIT_MAGIC \<equiv> 0x434f4d4d49543221"
abbreviation (input) ORCHFS_JOURNAL_VERSION :: u32 where "ORCHFS_JOURNAL_VERSION \<equiv> 1"
abbreviation (input) ORCHFS_JOURNAL_WRITE :: u32 where "ORCHFS_JOURNAL_WRITE \<equiv> 1"
abbreviation (input) ORCHFS_JOURNAL_ALLOCATE :: u32 where "ORCHFS_JOURNAL_ALLOCATE \<equiv> 2"
abbreviation (input) ORCHFS_JOURNAL_FREE :: u32 where "ORCHFS_JOURNAL_FREE \<equiv> 3"
abbreviation (input) SIZE_MAX :: nat where "SIZE_MAX \<equiv> 18446744073709551615"
abbreviation (input) UINT32_MAX :: nat where "UINT32_MAX \<equiv> 4294967295"

definition ORCHFS_JOURNAL_BYTES :: nat where "ORCHFS_JOURNAL_BYTES = 64 * 2 ^ 20"

definition align_cacheline :: "nat \<Rightarrow> nat" where
  "align_cacheline len = (len + 63) div 64 * 64"

definition valid_extent_block :: "int \<Rightarrow> i64 \<Rightarrow> bool" where
  "valid_extent_block type block \<longleftrightarrow> \<not> neg64 block \<and>
     block < (if type = INODE_EXT then MAX_INODE_NUM else if type = IDXND_EXT then MAX_INDEX_NUM
       else if type = VIRND_EXT then MAX_VIRND_NUM else if type = BUFMETA_EXT then MAX_BUFMETA_NUM
       else if type = PAGE_EXT then MAX_PAGE_NUM else if type = BLOCK_EXT then MAX_BLOCK_NUM else 0)"

text \<open>The area of a metadata block: base, size of a block, and number of blocks that have a
  memory address.\<close>

definition metadata_area :: "int \<Rightarrow> (u64 \<times> u64 \<times> u64) option" where
  "metadata_area type =
     (if type = INODE_OP then Some (OFFSET_INODE, ORCH_INODE_SIZE, MAX_INODE_NUM)
      else if type = IDXND_OP then Some (OFFSET_INDEX, ORCH_IDX_SIZE, MAX_INDEX_NUM)
      else if type = VIRND_OP then Some (OFFSET_VIRND, ORCH_VIRND_SIZE, MAX_VIRND_NUM)
      else None)"

definition metadata_location :: "int \<Rightarrow> i64 \<Rightarrow> int \<Rightarrow> int \<Rightarrow> errno + i64" where
  "metadata_location type block offset len =
     (if neg64 block \<or> offset < 0 \<or> len < 0 then Inl EINVAL
      else case metadata_area type of
             None \<Rightarrow> Inl EINVAL
           | Some (base, unit, num) \<Rightarrow>
               if \<not> block < num \<or> uint unit < offset \<or> uint unit - offset < len then Inl EINVAL
               else Inr (base + block * unit + word_of_int offset))"

definition record_target :: "transaction_record \<Rightarrow> errno + i64" where
  "record_target r =
     (if tr_kind r = RECORD_PMEM
      then if neg64 (tr_block r) \<or> tr_length r < 0 \<or> PMEM_LEN < tr_block r \<or>
              uint (PMEM_LEN - tr_block r) < tr_length r
           then Inl EINVAL else Inr (tr_block r)
      else metadata_location (tr_type r) (tr_block r) (tr_offset r) (tr_length r))"

section \<open>Building a frame\<close>

definition checksum :: "u8 list \<Rightarrow> u32" where
  "checksum bytes = orchfs_crc32c False bytes"

record disk_record =
  dr_kind :: u32
  dr_type :: u32
  dr_target :: i64
  dr_offset :: u32
  dr_length :: u32
  dr_bytes :: u32
  dr_check :: u32
  dr_data :: "u8 list"

definition encode_record :: "disk_record \<Rightarrow> u8 list" where
  "encode_record r =
     le32 (dr_kind r) @ le32 (dr_type r) @ le64 (dr_target r) @ le32 (dr_offset r) @ le32 (dr_length r) @
     le32 (dr_bytes r) @ le32 (dr_check r) @ dr_data r @ replicate (unat (dr_bytes r) - 32 - length (dr_data r)) 0"

definition frame_header :: "u64 \<Rightarrow> u64 \<Rightarrow> u32 \<Rightarrow> u32 \<Rightarrow> u32 \<Rightarrow> u8 list" where
  "frame_header txid frame_bytes record_count payload_checksum header_checksum =
     le64 ORCHFS_JOURNAL_MAGIC @ le32 ORCHFS_JOURNAL_VERSION @ le32 64 @ le64 txid @ le64 frame_bytes @
     le32 record_count @ le32 payload_checksum @ le32 header_checksum @ replicate 20 0"

definition frame_commit :: "u64 \<Rightarrow> u64 \<Rightarrow> u32 \<Rightarrow> u8 list" where
  "frame_commit txid frame_bytes frame_checksum =
     le64 ORCHFS_JOURNAL_COMMIT_MAGIC @ le64 txid @ le64 frame_bytes @ le32 frame_checksum @ replicate 36 0"

definition add_frame_size :: "nat \<times> nat \<Rightarrow> nat \<Rightarrow> errno + (nat \<times> nat)" where
  "add_frame_size = (\<lambda>(payload_bytes, record_count) data_bytes.
     if SIZE_MAX - 32 < data_bytes then Inl EOVERFLOW
     else let bytes = align_cacheline (32 + data_bytes) in
          if ORCHFS_JOURNAL_BYTES < bytes \<or> ORCHFS_JOURNAL_BYTES - bytes < payload_bytes \<or> record_count = UINT32_MAX
          then Inl E2BIG else Inr (payload_bytes + bytes, record_count + 1))"

definition journaled :: "transaction_record \<Rightarrow> bool" where
  "journaled r \<longleftrightarrow> tr_kind r = RECORD_CHANGE \<or> tr_kind r = RECORD_PMEM"

fun size_records :: "transaction_record list \<Rightarrow> nat \<times> nat \<Rightarrow> errno + (nat \<times> nat)" where
  "size_records [] acc = Inr acc"
| "size_records (r # rs) acc =
     (if \<not> journaled r then size_records rs acc
      else case record_target r of
             Inl err \<Rightarrow> Inl err
           | Inr target \<Rightarrow>
               (case add_frame_size acc (nat (tr_length r)) of
                  Inl err \<Rightarrow> Inl err
                | Inr acc \<Rightarrow> size_records rs acc))"

fun size_allocations :: "(int \<times> i64) list \<Rightarrow> nat \<times> nat \<Rightarrow> errno + (nat \<times> nat)" where
  "size_allocations [] acc = Inr acc"
| "size_allocations ((type, block) # as) acc =
     (if \<not> valid_extent_block type block then Inl EINVAL
      else case add_frame_size acc 0 of
             Inl err \<Rightarrow> Inl err
           | Inr acc \<Rightarrow> size_allocations as acc)"

text \<open>The records of the second pass; every target was accepted by the first pass.\<close>

definition write_record :: "transaction_record \<Rightarrow> i64 \<Rightarrow> disk_record" where
  "write_record r target =
     \<lparr>dr_kind = ORCHFS_JOURNAL_WRITE, dr_type = word_of_int (tr_type r), dr_target = target, dr_offset = 0,
      dr_length = word_of_int (tr_length r), dr_bytes = of_nat (align_cacheline (32 + nat (tr_length r))),
      dr_check = checksum (tr_data r), dr_data = tr_data r\<rparr>"

definition alloc_record :: "u32 \<Rightarrow> int \<times> i64 \<Rightarrow> disk_record" where
  "alloc_record kind a =
     \<lparr>dr_kind = kind, dr_type = word_of_int (fst a), dr_target = snd a, dr_offset = 0, dr_length = 0,
      dr_bytes = of_nat (align_cacheline 32), dr_check = 0, dr_data = []\<rparr>"

definition frame_records :: "txn \<Rightarrow> disk_record list" where
  "frame_records tx =
     concat (map (\<lambda>r. case record_target r of Inl _ \<Rightarrow> [] | Inr target \<Rightarrow> [write_record r target])
       (filter journaled (tx_records tx))) @
     map (alloc_record ORCHFS_JOURNAL_ALLOCATE) (tx_allocations tx) @
     map (alloc_record ORCHFS_JOURNAL_FREE) (tx_deallocations tx)"

definition seal_frame :: "u64 \<Rightarrow> nat \<Rightarrow> u8 list \<Rightarrow> u8 list" where
  "seal_frame txid record_count payload =
     (let frame_bytes = of_nat (128 + length payload);
          header = frame_header txid frame_bytes (of_nat record_count) (checksum payload)
            (checksum (frame_header txid frame_bytes (of_nat record_count) (checksum payload) 0))
      in header @ payload @ frame_commit txid frame_bytes (checksum (header @ payload)))"

definition build_frame :: "txn \<Rightarrow> u64 \<Rightarrow> errno + u8 list" where
  "build_frame tx txid =
     (case size_records (tx_records tx) (0, 0) of
        Inl err \<Rightarrow> Inl err
      | Inr acc \<Rightarrow>
          (case size_allocations (tx_allocations tx @ tx_deallocations tx) acc of
             Inl err \<Rightarrow> Inl err
           | Inr (payload_bytes, record_count) \<Rightarrow>
               if ORCHFS_JOURNAL_BYTES - 128 < payload_bytes then Inl E2BIG
               else Inr (seal_frame txid record_count (concat (map encode_record (frame_records tx))))))"

section \<open>Validating and applying a frame\<close>

definition rd32 :: "u8 list \<Rightarrow> nat \<Rightarrow> u32" where "rd32 bs off = of_le (take 4 (drop off bs))"
definition rd64 :: "u8 list \<Rightarrow> nat \<Rightarrow> u64" where "rd64 bs off = of_le (take 8 (drop off bs))"

definition valid_record :: "u8 list \<Rightarrow> bool" where
  "valid_record p \<longleftrightarrow>
     (let kind = rd32 p 0; target = rd64 p 8; len = unat (rd32 p 20) in
      if kind = ORCHFS_JOURNAL_WRITE
      then \<not> neg64 target \<and> rd32 p 16 = 0 \<and> target \<le> PMEM_LEN \<and> of_nat len \<le> PMEM_LEN - target \<and>
           rd32 p 28 = checksum (take len (drop 32 p))
      else if kind = ORCHFS_JOURNAL_ALLOCATE \<or> kind = ORCHFS_JOURNAL_FREE
      then len = 0 \<and> valid_extent_block (sint (rd32 p 4)) target
      else False)"

fun validate_records :: "nat \<Rightarrow> u8 list \<Rightarrow> errno" where
  "validate_records 0 p = (if p = [] then 0 else EINVAL)"
| "validate_records (Suc n) p =
     (if length p < 32 then EINVAL
      else let expected = align_cacheline (32 + unat (rd32 p 20)) in
           if unat (rd32 p 24) \<noteq> expected \<or> length p < expected then EINVAL
           else if \<not> valid_record p then EINVAL
           else validate_records n (drop expected p))"

definition validate_frame :: "u8 list \<Rightarrow> errno" where
  "validate_frame frame =
     (let frame_bytes = length frame in
      if frame_bytes < 128 \<or> frame_bytes mod 64 \<noteq> 0 then EINVAL
      else if rd64 frame 0 \<noteq> ORCHFS_JOURNAL_MAGIC \<or> rd32 frame 8 \<noteq> ORCHFS_JOURNAL_VERSION \<or> rd32 frame 12 \<noteq> 64 \<or>
              rd64 frame 24 \<noteq> of_nat frame_bytes then EINVAL
      else if rd32 frame 40 \<noteq> checksum (take 40 frame @ [0, 0, 0, 0] @ take 20 (drop 44 frame)) then EINVAL
      else let commit = drop (frame_bytes - 64) frame in
      if rd64 commit 0 \<noteq> ORCHFS_JOURNAL_COMMIT_MAGIC \<or> rd64 commit 8 \<noteq> rd64 frame 16 \<or>
         rd64 commit 16 \<noteq> of_nat frame_bytes \<or> rd32 commit 24 \<noteq> checksum (take (frame_bytes - 64) frame) then EINVAL
      else let payload = take (frame_bytes - 128) (drop 64 frame) in
      if rd32 frame 36 \<noteq> checksum payload then EINVAL
      else validate_records (unat (rd32 frame 32)) payload)"

definition apply_record :: "bool \<Rightarrow> u8 list \<Rightarrow> bmp_arr \<Rightarrow> (nat \<Rightarrow> u8) \<Rightarrow> bmp_arr \<times> (nat \<Rightarrow> u8) \<times> errno" where
  "apply_record recovering p arr media =
     (let kind = rd32 p 0; type = sint (rd32 p 4); target = rd64 p 8;
          allocated = (if kind = ORCHFS_JOURNAL_ALLOCATE then 1 else 0)
      in if kind = ORCHFS_JOURNAL_WRITE
         then (arr, nvm_put media (unat target) (take (unat (rd32 p 20)) (drop 32 p)), 0)
         else if recovering then orchfs_bitmap_replay_change arr type target allocated media
         else (arr, orchfs_bitmap_persist_change arr type target allocated media))"

fun apply_records :: "bool \<Rightarrow> nat \<Rightarrow> u8 list \<Rightarrow> bmp_arr \<Rightarrow> (nat \<Rightarrow> u8) \<Rightarrow> bmp_arr \<times> (nat \<Rightarrow> u8) \<times> errno" where
  "apply_records recovering 0 p arr media = (arr, media, 0)"
| "apply_records recovering (Suc n) p arr media =
     (case apply_record recovering p arr media of
        (arr, media, err) \<Rightarrow>
          if err \<noteq> 0 then (arr, media, err)
          else apply_records recovering n (drop (unat (rd32 p 24)) p) arr media)"

definition apply_frame :: "bool \<Rightarrow> u8 list \<Rightarrow> bmp_arr \<Rightarrow> (nat \<Rightarrow> u8) \<Rightarrow> bmp_arr \<times> (nat \<Rightarrow> u8) \<times> errno" where
  "apply_frame recovering frame arr media =
     apply_records recovering (unat (rd32 frame 32)) (drop 64 frame) arr media"

section \<open>Reading back what was encoded\<close>

lemma align_cacheline_props: "n \<le> align_cacheline n" "align_cacheline n mod 64 = 0" "align_cacheline n < n + 64"
  by (simp_all add: align_cacheline_def)

text \<open>A record whose length fields describe its data.\<close>

definition wf_record :: "disk_record \<Rightarrow> bool" where
  "wf_record r \<longleftrightarrow> unat (dr_length r) = length (dr_data r) \<and> unat (dr_bytes r) = align_cacheline (32 + length (dr_data r))"

lemma encode_length: "wf_record r \<Longrightarrow> length (encode_record r) = unat (dr_bytes r)"
  using align_cacheline_props(1) [of "32 + length (dr_data r)"] by (simp add: wf_record_def encode_record_def)

lemma encode_fields:
  "rd32 (encode_record r @ rest) 0 = dr_kind r" "rd32 (encode_record r @ rest) 4 = dr_type r"
  "rd64 (encode_record r @ rest) 8 = dr_target r" "rd32 (encode_record r @ rest) 16 = dr_offset r"
  "rd32 (encode_record r @ rest) 20 = dr_length r" "rd32 (encode_record r @ rest) 24 = dr_bytes r"
  "rd32 (encode_record r @ rest) 28 = dr_check r"
  by (simp_all add: rd32_def rd64_def encode_record_def)

lemma encode_data: "wf_record r \<Longrightarrow> take (unat (dr_length r)) (drop 32 (encode_record r @ rest)) = dr_data r"
  by (simp add: wf_record_def encode_record_def)

lemma header_fields:
  assumes "h = frame_header txid fb n pc hc"
  shows "rd64 (h @ rest) 0 = ORCHFS_JOURNAL_MAGIC" "rd32 (h @ rest) 8 = ORCHFS_JOURNAL_VERSION" "rd32 (h @ rest) 12 = 64"
    "rd64 (h @ rest) 16 = txid" "rd64 (h @ rest) 24 = fb" "rd32 (h @ rest) 32 = n" "rd32 (h @ rest) 36 = pc"
    "rd32 (h @ rest) 40 = hc"
    "take 40 (h @ rest) @ [0, 0, 0, 0] @ take 20 (drop 44 (h @ rest)) = frame_header txid fb n pc 0"
proof -
  have z: "le32 0 = [0, 0, 0, 0]" by (simp add: le32_def upt_rec)
  show "take 40 (h @ rest) @ [0, 0, 0, 0] @ take 20 (drop 44 (h @ rest)) = frame_header txid fb n pc 0"
    by (simp add: assms frame_header_def z)
qed (simp_all add: assms rd32_def rd64_def frame_header_def)

lemma header_length: "length (frame_header txid fb n pc hc) = 64"
  by (simp add: frame_header_def)

lemma commit_fields:
  assumes "c = frame_commit txid fb fc"
  shows "rd64 c 0 = ORCHFS_JOURNAL_COMMIT_MAGIC" "rd64 c 8 = txid" "rd64 c 16 = fb" "rd32 c 24 = fc" "length c = 64"
  by (simp_all add: assms rd32_def rd64_def frame_commit_def)

lemma seal_length [simp]: "length (seal_frame txid n payload) = 128 + length payload"
  by (simp add: seal_frame_def Let_def header_length commit_fields(5))

lemma validate_seal:
  assumes "length payload mod 64 = 0" "128 + length payload < 2 ^ 64" "n < 2 ^ 32"
  shows "validate_frame (seal_frame txid n payload) = validate_records n payload"
proof -
  define fb :: u64 where "fb = of_nat (128 + length payload)"
  define h where "h = frame_header txid fb (of_nat n) (checksum payload)
    (checksum (frame_header txid fb (of_nat n) (checksum payload) 0))"
  define c where "c = frame_commit txid fb (checksum (h @ payload))"
  have f: "seal_frame txid n payload = h @ payload @ c" by (simp add: seal_frame_def fb_def h_def c_def Let_def)
  note hf = header_fields [OF h_def, of "payload @ c"]
  note cf = commit_fields [OF c_def]
  have hl: "length h = 64" by (simp add: h_def header_length)
  have n: "unat (of_nat n :: u32) = n" using assms(3) by (simp add: unat_of_nat take_bit_nat_eq_self)
  have d: "drop (128 + length payload - 64) (h @ payload @ c) = c" using hl cf(5) by simp
  have t: "take (128 + length payload - 64) (h @ payload @ c) = h @ payload" using hl cf(5) by simp
  have p: "take (128 + length payload - 128) (drop 64 (h @ payload @ c)) = payload" using hl cf(5) by simp
  have l: "length (h @ payload @ c) = 128 + length payload" using hl cf(5) by simp
  have m: "(128 + length payload) mod 64 = 0" using assms(1) by presburger
  show ?thesis
    unfolding f validate_frame_def Let_def l d t p hf cf(1-4)
    using m n by (simp add: fb_def)
qed

text \<open>Checks of the decoder on an encoded record.\<close>

definition ok_record :: "disk_record \<Rightarrow> bool" where
  "ok_record r \<longleftrightarrow>
     (if dr_kind r = ORCHFS_JOURNAL_WRITE
      then \<not> neg64 (dr_target r) \<and> dr_offset r = 0 \<and> dr_target r \<le> PMEM_LEN \<and>
           of_nat (length (dr_data r)) \<le> PMEM_LEN - dr_target r \<and> dr_check r = checksum (dr_data r)
      else (dr_kind r = ORCHFS_JOURNAL_ALLOCATE \<or> dr_kind r = ORCHFS_JOURNAL_FREE) \<and> dr_data r = [] \<and>
           valid_extent_block (sint (dr_type r)) (dr_target r))"

lemma valid_encoded: "wf_record r \<Longrightarrow> valid_record (encode_record r @ rest) = ok_record r"
  using encode_data [of r rest]
  by (auto simp: valid_record_def encode_fields ok_record_def Let_def wf_record_def)

lemma validate_encoded:
  "\<forall>r \<in> set recs. wf_record r \<and> ok_record r \<Longrightarrow> validate_records (length recs) (concat (map encode_record recs)) = 0"
proof (induction recs)
  case (Cons r recs)
  have l: "length (encode_record r) = align_cacheline (32 + unat (dr_length r))"
    using Cons.prems encode_length [of r] by (simp add: wf_record_def)
  then have "32 \<le> length (encode_record r)" using align_cacheline_props(1) [of "32 + unat (dr_length r)"] by simp
  then show ?case
    using Cons l valid_encoded [of r "concat (map encode_record recs)"]
    by (simp add: Let_def encode_fields wf_record_def)
qed simp

text \<open>The effect of one record.\<close>

definition apply_disk :: "bool \<Rightarrow> disk_record \<Rightarrow> bmp_arr \<Rightarrow> (nat \<Rightarrow> u8) \<Rightarrow> bmp_arr \<times> (nat \<Rightarrow> u8) \<times> errno" where
  "apply_disk recovering r arr media =
     (if dr_kind r = ORCHFS_JOURNAL_WRITE then (arr, nvm_put media (unat (dr_target r)) (dr_data r), 0)
      else if recovering
      then orchfs_bitmap_replay_change arr (sint (dr_type r)) (dr_target r)
             (if dr_kind r = ORCHFS_JOURNAL_ALLOCATE then 1 else 0) media
      else (arr, orchfs_bitmap_persist_change arr (sint (dr_type r)) (dr_target r)
             (if dr_kind r = ORCHFS_JOURNAL_ALLOCATE then 1 else 0) media))"

fun apply_all :: "bool \<Rightarrow> disk_record list \<Rightarrow> bmp_arr \<Rightarrow> (nat \<Rightarrow> u8) \<Rightarrow> bmp_arr \<times> (nat \<Rightarrow> u8) \<times> errno" where
  "apply_all recovering [] arr media = (arr, media, 0)"
| "apply_all recovering (r # rs) arr media =
     (case apply_disk recovering r arr media of
        (arr, media, err) \<Rightarrow> if err \<noteq> 0 then (arr, media, err) else apply_all recovering rs arr media)"

lemma apply_encoded:
  "\<forall>r \<in> set recs. wf_record r \<Longrightarrow>
    apply_records recovering (length recs) (concat (map encode_record recs) @ rest) arr media = apply_all recovering recs arr media"
proof (induction recs arbitrary: arr media)
  case (Cons r recs)
  have e: "apply_record recovering (encode_record r @ xs) arr media = apply_disk recovering r arr media" for xs
    using encode_data [of r xs] Cons.prems by (simp add: apply_record_def apply_disk_def encode_fields Let_def)
  have d: "drop (unat (rd32 (encode_record r @ xs) 24)) (encode_record r @ xs) = xs" for xs
    using encode_length [of r] Cons.prems by (simp add: encode_fields)
  show ?case using Cons by (simp add: e d del: drop_append split: prod.splits)
qed simp

lemma apply_seal:
  assumes "\<forall>r \<in> set recs. wf_record r" "length recs < 2 ^ 32"
  shows "apply_frame recovering (seal_frame txid (length recs) (concat (map encode_record recs))) arr media =
    apply_all recovering recs arr media"
proof -
  have n: "unat (of_nat (length recs) :: u32) = length recs" using assms(2) by (simp add: unat_of_nat take_bit_nat_eq_self)
  show ?thesis
    using apply_encoded [OF assms(1)]
    by (simp add: apply_frame_def seal_frame_def Let_def header_fields [OF refl] header_length n)
qed

section \<open>The frames the file system builds\<close>

text \<open>The records that \<open>add_record\<close> collects hold as many bytes as they announce.\<close>

definition tx_wf :: "txn \<Rightarrow> bool" where
  "tx_wf tx \<longleftrightarrow> (\<forall>r \<in> set (tx_records tx). length (tr_data r) = nat (tr_length r))"

lemma tx_add_record_wf:
  assumes "tx_wf tx" "len \<noteq> 0 \<longrightarrow> d \<noteq> None"
  shows "tx_wf (tx_add_record tx k b t d off len)"
proof (cases d)
  case None
  then show ?thesis using assms by (auto simp: tx_wf_def tx_add_record_def)
next
  case (Some f)
  have "length (map f [nat off..<nat off + nat len]) = nat len" by simp
  then show ?thesis using assms(1) Some by (auto simp: tx_wf_def tx_add_record_def)
qed

lemma add_frame_size_ok:
  assumes "add_frame_size (p, c) n = Inr (p', c')"
  shows "p' = p + align_cacheline (32 + n)" "c' = c + 1" "align_cacheline (32 + n) \<le> ORCHFS_JOURNAL_BYTES"
    "p' \<le> ORCHFS_JOURNAL_BYTES" "c' \<le> UINT32_MAX \<or> UINT32_MAX < c"
  using assms by (auto simp: add_frame_size_def Let_def split: if_splits)

text \<open>Bounds of metadata targets.\<close>

lemma metadata_location_ok:
  assumes "metadata_location t b off len = Inr target"
  shows "0 \<le> off" "0 \<le> len" "unat OFFSET_INODE \<le> unat target" "unat target + nat len \<le> unat OFFSET_BUFMETA"
    "\<exists>base unit num. metadata_area t = Some (base, unit, num) \<and> unat target = unat (base + b * unit) + nat off"
proof -
  from assms obtain base unit num where a: "metadata_area t = Some (base, unit, num)" "b < num" "\<not> neg64 b"
      "0 \<le> off" "0 \<le> len" "off + len \<le> uint unit" "target = base + b * unit + word_of_int off"
    by (auto simp: metadata_location_def split: if_splits option.splits)
  show "0 \<le> off" "0 \<le> len" by (rule a)+
  have area: "(base, unit, num) \<in> {(OFFSET_INODE, ORCH_INODE_SIZE, MAX_INODE_NUM), (OFFSET_INDEX, ORCH_IDX_SIZE, MAX_INDEX_NUM),
      (OFFSET_VIRND, ORCH_VIRND_SIZE, MAX_VIRND_NUM)}"
    using a(1) by (auto simp: metadata_area_def split: if_splits)
  have lay: "unat OFFSET_INODE \<le> unat base" "unat base + unat num * unat unit \<le> unat OFFSET_BUFMETA" "unat unit \<le> 1024"
    using area by (auto simp: layout_values)
  have "Suc (unat b) * unat unit \<le> unat num * unat unit" using a(2) by (intro mult_le_mono1) (simp add: word_less_nat_alt)
  then have bu: "unat b * unat unit + unat unit \<le> unat num * unat unit" by simp
  have B: "unat OFFSET_BUFMETA < 18446744073709551616" by (simp add: layout_values)
  have add: "unat x + unat y < 18446744073709551616 \<Longrightarrow> unat (x + y) = unat x + unat y"
    "unat x * unat y < 18446744073709551616 \<Longrightarrow> unat (x * y) = unat x * unat y" for x y :: u64
    by (simp_all add: unat_add64 unat_mult64)
  have o: "unat (word_of_int off :: u64) = nat off" "nat off + nat len \<le> unat unit"
  proof -
    have "off + len \<le> int (unat unit)" using a(6) by simp
    then show "nat off + nat len \<le> unat unit" using a(4,5) by linarith
    then have "nat off < 2 ^ 64" using lay(3) by simp
    then show "unat (word_of_int off :: u64) = nat off" using a(4) unat_of_nat64 [of "nat off"] by simp
  qed
  have m: "unat (b * unit) = unat b * unat unit" using bu lay B by (intro add) linarith
  have s: "unat (base + b * unit) = unat base + unat b * unat unit"
    using bu lay B m by (subst add) linarith+
  have "unat target = unat base + unat b * unat unit + nat off"
    unfolding a(7) using bu lay B s o by (subst add) linarith+
  then show "unat OFFSET_INODE \<le> unat target" "unat target + nat len \<le> unat OFFSET_BUFMETA"
    "\<exists>base unit num. metadata_area t = Some (base, unit, num) \<and> unat target = unat (base + b * unit) + nat off"
    using lay bu o s a(1) by simp_all
qed

lemma record_target_ok:
  assumes "record_target r = Inr target"
  shows "0 \<le> tr_length r" "unat target + nat (tr_length r) \<le> unat PMEM_LEN"
proof -
  have "0 \<le> tr_length r \<and> unat target + nat (tr_length r) \<le> unat PMEM_LEN"
  proof (cases "tr_kind r = RECORD_PMEM")
    case True
    then have a: "target = tr_block r" "0 \<le> tr_length r" "\<not> PMEM_LEN < target" "tr_length r \<le> uint (PMEM_LEN - target)"
      using assms by (auto simp: record_target_def split: if_splits)
    have "uint (PMEM_LEN - target) = int (unat PMEM_LEN - unat target)"
      using a(3) unat_sub64 [of target PMEM_LEN] by (metis not_less uint_nat)
    then have "tr_length r \<le> int (unat PMEM_LEN - unat target)" using a(4) by (simp only:)
    then have "nat (tr_length r) \<le> unat PMEM_LEN - unat target" by (simp only: nat_le_iff)
    moreover have "unat target \<le> unat PMEM_LEN" using a(3) by (simp only: word_less_nat_alt not_less)
    ultimately show ?thesis using a(2) by linarith
  next
    case False
    then have "metadata_location (tr_type r) (tr_block r) (tr_offset r) (tr_length r) = Inr target"
      using assms by (simp add: record_target_def)
    note m = metadata_location_ok [OF this]
    have "unat OFFSET_BUFMETA \<le> unat PMEM_LEN" by (simp add: layout_values)
    with m show ?thesis by linarith
  qed
  then show "0 \<le> tr_length r" "unat target + nat (tr_length r) \<le> unat PMEM_LEN" by blast+
qed

text \<open>The two passes agree: what was measured is what is written.\<close>

definition payload_of :: "disk_record list \<Rightarrow> u8 list" where
  "payload_of recs = concat (map encode_record recs)"

definition good_records :: "disk_record list \<Rightarrow> bool" where
  "good_records recs \<longleftrightarrow> (\<forall>r \<in> set recs. wf_record r \<and> ok_record r)"

definition write_records :: "transaction_record list \<Rightarrow> disk_record list" where
  "write_records rs = concat (map (\<lambda>r. case record_target r of Inl _ \<Rightarrow> [] | Inr target \<Rightarrow> [write_record r target])
     (filter journaled rs))"

lemma write_record_good:
  assumes "record_target r = Inr target" "length (tr_data r) = nat (tr_length r)"
    "align_cacheline (32 + nat (tr_length r)) \<le> ORCHFS_JOURNAL_BYTES"
  shows "wf_record (write_record r target)" "ok_record (write_record r target)"
    "length (encode_record (write_record r target)) = align_cacheline (32 + nat (tr_length r))"
proof -
  note t = record_target_ok [OF assms(1)]
  have J: "align_cacheline (32 + nat (tr_length r)) \<le> 67108864" using assms(3) by (simp add: ORCHFS_JOURNAL_BYTES_def)
  have l: "nat (tr_length r) \<le> 67108864" using J align_cacheline_props(1) [of "32 + nat (tr_length r)"] by linarith
  have u: "unat (of_nat n :: u32) = n" if "n \<le> 67108864" for n using that by (simp add: unat_of_nat take_bit_nat_eq_self)
  have wl: "unat (word_of_int (tr_length r) :: u32) = nat (tr_length r)" using u [OF l] t(1) by simp
  show wf: "wf_record (write_record r target)"
    using wl u [OF J] assms(2) by (simp add: wf_record_def write_record_def)
  have p: "unat PMEM_LEN < 2 ^ 63" by (simp add: layout_values)
  have "of_nat (nat (tr_length r)) \<le> PMEM_LEN - target" "target \<le> PMEM_LEN" "\<not> neg64 target"
  proof -
    show le: "target \<le> PMEM_LEN" using t(2) by (simp add: word_le_nat_alt)
    have "unat (of_nat (nat (tr_length r)) :: u64) = nat (tr_length r)" using l by (intro unat_of_nat64) simp
    then show "of_nat (nat (tr_length r)) \<le> PMEM_LEN - target" using t(2) le by (simp add: word_le_nat_alt unat_sub64)
    show "\<not> neg64 target" using t(2) p by (simp add: neg64_iff)
  qed
  then show "ok_record (write_record r target)" using assms(2) by (simp add: ok_record_def write_record_def)
  show "length (encode_record (write_record r target)) = align_cacheline (32 + nat (tr_length r))"
    using encode_length [OF wf] u [OF J] by (simp add: write_record_def)
qed

lemma size_records_spec:
  assumes "size_records rs (p, c) = Inr (p', c')" "\<forall>r \<in> set rs. length (tr_data r) = nat (tr_length r)" "c \<le> UINT32_MAX"
  shows "good_records (write_records rs) \<and> p' = p + length (payload_of (write_records rs)) \<and>
    c' = c + length (write_records rs) \<and> c' \<le> UINT32_MAX"
  using assms
proof (induction rs arbitrary: p c)
  case Nil
  then show ?case by (simp add: good_records_def write_records_def payload_of_def)
next
  case (Cons r rs)
  show ?case
  proof (cases "journaled r")
    case False
    then show ?thesis using Cons by (simp add: write_records_def)
  next
    case True
    with Cons.prems(1) obtain target p1 c1 where t: "record_target r = Inr target"
      "add_frame_size (p, c) (nat (tr_length r)) = Inr (p1, c1)" "size_records rs (p1, c1) = Inr (p', c')"
      by (auto split: sum.splits)
    note a = add_frame_size_ok [OF t(2)]
    have w: "write_records (r # rs) = write_record r target # write_records rs" using True t(1) by (simp add: write_records_def)
    have c1: "c1 \<le> UINT32_MAX" using a(5) Cons.prems(3) by linarith
    note g = write_record_good [OF t(1) _ a(3)]
    show ?thesis
      using Cons.IH [OF t(3) _ c1] Cons.prems(2) g a(1,2) by (auto simp: w good_records_def payload_of_def)
  qed
qed

lemma alloc_record_good:
  assumes "valid_extent_block t b" "k = ORCHFS_JOURNAL_ALLOCATE \<or> k = ORCHFS_JOURNAL_FREE"
  shows "wf_record (alloc_record k (t, b))" "ok_record (alloc_record k (t, b))"
    "length (encode_record (alloc_record k (t, b))) = align_cacheline 32"
proof -
  have a: "align_cacheline 32 = 64" by (simp add: align_cacheline_def)
  show wf: "wf_record (alloc_record k (t, b))" by (simp add: wf_record_def alloc_record_def a)
  have t: "t \<in> {1, 2, 3, 4, 5, 6}" using assms(1) by (auto simp: valid_extent_block_def split: if_splits)
  have "sint (word_of_int t :: u32) = t" using t by auto
  then show "ok_record (alloc_record k (t, b))" using assms by (auto simp: ok_record_def alloc_record_def)
  show "length (encode_record (alloc_record k (t, b))) = align_cacheline 32"
    using encode_length [OF wf] by (simp add: alloc_record_def a)
qed

lemma size_allocations_spec:
  assumes "size_allocations as (p, c) = Inr (p', c')" "c \<le> UINT32_MAX"
  shows "(\<forall>a \<in> set as. valid_extent_block (fst a) (snd a)) \<and> p' = p + 64 * length as \<and> c' = c + length as \<and> c' \<le> UINT32_MAX"
  using assms
proof (induction as arbitrary: p c)
  case (Cons a as)
  obtain t b where a: "a = (t, b)" by (cases a)
  with Cons.prems(1) obtain p1 c1 where t: "valid_extent_block t b"
    "add_frame_size (p, c) 0 = Inr (p1, c1)" "size_allocations as (p1, c1) = Inr (p', c')"
    by (auto split: sum.splits if_splits)
  note f = add_frame_size_ok [OF t(2)]
  have c1: "c1 \<le> UINT32_MAX" using f(5) Cons.prems(2) by linarith
  have "align_cacheline 32 = 64" by (simp add: align_cacheline_def)
  then show ?case using Cons.IH [OF t(3) c1] f t(1) a by auto
qed simp

text \<open>A frame that could be built.\<close>

lemma build_frame_ok:
  assumes "build_frame tx txid = Inr frame" "tx_wf tx"
  obtains recs where "recs = frame_records tx" "good_records recs" "length recs < 2 ^ 32"
    "frame = seal_frame txid (length recs) (payload_of recs)" "length (payload_of recs) mod 64 = 0"
    "length frame \<le> ORCHFS_JOURNAL_BYTES" "length frame mod 64 = 0"
    "validate_frame frame = 0"
proof -
  from assms(1) obtain p1 c1 p2 c2 where s: "size_records (tx_records tx) (0, 0) = Inr (p1, c1)"
      "size_allocations (tx_allocations tx @ tx_deallocations tx) (p1, c1) = Inr (p2, c2)" "p2 \<le> ORCHFS_JOURNAL_BYTES - 128"
      "frame = seal_frame txid c2 (payload_of (frame_records tx))"
    by (auto simp: build_frame_def payload_of_def split: sum.splits if_splits)
  note r = size_records_spec [OF s(1)]
  have rr: "good_records (write_records (tx_records tx))" "p1 = length (payload_of (write_records (tx_records tx)))"
      "c1 = length (write_records (tx_records tx))" "c1 \<le> UINT32_MAX"
    using r assms(2) by (simp_all add: tx_wf_def)
  note a = size_allocations_spec [OF s(2) rr(4)]
  define al where "al = map (alloc_record ORCHFS_JOURNAL_ALLOCATE) (tx_allocations tx) @
    map (alloc_record ORCHFS_JOURNAL_FREE) (tx_deallocations tx)"
  have fr: "frame_records tx = write_records (tx_records tx) @ al" by (simp add: frame_records_def write_records_def al_def)
  have ag: "wf_record x \<and> ok_record x \<and> length (encode_record x) = 64" if xin: "x \<in> set al" for x
  proof -
    obtain k q where q: "x = alloc_record k q" "q \<in> set (tx_allocations tx @ tx_deallocations tx)"
        "k = ORCHFS_JOURNAL_ALLOCATE \<or> k = ORCHFS_JOURNAL_FREE"
      using xin by (auto simp: al_def)
    have x: "x = alloc_record k (fst q, snd q)" "valid_extent_block (fst q) (snd q)" using a q(1,2) by auto
    have "align_cacheline 32 = 64" by (simp add: align_cacheline_def)
    then show ?thesis using alloc_record_good [OF x(2) q(3)] x(1) by simp
  qed
  then have len: "length (payload_of al) = 64 * length al"
    by (induction al) (simp_all add: payload_of_def)
  have good: "good_records (frame_records tx)" using rr(1) ag by (auto simp: fr good_records_def)
  have cnt: "c2 = length (frame_records tx)" "p2 = length (payload_of (frame_records tx))"
    using a rr(2,3) len by (simp_all add: fr al_def payload_of_def)
  have mod: "length (payload_of recs) mod 64 = 0" if "good_records recs" for recs
    using that
  proof (induction recs)
    case (Cons r recs)
    then have "length (encode_record r) mod 64 = 0"
      using encode_length [of r] align_cacheline_props(2) by (simp add: good_records_def wf_record_def)
    then show ?case using Cons by (simp add: payload_of_def good_records_def mod_add_eq [symmetric])
  qed (simp add: payload_of_def)
  have J: "length (payload_of (frame_records tx)) + 128 \<le> ORCHFS_JOURNAL_BYTES" "ORCHFS_JOURNAL_BYTES < 2 ^ 64"
    using s(3) cnt(2) by (simp_all add: ORCHFS_JOURNAL_BYTES_def)
  have c: "length (frame_records tx) < 2 ^ 32" using a cnt(1) by simp
  have v: "validate_frame frame = 0"
    unfolding s(4) cnt(1) using validate_seal [OF mod [OF good] _ c] J validate_encoded good
    by (simp add: payload_of_def good_records_def)
  show thesis
    by (rule that [OF refl good c _ mod [OF good] _ _ v]) (use s(4) cnt J mod [OF good] in \<open>simp_all add: mod_add_eq [symmetric]\<close>)
qed

end
