(* ===== verification/Journal.thy ===== *)
theory Journal
  imports Journal_Frame
begin

text \<open>
  The write-ahead log of LibFS (\<open>LibFS/lib_log.c\<close>): checkpoints in the superblock, recovery
  at mount, commit, group commit and abort.  A commit writes the frame without its commit
  record, then the commit record, then the home locations, then a checkpoint, and finally
  clears the frame header; every step ends with a store fence.
\<close>

section \<open>Checkpoints\<close>

abbreviation (input) ORCH_MAGIC_NUM :: u64 where "ORCH_MAGIC_NUM \<equiv> 0x37356217"

record disk_checkpoint =
  ck_generation :: u64
  ck_durable_txid :: u64
  ck_journal_tail :: u64
  ck_checksum :: u32
  ck_reserved :: u32

definition encode_checkpoint :: "disk_checkpoint \<Rightarrow> u8 list" where
  "encode_checkpoint c = le64 (ck_generation c) @ le64 (ck_durable_txid c) @ le64 (ck_journal_tail c) @
     le32 (ck_checksum c) @ le32 (ck_reserved c)"

definition get32 :: "(nat \<Rightarrow> u8) \<Rightarrow> nat \<Rightarrow> u32" where
  "get32 m off = of_le (nvm_get m off 4)"

definition sb_checkpoint :: "nat \<Rightarrow> nat" where "sb_checkpoint slot = 304 + 32 * slot"

definition read_checkpoint :: "(nat \<Rightarrow> u8) \<Rightarrow> nat \<Rightarrow> disk_checkpoint" where
  "read_checkpoint media slot =
     (let at = sb_checkpoint slot in
      \<lparr>ck_generation = get64 media at, ck_durable_txid = get64 media (at + 8), ck_journal_tail = get64 media (at + 16),
       ck_checksum = get32 media (at + 24), ck_reserved = get32 media (at + 28)\<rparr>)"

definition checkpoint_checksum :: "disk_checkpoint \<Rightarrow> u32" where
  "checkpoint_checksum c = checksum (encode_checkpoint (c\<lparr>ck_checksum := 0\<rparr>))"

definition valid_checkpoint :: "disk_checkpoint \<Rightarrow> bool" where
  "valid_checkpoint c \<longleftrightarrow> ck_generation c \<noteq> 0 \<and> unat (ck_journal_tail c) \<le> ORCHFS_JOURNAL_BYTES \<and>
     ck_checksum c = checkpoint_checksum c"

definition orchfs_log_validate_format :: "(nat \<Rightarrow> u8) \<Rightarrow> errno" where
  "orchfs_log_validate_format media =
     (if get64 media 8 \<noteq> ORCH_MAGIC_NUM \<or> get64 media 16 \<noteq> ORCH_MAGIC_NUM \<or> get64 media 24 \<noteq> ORCH_MAGIC_NUM then EINVAL
      else if get64 media 288 \<noteq> 2 \<or> get64 media 296 AND 1 = 0 then EOPNOTSUPP else 0)"

definition latest_checkpoint :: "(nat \<Rightarrow> u8) \<Rightarrow> errno + disk_checkpoint" where
  "latest_checkpoint media =
     (let c0 = read_checkpoint media 0; c1 = read_checkpoint media 1 in
      if \<not> valid_checkpoint c0 \<and> \<not> valid_checkpoint c1 then Inl EIO
      else if \<not> valid_checkpoint c1 \<or> valid_checkpoint c0 \<and> ck_generation c1 \<le> ck_generation c0
      then Inr c0 else Inr c1)"

text \<open>The checkpoint that \<open>write_checkpoint\<close> stores, and its place.\<close>

definition new_checkpoint :: "u64 \<Rightarrow> u64 \<Rightarrow> disk_checkpoint" where
  "new_checkpoint generation durable_txid =
     (let c = \<lparr>ck_generation = generation, ck_durable_txid = durable_txid, ck_journal_tail = 0, ck_checksum = 0, ck_reserved = 0\<rparr>
      in c\<lparr>ck_checksum := checkpoint_checksum c\<rparr>)"

definition checkpoint_slot :: "u64 \<Rightarrow> nat" where
  "checkpoint_slot generation = unat ((generation - 1) AND 1)"

definition write_checkpoint :: "libfs \<Rightarrow> u64 \<Rightarrow> libfs \<times> errno" where
  "write_checkpoint st durable_txid =
     (if checkpoint_generation st = - 1 then (st, EOVERFLOW)
      else let generation = checkpoint_generation st + 1
           in (st\<lparr>nvm := nvm_put (nvm st) (sb_checkpoint (checkpoint_slot generation))
                          (encode_checkpoint (new_checkpoint generation durable_txid)),
                  checkpoint_generation := generation\<rparr>, 0))"

definition log_at :: nat where "log_at = unat OFFSET_LOG"

definition clear_journal :: "libfs \<Rightarrow> libfs" where
  "clear_journal st = st\<lparr>nvm := nvm_put (nvm st) log_at (replicate 64 0)\<rparr>"

section \<open>Recovery\<close>

text \<open>The frame at a cursor: the header checks of the recovery loop and the validation.\<close>

definition scan_frame :: "(nat \<Rightarrow> u8) \<Rightarrow> nat \<Rightarrow> u8 list option" where
  "scan_frame media cursor =
     (if ORCHFS_JOURNAL_BYTES < cursor + 64 then None
      else let frame_bytes = unat (get64 media (log_at + cursor + 24)) in
           if get64 media (log_at + cursor) \<noteq> ORCHFS_JOURNAL_MAGIC \<or> frame_bytes < 128 \<or> frame_bytes mod 64 \<noteq> 0 \<or>
              ORCHFS_JOURNAL_BYTES - cursor < frame_bytes then None
           else let frame = nvm_get media (log_at + cursor) frame_bytes in
                if validate_frame frame \<noteq> 0 then None else Some frame)"

lemma scan_frame_length: "scan_frame media cursor = Some frame \<Longrightarrow> 128 \<le> length frame \<and> cursor + length frame \<le> ORCHFS_JOURNAL_BYTES"
  by (auto simp: scan_frame_def Let_def split: if_splits)

function recover_loop :: "bmp_arr \<Rightarrow> (nat \<Rightarrow> u8) \<Rightarrow> u64 \<Rightarrow> nat \<Rightarrow> bmp_arr \<times> (nat \<Rightarrow> u8) \<times> u64 \<times> errno" where
  "recover_loop arr media durable_txid cursor =
     (case scan_frame media cursor of
        None \<Rightarrow> (arr, media, durable_txid, 0)
      | Some frame \<Rightarrow>
          (case apply_frame True frame arr media of
             (arr, media, err) \<Rightarrow>
               if err \<noteq> 0 then (arr, media, durable_txid, err)
               else recover_loop arr media (if durable_txid < rd64 frame 16 then rd64 frame 16 else durable_txid)
                      (cursor + length frame)))"
  by auto
termination
  by (relation "measure (\<lambda>(arr, media, d, cursor). ORCHFS_JOURNAL_BYTES - cursor)")
    (auto dest: scan_frame_length)

declare recover_loop.simps [simp del]

definition orchfs_log_recover :: "libfs \<Rightarrow> libfs \<times> errno" where
  "orchfs_log_recover st =
     (let err = orchfs_log_validate_format (nvm st) in
      if err \<noteq> 0 then (st, err)
      else case latest_checkpoint (nvm st) of
             Inl err \<Rightarrow> (st, err)
           | Inr checkpoint \<Rightarrow>
               let st = st\<lparr>checkpoint_generation := ck_generation checkpoint\<rparr> in
               (case recover_loop (bmps st) (nvm st) (ck_durable_txid checkpoint) 0 of
                  (arr, media, durable_txid, err) \<Rightarrow>
                    let st = st\<lparr>bmps := arr, nvm := media\<rparr> in
                    if err \<noteq> 0 then (st, err)
                    else let st = st\<lparr>bmps := orchfs_bitmap_recompute_counts (bmps st)\<rparr> in
                         (case write_checkpoint st durable_txid of
                            (st, err) \<Rightarrow>
                              if err \<noteq> 0 then (st, err)
                              else let st = clear_journal st in
                                   if durable_txid = - 1 then (st, EOVERFLOW)
                                   else (st\<lparr>next_txid := durable_txid + 1, initialized := True\<rparr>, 0))))"

definition init_mem_log :: "libfs \<Rightarrow> libfs \<times> errno" where
  "init_mem_log st = (if initialized st then (st, 0) else orchfs_log_recover st)"

definition free_mem_log :: "libfs \<Rightarrow> libfs" where
  "free_mem_log st = st\<lparr>initialized := False\<rparr>"

definition orchfs_log_sync :: "libfs \<Rightarrow> errno" where
  "orchfs_log_sync st = (if \<not> initialized st then EIO else 0)"

section \<open>Commit and abort\<close>

definition commit_one :: "libfs \<Rightarrow> txn \<Rightarrow> libfs \<times> errno" where
  "commit_one st tx =
     (if \<not> initialized st then (st, EIO)
      else if orchfs_log_transaction_is_empty tx then (st, 0)
      else if next_txid st = 0 \<or> next_txid st = - 1 \<or> checkpoint_generation st = - 1 then (st, EOVERFLOW)
      else case build_frame tx (next_txid st) of
             Inl err \<Rightarrow> (st, err)
           | Inr frame \<Rightarrow>
               let body = length frame - 64;
                   st = st\<lparr>nvm := nvm_put (nvm st) log_at (take body frame)\<rparr>;
                   st = st\<lparr>nvm := nvm_put (nvm st) (log_at + body) (drop body frame)\<rparr>
               in case apply_frame False frame (bmps st) (nvm st) of
                    (arr, media, err) \<Rightarrow>
                      let st = st\<lparr>bmps := arr, nvm := media\<rparr> in
                      if err \<noteq> 0 then (st, err)
                      else (case write_checkpoint st (next_txid st) of
                              (st, err) \<Rightarrow>
                                if err \<noteq> 0 then (st, err)
                                else let st = clear_journal st in (st\<lparr>next_txid := next_txid st + 1\<rparr>, 0)))"

text \<open>Releasing what a transaction allocated, or what it deferred, in list order.\<close>

definition release_each :: "libfs \<Rightarrow> (int \<times> i64) list \<Rightarrow> libfs" where
  "release_each st as =
     fold (\<lambda>(type, block) st.
       if type = INODE_EXT then release_inode st block
       else if type = IDXND_EXT then release_index_node st block
       else if type = VIRND_EXT then release_virindex_node st block
       else if type = BUFMETA_EXT then release_buffer_metadata st block
       else if type = PAGE_EXT then release_nvm_page st block
       else if type = BLOCK_EXT then release_ssd_block st block else st) as st"

text \<open>Bytes of a metadata block replaced by the image on the media.\<close>

definition blk_put :: "blk \<Rightarrow> nat \<Rightarrow> u8 list \<Rightarrow> blk" where
  "blk_put b off bytes = (\<lambda>w. of_le (map (\<lambda>i. let k = 8 * w + i in
     if off \<le> k \<and> k < off + length bytes then bytes ! (k - off) else byte_at b k) [0..<8]))"

definition reload_record :: "transaction_record \<Rightarrow> libfs \<Rightarrow> libfs" where
  "reload_record r st =
     (if tr_kind r \<noteq> RECORD_CHANGE then st
      else case metadata_location (tr_type r) (tr_block r) (tr_offset r) (tr_length r) of
             Inl _ \<Rightarrow> st
           | Inr offset \<Rightarrow>
               let bytes = nvm_get (nvm st) (unat offset) (nat (tr_length r));
                   upd = (\<lambda>mem. mem(tr_block r := blk_put (mem (tr_block r)) (nat (tr_offset r)) bytes))
               in if tr_type r = INODE_OP then st\<lparr>inode_mem := upd (inode_mem st)\<rparr>
                  else if tr_type r = IDXND_OP then st\<lparr>idx_mem := upd (idx_mem st)\<rparr>
                  else if tr_type r = VIRND_OP then st\<lparr>vir_mem := upd (vir_mem st)\<rparr> else st)"

text \<open>Aborting a transaction; \<open>current\<close> tells whether it is the bound one.\<close>

definition orchfs_log_transaction_abort :: "libfs \<Rightarrow> bool \<Rightarrow> txn \<Rightarrow> libfs" where
  "orchfs_log_transaction_abort st current tx =
     (let st = (if current then st\<lparr>cur_tx := None\<rparr> else st);
          st = fold reload_record (tx_records tx) st
      in release_each st (tx_allocations tx))"

fun commit_each :: "libfs \<Rightarrow> txn list \<Rightarrow> libfs \<times> errno list" where
  "commit_each st [] = (st, [])"
| "commit_each st (tx # txs) =
     (let (st, err) = (if tx_error tx \<noteq> 0 then (st, tx_error tx) else commit_one st tx);
          st = (if err \<noteq> 0 then orchfs_log_transaction_abort st False tx
                else release_each st (tx_deallocations tx));
          (st, errs) = commit_each st txs
      in (st, err # errs))"

text \<open>Group commit; the transactions are not bound (the code refuses a bound one).\<close>

definition orchfs_log_transaction_commit_group :: "libfs \<Rightarrow> txn list \<Rightarrow> libfs \<times> errno list" where
  "orchfs_log_transaction_commit_group st txs = commit_each st txs"

definition orchfs_log_transaction_commit :: "libfs \<Rightarrow> txn \<Rightarrow> libfs \<times> errno" where
  "orchfs_log_transaction_commit st tx =
     (let (st, errs) = orchfs_log_transaction_commit_group st [tx] in (st, hd errs))"

end
