(* ===== verification/Journal_Crash.thy ===== *)
theory Journal_Crash
  imports Journal
begin

text \<open>
  Crash atomicity of the journal.  A crash may interrupt any step of a commit; a step that
  was interrupted has reached the media in part.  Whole cache lines of the frame are stored
  by non-temporal full-line stores and reach the media as a unit; home locations and the
  checkpoint may be torn at every byte.  Recovery then restores either the state before the
  transaction or the state after it, and always the latter once the commit record is on the
  media.
\<close>

section \<open>The effect of a record on one byte\<close>

definition rec_effect :: "disk_record \<Rightarrow> nat \<Rightarrow> u8 \<Rightarrow> u8" where
  "rec_effect r a v =
     (if dr_kind r = ORCHFS_JOURNAL_WRITE
      then if unat (dr_target r) \<le> a \<and> a < unat (dr_target r) + length (dr_data r)
           then dr_data r ! (a - unat (dr_target r)) else v
      else if a = unat (bmp_home (sint (dr_type r))) + unat (dr_target r) div 8
      then if dr_kind r = ORCHFS_JOURNAL_ALLOCATE then v OR bit_mask (dr_target r) else v AND NOT (bit_mask (dr_target r))
      else v)"

definition effects :: "disk_record list \<Rightarrow> (nat \<Rightarrow> u8) \<Rightarrow> (nat \<Rightarrow> u8)" where
  "effects recs media = (\<lambda>a. fold (\<lambda>r. rec_effect r a) recs (media a))"

lemma effects_Nil [simp]: "effects [] media = media"
  by (simp add: effects_def)

lemma effects_Cons: "effects (r # recs) media = effects recs (effects [r] media)"
  by (simp add: effects_def)

lemma extent_in_bitmap:
  assumes "laid_out arr" "valid_extent_block t b"
  shows "is_ext t" "bitmap_change_location arr t b = Inr (b div 8, bit_mask b)" "dev_start_addr (arr t) = bmp_home t"
    "unat (bmp_home t) + unat b div 8 < 104857600" "4096 \<le> unat (bmp_home t)"
proof -
  have t: "t = 1 \<or> t = 2 \<or> t = 3 \<or> t = 4 \<or> t = 5 \<or> t = 6"
    using assms(2) by (auto simp: valid_extent_block_def split: if_splits)
  then show "is_ext t" by auto
  have i: "t \<in> set bmp_ids" using t by (auto simp: bmp_ids_def)
  note v = laid_out_values [OF assms(1)]
  show d: "dev_start_addr (arr t) = bmp_home t" using assms(1) i by (simp add: laid_out_def)
  have b: "unat b < (if t = 1 then 2097152 else if t = 2 then 3145728 else if t = 3 then 8388608
      else if t = 4 then 25165824 else if t = 5 then 28311552 else 29687808)"
    using assms(2) t by (auto simp: valid_extent_block_def layout_values word_less_nat_alt split: if_splits)
  have "\<not> bmp_capacity (arr t) * 8 \<le> b" using b t v by (auto simp: word_le_nat_alt)
  moreover have "\<not> neg64 b" using assms(2) by (simp add: valid_extent_block_def)
  ultimately show "bitmap_change_location arr t b = Inr (b div 8, bit_mask b)" using t by (auto simp: bitmap_change_location_def)
  have "unat (bmp_home t) + unat b div 8 < 104857600 \<and> 4096 \<le> unat (bmp_home t)"
    using b t v by (auto simp: d [symmetric])
  then show "unat (bmp_home t) + unat b div 8 < 104857600" "4096 \<le> unat (bmp_home t)" by blast+
qed

lemma laid_out_cong:
  "laid_out arr \<Longrightarrow> \<forall>s. s \<noteq> t \<longrightarrow> arr' s = arr s \<Longrightarrow> same_geometry (arr t) (arr' t) \<Longrightarrow> laid_out arr'"
  unfolding laid_out_def same_geometry_def by metis

lemma apply_disk_effect:
  assumes lo: "laid_out arr" and ok: "ok_record r" and a: "apply_disk recovering r arr media = (arr', media', err)"
  shows "err = 0 \<and> laid_out arr' \<and> media' = effects [r] media"
proof (cases "dr_kind r = ORCHFS_JOURNAL_WRITE")
  case True
  then have "nvm_put media (unat (dr_target r)) (dr_data r) = effects [r] media"
    by (auto simp: effects_def rec_effect_def nvm_put_def)
  then show ?thesis using True a lo by (simp add: apply_disk_def)
next
  case False
  let ?t = "sint (dr_type r)" and ?b = "dr_target r"
  have v: "valid_extent_block ?t ?b" using ok False by (simp add: ok_record_def)
  note e = extent_in_bitmap [OF lo v]
  have addr: "unat (dev_start_addr (arr ?t) + ?b div 8) = unat (bmp_home ?t) + unat ?b div 8"
  proof -
    have "unat (bmp_home ?t) + unat (?b div 8) < 2 ^ 64" using e(4) unfolding byte_index by simp
    from unat_add64 [OF this] show ?thesis unfolding e(3) byte_index .
  qed
  have p: "orchfs_bitmap_persist_change arr2 ?t ?b (if dr_kind r = ORCHFS_JOURNAL_ALLOCATE then 1 else 0) media = (effects [r] media, 0)"
    if "bitmap_change_location arr2 ?t ?b = Inr (?b div 8, bit_mask ?b)" "dev_start_addr (arr2 ?t) = dev_start_addr (arr ?t)" for arr2
    using that False by (auto simp: orchfs_bitmap_persist_change_def addr Let_def nvm_put_single effects_def rec_effect_def fun_eq_iff)
  show ?thesis
  proof (cases recovering)
    case False
    then show ?thesis using a \<open>dr_kind r \<noteq> _\<close> p [OF e(2) refl] lo by (simp add: apply_disk_def)
  next
    case True
    obtain b' where b': "orchfs_bitmap_replay_change arr ?t ?b (if dr_kind r = ORCHFS_JOURNAL_ALLOCATE then 1 else 0) media =
        (arr(?t := b'), orchfs_bitmap_persist_change (arr(?t := b')) ?t ?b (if dr_kind r = ORCHFS_JOURNAL_ALLOCATE then 1 else 0) media)"
      "same_geometry (arr ?t) b'"
      by (rule that [of "(arr ?t)\<lparr>bmp_start_pt := (bmp_start_pt (arr ?t))(unat (?b div 8) :=
          if dr_kind r = ORCHFS_JOURNAL_ALLOCATE then bmp_start_pt (arr ?t) (unat (?b div 8)) OR bit_mask ?b
          else bmp_start_pt (arr ?t) (unat (?b div 8)) AND NOT (bit_mask ?b))\<rparr>"])
        (auto simp: orchfs_bitmap_replay_change_def e(2) Let_def same_geometry_def)
    have lo': "laid_out (arr(?t := b'))" using laid_out_cong [OF lo, of ?t "arr(?t := b')"] b'(2) by simp
    have "dev_start_addr b' = dev_start_addr (arr ?t)" using b'(2) by (simp add: same_geometry_def)
    then show ?thesis
      using a \<open>dr_kind r \<noteq> _\<close> True p [OF extent_in_bitmap(2) [OF lo' v]] b'(1) lo' by (simp add: apply_disk_def)
  qed
qed

lemma apply_all_effects:
  assumes "laid_out arr" "good_records recs" "apply_all recovering recs arr media = (arr', media', err)"
  shows "err = 0 \<and> laid_out arr' \<and> media' = effects recs media"
  using assms
proof (induction recs arbitrary: arr media)
  case (Cons r recs)
  obtain arr1 media1 err1 where a: "apply_disk recovering r arr media = (arr1, media1, err1)" by (metis prod_cases3)
  have "err1 = 0 \<and> laid_out arr1 \<and> media1 = effects [r] media"
    using apply_disk_effect [OF Cons.prems(1) _ a] Cons.prems(2) by (simp add: good_records_def)
  moreover from this Cons.prems(3) a have "apply_all recovering recs arr1 media1 = (arr', media', err)" by simp
  ultimately show ?case using Cons.IH [of arr1 media1] Cons.prems(2) effects_Cons [of r recs media] by (simp add: good_records_def)
qed simp

section \<open>Replaying twice is replaying once\<close>

text \<open>Every record forces some bits of a byte and leaves the others alone.\<close>

definition forces :: "(u8 \<Rightarrow> u8) \<Rightarrow> nat \<Rightarrow> bool" where
  "forces f i \<longleftrightarrow> (\<exists>c. \<forall>v. bit (f v) i = c)"

definition keeps :: "(u8 \<Rightarrow> u8) \<Rightarrow> nat \<Rightarrow> bool" where
  "keeps f i \<longleftrightarrow> (\<forall>v. bit (f v) i = bit v i)"

lemma bits_or: "forces (\<lambda>v. v OR m) i \<or> keeps (\<lambda>v. v OR m) i"
  by (cases "bit m i") (auto simp: forces_def keeps_def bit_or_iff)

lemma bits_and_not: "forces (\<lambda>v. v AND NOT m) i \<or> keeps (\<lambda>v. v AND NOT m) i"
proof (cases "bit m i")
  case False
  have "bit (v AND NOT m) i = bit v i" for v using False bit_imp_le_length [of v i] by (auto simp: bit_and_iff bit_not_iff)
  then show ?thesis by (simp add: keeps_def)
qed (auto simp: forces_def bit_and_iff bit_not_iff)

lemma bits_const: "forces (\<lambda>v. c) i" "keeps (\<lambda>v. v) i"
  by (auto simp: forces_def keeps_def)

lemma bits_if:
  "forces f i \<or> keeps f i \<Longrightarrow> forces g i \<or> keeps g i \<Longrightarrow>
    forces (\<lambda>v. if P then f v else g v) i \<or> keeps (\<lambda>v. if P then f v else g v) i"
  by (cases P) simp_all

lemma rec_effect_bits: "forces (rec_effect r a) i \<or> keeps (rec_effect r a) i"
  unfolding rec_effect_def [abs_def]
  by (intro bits_if bits_or bits_and_not disjI1 [OF bits_const(1)] disjI2 [OF bits_const(2)])

lemma fold_bits:
  assumes "\<forall>f \<in> set fs. forces f i \<or> keeps f i"
  shows "forces (fold (\<lambda>f. f) fs) i \<or> (\<forall>f \<in> set fs. keeps f i)"
  using assms
proof (induction fs rule: rev_induct)
  case (snoc f fs)
  then show ?case by (auto simp: forces_def keeps_def)
qed simp

lemma fold_keeps: "\<forall>f \<in> set fs. keeps f i \<Longrightarrow> keeps (fold (\<lambda>f. f) fs) i"
  by (induction fs) (auto simp: keeps_def)

lemma replay_prefix:
  "fold (\<lambda>r. rec_effect r a) recs (fold (\<lambda>r. rec_effect r a) (take k recs) v) = fold (\<lambda>r. rec_effect r a) recs v"
proof (rule bit_word_eqI)
  fix i
  let ?fs = "\<lambda>rs. map (\<lambda>r. rec_effect r a) rs"
  have fold: "fold (\<lambda>r. rec_effect r a) rs = fold (\<lambda>f. f) (?fs rs)" for rs by (simp add: fold_map comp_def)
  have all: "\<forall>f \<in> set (?fs recs). forces f i \<or> keeps f i" by (auto simp: rec_effect_bits)
  show "bit (fold (\<lambda>r. rec_effect r a) recs (fold (\<lambda>r. rec_effect r a) (take k recs) v)) i =
      bit (fold (\<lambda>r. rec_effect r a) recs v) i"
  proof (cases "forces (fold (\<lambda>f. f) (?fs recs)) i")
    case True
    then obtain c where "\<forall>v. bit (fold (\<lambda>f. f) (?fs recs) v) i = c" by (auto simp: forces_def)
    then show ?thesis unfolding fold by simp
  next
    case False
    then have k: "\<forall>f \<in> set (?fs recs). keeps f i" using fold_bits [OF all] by blast
    then have "\<forall>f \<in> set (?fs (take k recs)). keeps f i" by (auto dest: in_set_takeD)
    then have "keeps (fold (\<lambda>f. f) (?fs (take k recs))) i" "keeps (fold (\<lambda>f. f) (?fs recs)) i"
      using fold_keeps k by blast+
    then show ?thesis unfolding fold keeps_def by simp
  qed
qed

text \<open>Home locations torn at every byte: each byte has seen some prefix of the records.\<close>

definition torn_home :: "bmp_arr \<Rightarrow> disk_record list \<Rightarrow> (nat \<Rightarrow> u8) \<Rightarrow> (nat \<Rightarrow> u8) \<Rightarrow> bool" where
  "torn_home arr recs m m' \<longleftrightarrow> (\<exists>p. \<forall>a. m' a = fst (snd (apply_all False (take (p a) recs) arr m)) a)"

lemma torn_home_effects:
  assumes "torn_home arr recs m m'" "laid_out arr" "good_records recs"
  obtains p where "\<And>a. m' a = effects (take (p a) recs) m a"
proof -
  have "fst (snd (apply_all False (take k recs) arr m)) = effects (take k recs) m" for k
  proof -
    have "good_records (take k recs)" using assms(3) by (auto simp: good_records_def dest: in_set_takeD)
    then show ?thesis using apply_all_effects [OF assms(2), of "take k recs" False m] by (metis fst_conv snd_conv prod_cases3)
  qed
  then show thesis using assms(1) that by (auto simp: torn_home_def)
qed

lemma effects_prefix: "(\<And>a. m' a = effects (take (p a) recs) m a) \<Longrightarrow> effects recs m' = effects recs m"
  by (auto simp: effects_def fun_eq_iff replay_prefix)

lemma effects_idem: "effects recs (effects recs m) = effects recs m"
  by (rule effects_prefix [where p = "\<lambda>_. length recs"]) simp

section \<open>Home locations\<close>

text \<open>Everything but the journal and the two checkpoint slots.\<close>

definition home_addr :: "nat \<Rightarrow> bool" where
  "home_addr a \<longleftrightarrow> \<not> (304 \<le> a \<and> a < 368) \<and> \<not> (log_at \<le> a \<and> a < log_at + ORCHFS_JOURNAL_BYTES)"

definition home_eq :: "(nat \<Rightarrow> u8) \<Rightarrow> (nat \<Rightarrow> u8) \<Rightarrow> bool" where
  "home_eq m m' \<longleftrightarrow> (\<forall>a. home_addr a \<longrightarrow> m a = m' a)"

lemma home_eq_simps [simp]: "home_eq m m"
  by (simp add: home_eq_def)

lemma home_eq_trans: "home_eq m m1 \<Longrightarrow> home_eq m1 m2 \<Longrightarrow> home_eq m m2"
  by (simp add: home_eq_def)

lemma log_values: "log_at = 104857600" "ORCHFS_JOURNAL_BYTES = 67108864"
  by (simp_all add: log_at_def layout_values ORCHFS_JOURNAL_BYTES_def)

text \<open>Records of a transaction change metadata and data, never the journal.\<close>

definition recs_home :: "disk_record list \<Rightarrow> bool" where
  "recs_home recs \<longleftrightarrow> (\<forall>r \<in> set recs. dr_kind r = ORCHFS_JOURNAL_WRITE \<longrightarrow> unat OFFSET_INODE \<le> unat (dr_target r))"

lemma rec_effect_outside:
  assumes "laid_out arr" "ok_record r" "dr_kind r = ORCHFS_JOURNAL_WRITE \<longrightarrow> unat OFFSET_INODE \<le> unat (dr_target r)"
    and a: "a < 4096 \<or> log_at \<le> a \<and> a < log_at + ORCHFS_JOURNAL_BYTES"
  shows "rec_effect r a v = v"
proof (cases "dr_kind r = ORCHFS_JOURNAL_WRITE")
  case True
  then show ?thesis using assms(3) a by (auto simp: rec_effect_def log_values layout_values)
next
  case False
  then have v: "valid_extent_block (sint (dr_type r)) (dr_target r)" using assms(2) by (simp add: ok_record_def)
  from extent_in_bitmap(4,5) [OF assms(1) v] show ?thesis using False a by (auto simp: rec_effect_def log_values)
qed

lemma effects_outside:
  assumes "laid_out arr" "good_records recs" "recs_home recs" "a < 4096 \<or> log_at \<le> a \<and> a < log_at + ORCHFS_JOURNAL_BYTES"
  shows "effects recs m a = m a"
proof -
  have "fold (\<lambda>r. rec_effect r a) recs v = v" for v
    using assms(2,3)
  proof (induction recs arbitrary: v)
    case (Cons r recs)
    have "rec_effect r a v = v" using Cons.prems by (intro rec_effect_outside [OF assms(1) _ _ assms(4)]) (auto simp: good_records_def recs_home_def)
    then show ?case using Cons by (simp add: good_records_def recs_home_def)
  qed simp
  then show ?thesis by (simp add: effects_def)
qed

section \<open>Scanning the journal\<close>

lemma get64_cong: "\<forall>a. off \<le> a \<and> a < off + 8 \<longrightarrow> m a = m' a \<Longrightarrow> get64 m off = get64 m' off"
  by (auto simp: get64_def nvm_get_def intro!: arg_cong [of _ _ of_le])

lemma nvm_get_cong: "\<forall>a. off \<le> a \<and> a < off + n \<longrightarrow> m a = m' a \<Longrightarrow> nvm_get m off n = nvm_get m' off n"
  by (auto simp: nvm_get_def)

lemma get64_rd: "k + 8 \<le> n \<Longrightarrow> get64 m (off + k) = rd64 (nvm_get m off n) k"
  by (auto simp: get64_def rd64_def nvm_get_def drop_map take_map drop_upt intro!: arg_cong [of _ _ of_le])

lemma scan_cong:
  assumes "\<forall>a. log_at + c \<le> a \<and> a < log_at + ORCHFS_JOURNAL_BYTES \<longrightarrow> m a = m' a"
  shows "scan_frame m c = scan_frame m' c"
proof (cases "ORCHFS_JOURNAL_BYTES < c + 64")
  case True
  then show ?thesis by (simp add: scan_frame_def)
next
  case False
  have g: "get64 m (log_at + c + 24) = get64 m' (log_at + c + 24)" "get64 m (log_at + c) = get64 m' (log_at + c)"
    by (rule get64_cong, use False assms in auto)+
  have n: "nvm_get m (log_at + c) k = nvm_get m' (log_at + c) k" if "k \<le> ORCHFS_JOURNAL_BYTES - c" for k
    by (rule nvm_get_cong) (use that False assms in auto)
  show ?thesis using n [of "unat (get64 m' (log_at + c + 24))"] by (auto simp: scan_frame_def g Let_def)
qed

lemma scan_valid:
  assumes v: "validate_frame frame = 0" and n: "length frame \<le> ORCHFS_JOURNAL_BYTES" and m: "nvm_get m log_at (length frame) = frame"
  shows "scan_frame m 0 = Some frame"
proof -
  have f: "128 \<le> length frame" "length frame mod 64 = 0" "rd64 frame 0 = ORCHFS_JOURNAL_MAGIC" "rd64 frame 24 = of_nat (length frame)"
    using v by (auto simp: validate_frame_def Let_def split: if_splits)
  have "unat (of_nat (length frame) :: u64) = length frame" using n by (intro unat_of_nat64) (simp add: log_values)
  then have "unat (get64 m (log_at + 24)) = length frame" "get64 m log_at = ORCHFS_JOURNAL_MAGIC"
    using f get64_rd [of 24 "length frame" m log_at] get64_rd [of 0 "length frame" m log_at] m by simp_all
  then show ?thesis using f n m v by (simp add: scan_frame_def Let_def)
qed

text \<open>Full lines of a non-temporal copy: each one is old or new.\<close>

definition torn_lines :: "(nat \<Rightarrow> u8) \<Rightarrow> nat \<Rightarrow> u8 list \<Rightarrow> (nat \<Rightarrow> u8) \<Rightarrow> bool" where
  "torn_lines m off bs m' \<longleftrightarrow>
     (\<exists>L. \<forall>a. m' a = (if off \<le> a \<and> a < off + length bs \<and> L (a div 64) then bs ! (a - off) else m a))"

text \<open>No commit record of this transaction is left at the place where its frame will end.\<close>

definition no_stale_commit :: "(nat \<Rightarrow> u8) \<Rightarrow> nat \<Rightarrow> u64 \<Rightarrow> bool" where
  "no_stale_commit m n txid \<longleftrightarrow>
     \<not> (get64 m (log_at + n - 64) = ORCHFS_JOURNAL_COMMIT_MAGIC \<and> get64 m (log_at + n - 56) = txid)"

lemma scan_torn_body:
  assumes v: "validate_frame frame = 0" and n: "length frame \<le> ORCHFS_JOURNAL_BYTES"
    and t: "torn_lines m log_at (take (length frame - 64) frame) m'"
    and old: "get64 m log_at \<noteq> ORCHFS_JOURNAL_MAGIC" and stale: "no_stale_commit m (length frame) (rd64 frame 16)"
  shows "scan_frame m' 0 = None"
proof -
  let ?n = "length frame"
  have f: "128 \<le> ?n" "?n mod 64 = 0" "rd64 frame 24 = of_nat ?n"
    using v by (auto simp: validate_frame_def Let_def split: if_splits)
  have tl: "length (take (?n - 64) frame) = ?n - 64" by simp
  from t obtain L where L0: "\<forall>a. m' a = (if log_at \<le> a \<and> a < log_at + (?n - 64) \<and> L (a div 64)
      then take (?n - 64) frame ! (a - log_at) else m a)"
    unfolding torn_lines_def tl by blast
  have L: "m' a = (if log_at \<le> a \<and> a < log_at + (?n - 64) \<and> L (a div 64) then frame ! (a - log_at) else m a)" for a
    using L0 [rule_format, of a] nth_take [of "a - log_at" "?n - 64" frame] by (cases "a - log_at < ?n - 64") auto
  have line: "a div 64 = 1638400" if "log_at \<le> a" "a < log_at + 64" for a
    using that by (simp add: log_values div_nat_eqI)
  show ?thesis
  proof (cases "L 1638400")
    case False
    have "get64 m' log_at = get64 m log_at" by (rule get64_cong) (use False line in \<open>auto simp: L\<close>)
    then show ?thesis using old by (simp add: scan_frame_def)
  next
    case True
    have hd: "m' a = frame ! (a - log_at)" if "log_at \<le> a" "a < log_at + 64" for a
    proof -
      have "a < log_at + (?n - 64)" using that(2) f(1) by linarith
      with L [of a] that(1) True line [OF that] show ?thesis by (simp only: if_True simp_thms)
    qed
    have r: "get64 m' (log_at + k) = rd64 frame k" if "k + 8 \<le> 64" for k
    proof -
      have "nvm_get m' (log_at + k) 8 = take 8 (drop k frame)"
        by (rule nth_equalityI) (use that hd f(1) in auto)
      then show ?thesis by (simp add: get64_def rd64_def)
    qed
    have u: "unat (get64 m' (log_at + 24)) = ?n"
      using r [of 24] f(3) n by (simp add: log_values unat_of_nat64)
    let ?f = "nvm_get m' log_at ?n"
    have tx: "rd64 ?f 16 = rd64 frame 16" using get64_rd [of 16 ?n m' log_at] r [of 16] f(1) by simp
    have c: "rd64 (drop (?n - 64) ?f) k = get64 m (log_at + (?n - 64) + k)" if "k + 8 \<le> 64" for k
    proof -
      have "rd64 (drop (?n - 64) ?f) k = get64 m' (log_at + (?n - 64 + k))"
        using get64_rd [of "?n - 64 + k" ?n m' log_at] that f(1) by (simp add: rd64_def add.commute)
      also have "\<dots> = get64 m (log_at + (?n - 64 + k))" by (rule get64_cong) (auto simp: L)
      finally show ?thesis by (simp add: add.assoc)
    qed
    have "validate_frame ?f \<noteq> 0"
      using stale c [of 0] c [of 8] tx f(1)
      by (auto simp: validate_frame_def Let_def no_stale_commit_def add.assoc)
    then show ?thesis using u by (simp add: scan_frame_def Let_def)
  qed
qed

section \<open>Recovery\<close>

lemma effects_home: "home_eq m m' \<Longrightarrow> home_eq (effects recs m) (effects recs m')"
  by (simp add: home_eq_def effects_def)

lemma checkpoint_slot_le: "checkpoint_slot g \<le> 1"
proof -
  have "(g - 1) AND 1 = 0 \<or> (g - 1) AND 1 = 1" by (simp add: and_one_eq mod_2_eq_odd)
  then show ?thesis by (auto simp: checkpoint_slot_def)
qed

lemma checkpoint_put_home: "home_eq (nvm_put m (sb_checkpoint (checkpoint_slot g)) (encode_checkpoint c)) m"
  using checkpoint_slot_le [of g]
  by (auto simp: home_eq_def home_addr_def nvm_put_def sb_checkpoint_def encode_checkpoint_def)

lemma clear_home: "home_eq (nvm_put m log_at (replicate 64 0)) m"
  by (auto simp: home_eq_def home_addr_def nvm_put_def log_values)

lemma recover_after_loop:
  assumes "orchfs_log_validate_format (nvm st) = 0" "latest_checkpoint (nvm st) = Inr c"
    "recover_loop (bmps st) (nvm st) (ck_durable_txid c) 0 = (arr, media, d, 0)" "orchfs_log_recover st = (st', err)"
  shows "home_eq (nvm st') media"
proof -
  have "home_eq (nvm_put (nvm_put media x y) log_at (replicate 64 0)) media" if "home_eq (nvm_put media x y) media" for x y
    using that clear_home home_eq_trans by blast
  then show ?thesis
    using assms checkpoint_put_home
    by (auto simp: orchfs_log_recover_def Let_def write_checkpoint_def clear_journal_def split: if_splits)
qed

lemma loop_stops: "scan_frame media c = None \<Longrightarrow> recover_loop arr media d c = (arr, media, d, 0)"
  by (simp add: recover_loop.simps)

lemma loop_one:
  assumes "scan_frame media 0 = Some frame" "apply_frame True frame arr media = (arr', media', 0)"
    "scan_frame media' (length frame) = None"
  shows "\<exists>d'. recover_loop arr media d 0 = (arr', media', d', 0)"
  using assms loop_stops [OF assms(3)] by (simp add: recover_loop.simps [of arr media d 0])

lemma format_cong:
  assumes "\<forall>a < 304. m a = m' a"
  shows "orchfs_log_validate_format m = orchfs_log_validate_format m'"
proof -
  have "get64 m k = get64 m' k" if "k + 8 \<le> 304" for k by (rule get64_cong) (use assms that in auto)
  then show ?thesis by (simp add: orchfs_log_validate_format_def)
qed

lemma checkpoint_cong:
  assumes "\<forall>a. sb_checkpoint s \<le> a \<and> a < sb_checkpoint s + 32 \<longrightarrow> m a = m' a"
  shows "read_checkpoint m s = read_checkpoint m' s"
proof -
  have "get64 m (sb_checkpoint s + k) = get64 m' (sb_checkpoint s + k)" if "k + 8 \<le> 32" for k
    by (rule get64_cong) (use assms that in auto)
  note g = this [of 0, simplified] this [of 8] this [of 16]
  have "get32 m (sb_checkpoint s + k) = get32 m' (sb_checkpoint s + k)" if "k + 4 \<le> 32" for k
    unfolding get32_def by (rule arg_cong [of _ _ of_le], rule nvm_get_cong) (use assms that in auto)
  then show ?thesis using g by (simp add: read_checkpoint_def Let_def)
qed

lemma latest_ok: "valid_checkpoint (read_checkpoint m s) \<Longrightarrow> s \<le> 1 \<Longrightarrow> \<exists>c. latest_checkpoint m = Inr c"
  by (cases s) (auto simp: latest_checkpoint_def Let_def)

section \<open>Crash states of a commit\<close>

text \<open>The guards of \<open>commit_one\<close> passed and this frame was built.\<close>

definition committing :: "libfs \<Rightarrow> txn \<Rightarrow> u8 list \<Rightarrow> bool" where
  "committing st tx frame \<longleftrightarrow> initialized st \<and> \<not> orchfs_log_transaction_is_empty tx \<and>
     next_txid st \<noteq> 0 \<and> next_txid st \<noteq> - 1 \<and> checkpoint_generation st \<noteq> - 1 \<and>
     build_frame tx (next_txid st) = Inr frame"

definition logged :: "u8 list \<Rightarrow> (nat \<Rightarrow> u8) \<Rightarrow> (nat \<Rightarrow> u8)" where
  "logged frame m = nvm_put (nvm_put m log_at (take (length frame - 64) frame)) (log_at + (length frame - 64))
     (drop (length frame - 64) frame)"

definition homed :: "libfs \<Rightarrow> u8 list \<Rightarrow> (nat \<Rightarrow> u8)" where
  "homed st frame = fst (snd (apply_frame False frame (bmps st) (logged frame (nvm st))))"

definition torn_bytes :: "(nat \<Rightarrow> u8) \<Rightarrow> nat \<Rightarrow> u8 list \<Rightarrow> (nat \<Rightarrow> u8) \<Rightarrow> bool" where
  "torn_bytes m off bs m' \<longleftrightarrow> (\<forall>a. m' a = m a \<or> off \<le> a \<and> a < off + length bs \<and> m' a = bs ! (a - off))"

abbreviation next_checkpoint :: "libfs \<Rightarrow> u8 list" where
  "next_checkpoint st \<equiv> encode_checkpoint (new_checkpoint (checkpoint_generation st + 1) (next_txid st))"

abbreviation next_slot :: "libfs \<Rightarrow> nat" where
  "next_slot st \<equiv> checkpoint_slot (checkpoint_generation st + 1)"

text \<open>\<open>commit_crash st tx durable m\<close>: the machine may stop during the commit of \<open>tx\<close> with media \<open>m\<close>;
  \<open>durable\<close> tells whether the commit record had been stored.\<close>

inductive commit_crash :: "libfs \<Rightarrow> txn \<Rightarrow> bool \<Rightarrow> (nat \<Rightarrow> u8) \<Rightarrow> bool" for st tx where
  body: "committing st tx frame \<Longrightarrow> torn_lines (nvm st) log_at (take (length frame - 64) frame) m \<Longrightarrow>
    commit_crash st tx False m"
| home: "committing st tx frame \<Longrightarrow> torn_home (bmps st) (frame_records tx) (logged frame (nvm st)) m \<Longrightarrow>
    commit_crash st tx True m"
| checkpoint: "committing st tx frame \<Longrightarrow>
    torn_bytes (homed st frame) (sb_checkpoint (next_slot st)) (next_checkpoint st) m \<Longrightarrow> commit_crash st tx True m"
| clear: "committing st tx frame \<Longrightarrow>
    torn_lines (nvm_put (homed st frame) (sb_checkpoint (next_slot st)) (next_checkpoint st)) log_at (replicate 64 0) m \<Longrightarrow>
    commit_crash st tx True m"

inductive_cases commit_crashE: "commit_crash st tx d m"

text \<open>What holds between two commits: the image has the right format, the current checkpoint is
  valid, the journal is cleared, and what older frames left behind is neither a frame after
  the new one nor its commit record.\<close>

definition journal_ready :: "libfs \<Rightarrow> txn \<Rightarrow> bool" where
  "journal_ready st tx \<longleftrightarrow> orchfs_log_validate_format (nvm st) = 0 \<and>
     valid_checkpoint (read_checkpoint (nvm st) (1 - next_slot st)) \<and>
     get64 (nvm st) log_at \<noteq> ORCHFS_JOURNAL_MAGIC \<and>
     (case build_frame tx (next_txid st) of
        Inl _ \<Rightarrow> True
      | Inr frame \<Rightarrow> no_stale_commit (nvm st) (length frame) (next_txid st) \<and> scan_frame (nvm st) (length frame) = None)"

lemma logged_bytes:
  assumes "128 \<le> length frame"
  shows "logged frame m a = (if log_at \<le> a \<and> a < log_at + length frame then frame ! (a - log_at) else m a)"
proof -
  obtain k where k: "length frame = k + 64" using assms le_Suc_ex [of 64 "length frame"] by (auto simp: add.commute)
  have "a - (log_at + k) + k = a - log_at" if "log_at + k \<le> a" using that by linarith
  then show ?thesis by (auto simp: logged_def nvm_put_def k)
qed

lemma logged_home: "128 \<le> length frame \<Longrightarrow> length frame \<le> ORCHFS_JOURNAL_BYTES \<Longrightarrow> home_eq (logged frame m) m"
  by (auto simp: home_eq_def home_addr_def logged_bytes)

lemma frame_txid:
  assumes "build_frame tx txid = Inr frame"
  shows "rd64 frame 16 = txid"
  using assms by (auto simp: build_frame_def seal_frame_def Let_def header_fields [OF refl] split: sum.splits if_splits)

text \<open>Facts about a frame that is being committed.\<close>

lemma committing_facts:
  assumes "committing st tx frame" "tx_wf tx" "laid_out arr"
  shows "good_records (frame_records tx)" "validate_frame frame = 0" "128 \<le> length frame" "length frame \<le> ORCHFS_JOURNAL_BYTES"
    "rd64 frame 16 = next_txid st"
    "\<exists>arr'. apply_frame recovering frame arr m = (arr', effects (frame_records tx) m, 0) \<and> laid_out arr'"
proof -
  have b: "build_frame tx (next_txid st) = Inr frame" using assms(1) by (simp add: committing_def)
  obtain recs where r: "recs = frame_records tx" "good_records recs" "length recs < 2 ^ 32"
      "frame = seal_frame (next_txid st) (length recs) (payload_of recs)" "length frame \<le> ORCHFS_JOURNAL_BYTES"
      "validate_frame frame = 0"
    by (rule build_frame_ok [OF b assms(2)])
  show "good_records (frame_records tx)" "validate_frame frame = 0" "length frame \<le> ORCHFS_JOURNAL_BYTES" using r by simp_all
  show "128 \<le> length frame" using r(6) by (auto simp: validate_frame_def Let_def split: if_splits)
  show "rd64 frame 16 = next_txid st" by (rule frame_txid [OF b])
  have "apply_frame recovering frame arr m = apply_all recovering recs arr m"
    using apply_seal [of recs recovering "next_txid st" arr m] r(2-4) by (simp add: good_records_def payload_of_def)
  then show "\<exists>arr'. apply_frame recovering frame arr m = (arr', effects (frame_records tx) m, 0) \<and> laid_out arr'"
    using apply_all_effects [OF assms(3) r(2)] r(1) by (metis prod_cases3)
qed

lemma homed_effects:
  "committing st tx frame \<Longrightarrow> tx_wf tx \<Longrightarrow> laid_out (bmps st) \<Longrightarrow>
    homed st frame = effects (frame_records tx) (logged frame (nvm st))"
  using committing_facts(6) [of st tx frame "bmps st" False "logged frame (nvm st)"] by (auto simp: homed_def)

lemma recover_nothing:
  assumes "orchfs_log_validate_format (nvm st) = 0" "valid_checkpoint (read_checkpoint (nvm st) s)" "s \<le> 1"
    "scan_frame (nvm st) 0 = None" "orchfs_log_recover st = (st', err)"
  shows "home_eq (nvm st') (nvm st)"
proof -
  obtain c where "latest_checkpoint (nvm st) = Inr c" using latest_ok [OF assms(2,3)] by blast
  then show ?thesis using recover_after_loop [OF assms(1) _ loop_stops [OF assms(4)] assms(5)] by blast
qed

lemma recover_replays:
  assumes cm: "committing st tx frame" and wf: "tx_wf tx" and rh: "recs_home (frame_records tx)" and jr: "journal_ready st tx"
    and lo: "laid_out (bmps st2)"
    and j: "\<forall>a. log_at \<le> a \<and> a < log_at + ORCHFS_JOURNAL_BYTES \<longrightarrow> nvm st2 a = logged frame (nvm st) a"
    and f: "orchfs_log_validate_format (nvm st2) = 0" and c: "valid_checkpoint (read_checkpoint (nvm st2) s)" "s \<le> 1"
    and r: "orchfs_log_recover st2 = (st3, err)"
  shows "home_eq (nvm st3) (effects (frame_records tx) (nvm st2))"
proof -
  let ?m = "nvm st2" and ?recs = "frame_records tx"
  note cf = committing_facts [OF cm wf lo]
  have none: "scan_frame (nvm st) (length frame) = None"
    using jr cm by (simp add: journal_ready_def committing_def)
  have lb: "logged frame (nvm st) a = (if log_at \<le> a \<and> a < log_at + length frame then frame ! (a - log_at) else nvm st a)" for a
    by (rule logged_bytes [OF cf(3)])
  have "nvm_get ?m log_at (length frame) = frame"
    by (rule nth_equalityI) (use j lb cf(4) in auto)
  then have sc: "scan_frame ?m 0 = Some frame" by (rule scan_valid [OF cf(2,4)])
  obtain arr' where ap: "apply_frame True frame (bmps st2) ?m = (arr', effects ?recs ?m, 0)" using cf(6) by blast
  have "scan_frame (effects ?recs ?m) (length frame) = scan_frame (nvm st) (length frame)"
    by (rule scan_cong) (use effects_outside [OF lo cf(1) rh] j lb in auto)
  then have "scan_frame (effects ?recs ?m) (length frame) = None" using none by simp
  from loop_one [OF sc ap this] latest_ok [OF c] recover_after_loop [OF f _ _ r] show ?thesis by metis
qed

lemma commit_one_media:
  assumes cm: "committing st tx frame" and wf: "tx_wf tx" and lo: "laid_out (bmps st)"
  obtains st' where "commit_one st tx = (st', 0)" "next_txid st' = next_txid st + 1"
    "nvm st' = nvm_put (nvm_put (homed st frame) (sb_checkpoint (next_slot st)) (next_checkpoint st)) log_at (replicate 64 0)"
proof -
  obtain arr' where ap: "apply_frame False frame (bmps st) (logged frame (nvm st)) = (arr', homed st frame, 0)"
    using committing_facts(6) [OF cm wf lo, of False "logged frame (nvm st)"] homed_effects [OF cm wf lo] by metis
  show thesis
    by (rule that [of "st\<lparr>bmps := arr', checkpoint_generation := checkpoint_generation st + 1, next_txid := next_txid st + 1,
        nvm := nvm_put (nvm_put (homed st frame) (sb_checkpoint (next_slot st)) (next_checkpoint st)) log_at (replicate 64 0)\<rparr>"])
      (use cm ap in \<open>simp_all add: commit_one_def committing_def Let_def write_checkpoint_def clear_journal_def logged_def\<close>)
qed

section \<open>Atomicity\<close>

lemma commit_one_home:
  assumes "committing st tx frame" "tx_wf tx" "laid_out (bmps st)"
  shows "home_eq (homed st frame) (nvm (fst (commit_one st tx)))"
proof -
  obtain st' where "commit_one st tx = (st', 0)"
    "nvm st' = nvm_put (nvm_put (homed st frame) (sb_checkpoint (next_slot st)) (next_checkpoint st)) log_at (replicate 64 0)"
    by (rule commit_one_media [OF assms])
  moreover have "home_eq (homed st frame) (nvm_put (nvm_put (homed st frame) (sb_checkpoint (next_slot st)) (next_checkpoint st))
      log_at (replicate 64 0))"
    using checkpoint_put_home [of "homed st frame"] clear_home by (simp add: home_eq_def)
  ultimately show ?thesis by simp
qed

text \<open>The superblock bytes outside the checkpoint slot being written stay valid.\<close>

lemma superblock_kept:
  assumes jr: "journal_ready st tx"
    and out: "\<And>a. a < 4096 \<Longrightarrow>
      m a = nvm st a \<or> sb_checkpoint (next_slot st) \<le> a \<and> a < sb_checkpoint (next_slot st) + 32"
  shows "orchfs_log_validate_format m = 0" "valid_checkpoint (read_checkpoint m (1 - next_slot st))"
proof -
  have sl: "next_slot st \<le> 1" by (rule checkpoint_slot_le)
  have "orchfs_log_validate_format m = orchfs_log_validate_format (nvm st)"
  proof (rule format_cong, intro allI impI)
    fix a :: nat
    assume "a < 304"
    then have "\<not> sb_checkpoint (next_slot st) \<le> a" "a < 4096" by (simp_all add: sb_checkpoint_def)
    then show "m a = nvm st a" using out by metis
  qed
  then show "orchfs_log_validate_format m = 0" using jr by (simp add: journal_ready_def)
  have "read_checkpoint m (1 - next_slot st) = read_checkpoint (nvm st) (1 - next_slot st)"
  proof (rule checkpoint_cong, intro allI impI)
    fix a
    assume a: "sb_checkpoint (1 - next_slot st) \<le> a \<and> a < sb_checkpoint (1 - next_slot st) + 32"
    then have "\<not> (sb_checkpoint (next_slot st) \<le> a \<and> a < sb_checkpoint (next_slot st) + 32)" "a < 4096"
      using sl [unfolded le_Suc_eq One_nat_def] by (auto simp: sb_checkpoint_def)
    then show "m a = nvm st a" using out by metis
  qed
  then show "valid_checkpoint (read_checkpoint m (1 - next_slot st))" using jr by (simp add: journal_ready_def)
qed

text \<open>A crash while the frame is written leaves the old state.\<close>

lemma crash_in_body:
  assumes cm: "committing st tx frame" and wf: "tx_wf tx" and lo: "laid_out (bmps st2)" and jr: "journal_ready st tx"
    and t: "torn_lines (nvm st) log_at (take (length frame - 64) frame) (nvm st2)"
    and r: "orchfs_log_recover st2 = (st3, err)"
  shows "home_eq (nvm st3) (nvm st)"
proof -
  note cf = committing_facts [OF cm wf lo]
  have ready: "get64 (nvm st) log_at \<noteq> ORCHFS_JOURNAL_MAGIC" "no_stale_commit (nvm st) (length frame) (rd64 frame 16)"
    using jr cm cf(5) by (simp_all add: journal_ready_def committing_def)
  have in_log: "nvm st2 a = nvm st a" if "\<not> (log_at \<le> a \<and> a < log_at + ORCHFS_JOURNAL_BYTES)" for a
  proof -
    have "\<not> (log_at \<le> a \<and> a < log_at + length (take (length frame - 64) frame))" using that cf(4) by auto
    then show ?thesis using t by (auto simp: torn_lines_def)
  qed
  have "nvm st2 a = nvm st a" if "a < 4096" for a using in_log [of a] that by (simp add: log_values)
  note ck = superblock_kept [OF jr disjI1 [OF this]]
  have "home_eq (nvm st3) (nvm st2)"
    by (rule recover_nothing [OF ck diff_le_self scan_torn_body [OF cf(2,4) t ready] r])
  moreover have "home_eq (nvm st2) (nvm st)" using in_log by (simp add: home_eq_def home_addr_def)
  ultimately show ?thesis by (rule home_eq_trans)
qed

text \<open>Once the commit record is stored, recovery completes the transaction as long as the
  journal still holds the frame.\<close>

lemma crash_after_commit:
  assumes cm: "committing st tx frame" and wf: "tx_wf tx" and lo: "laid_out (bmps st)" "laid_out (bmps st2)"
    and rh: "recs_home (frame_records tx)" and jr: "journal_ready st tx"
    and out: "\<And>a. a < 4096 \<or> log_at \<le> a \<and> a < log_at + ORCHFS_JOURNAL_BYTES \<Longrightarrow>
      nvm st2 a = logged frame (nvm st) a \<or> sb_checkpoint (next_slot st) \<le> a \<and> a < sb_checkpoint (next_slot st) + 32"
    and eff: "home_eq (effects (frame_records tx) (nvm st2)) (homed st frame)"
    and r: "orchfs_log_recover st2 = (st3, err)"
  shows "home_eq (nvm st3) (homed st frame)"
proof -
  note cf = committing_facts [OF cm wf lo(1)]
  have "nvm st2 a = nvm st a \<or> sb_checkpoint (next_slot st) \<le> a \<and> a < sb_checkpoint (next_slot st) + 32" if "a < 4096" for a
    using that out [of a] by (simp add: logged_bytes [OF cf(3)] log_values)
  note ck = superblock_kept [OF jr this]
  have j: "\<forall>a. log_at \<le> a \<and> a < log_at + ORCHFS_JOURNAL_BYTES \<longrightarrow> nvm st2 a = logged frame (nvm st) a"
  proof (intro allI impI)
    fix a
    assume a: "log_at \<le> a \<and> a < log_at + ORCHFS_JOURNAL_BYTES"
    then have "\<not> a < sb_checkpoint (next_slot st) + 32"
      using checkpoint_slot_le [of "checkpoint_generation st + 1"] unfolding sb_checkpoint_def log_values by linarith
    then show "nvm st2 a = logged frame (nvm st) a" using out a by metis
  qed
  show ?thesis using recover_replays [OF cm wf rh jr lo(2) j ck diff_le_self r] eff by (rule home_eq_trans)
qed

text \<open>The home locations hold the transaction and the new checkpoint is partly or fully stored.\<close>

lemma crash_in_checkpoint:
  assumes cm: "committing st tx frame" and wf: "tx_wf tx" and lo: "laid_out (bmps st)" "laid_out (bmps st2)"
    and rh: "recs_home (frame_records tx)" and jr: "journal_ready st tx"
    and same: "\<And>a. nvm st2 a = homed st frame a \<or> sb_checkpoint (next_slot st) \<le> a \<and> a < sb_checkpoint (next_slot st) + 32"
    and r: "orchfs_log_recover st2 = (st3, err)"
  shows "home_eq (nvm st3) (homed st frame)"
proof (rule crash_after_commit [OF cm wf lo rh jr _ _ r])
  note h = homed_effects [OF cm wf lo(1)]
  show "nvm st2 a = logged frame (nvm st) a \<or> sb_checkpoint (next_slot st) \<le> a \<and> a < sb_checkpoint (next_slot st) + 32"
    if "a < 4096 \<or> log_at \<le> a \<and> a < log_at + ORCHFS_JOURNAL_BYTES" for a
    using same [of a] effects_outside [OF lo(1) committing_facts(1) [OF cm wf lo(1)] rh that] by (simp add: h)
  have "home_eq (nvm st2) (homed st frame)"
    unfolding home_eq_def home_addr_def
  proof (intro allI impI)
    fix a
    assume "\<not> (304 \<le> a \<and> a < 368) \<and> \<not> (log_at \<le> a \<and> a < log_at + ORCHFS_JOURNAL_BYTES)"
    then have "\<not> (sb_checkpoint (next_slot st) \<le> a \<and> a < sb_checkpoint (next_slot st) + 32)"
      using checkpoint_slot_le [of "checkpoint_generation st + 1"] unfolding sb_checkpoint_def by linarith
    then show "nvm st2 a = homed st frame a" using same by blast
  qed
  from effects_home [OF this, of "frame_records tx"] show "home_eq (effects (frame_records tx) (nvm st2)) (homed st frame)"
    by (simp add: h effects_idem)
qed

lemma torn_line_cases:
  assumes "torn_lines m off (replicate 64 v) m'" "off mod 64 = 0"
  shows "m' = m \<or> m' = nvm_put m off (replicate 64 v)"
proof -
  obtain L where L: "\<And>a. m' a = (if off \<le> a \<and> a < off + 64 \<and> L (a div 64) then replicate 64 v ! (a - off) else m a)"
    using assms(1) by (auto simp: torn_lines_def)
  from assms(2) have "64 dvd off" by (rule mod_0_imp_dvd)
  then obtain q where q: "off = 64 * q" by (rule dvdE)
  have line: "a div 64 = q" if "off \<le> a" "a < off + 64" for a
  proof -
    from \<open>off \<le> a\<close> obtain d where "a = off + d" by (rule less_eqE)
    moreover from this have "d < 64" using that by simp
    ultimately show ?thesis using q by simp
  qed
  show ?thesis
  proof (cases "L q")
    case True
    then have "m' = nvm_put m off (replicate 64 v)" using line by (auto simp: L nvm_put_def fun_eq_iff)
    then show ?thesis ..
  next
    case False
    then have "m' = m" using line by (auto simp: L fun_eq_iff)
    then show ?thesis ..
  qed
qed

text \<open>The journal header is cleared last.\<close>

lemma crash_in_clear:
  assumes cm: "committing st tx frame" and wf: "tx_wf tx" and lo: "laid_out (bmps st)" "laid_out (bmps st2)"
    and rh: "recs_home (frame_records tx)" and jr: "journal_ready st tx"
    and t: "torn_lines (nvm_put (homed st frame) (sb_checkpoint (next_slot st)) (next_checkpoint st)) log_at (replicate 64 0) (nvm st2)"
    and r: "orchfs_log_recover st2 = (st3, err)"
  shows "home_eq (nvm st3) (homed st frame)"
proof -
  let ?c = "nvm_put (homed st frame) (sb_checkpoint (next_slot st)) (next_checkpoint st)"
  have c: "?c a = homed st frame a \<or> sb_checkpoint (next_slot st) \<le> a \<and> a < sb_checkpoint (next_slot st) + 32" for a
    by (auto simp: nvm_put_def encode_checkpoint_def)
  note h = homed_effects [OF cm wf lo(1)] and cf = committing_facts [OF cm wf lo(1)]
  from torn_line_cases [OF t] consider "nvm st2 = ?c" | "nvm st2 = nvm_put ?c log_at (replicate 64 0)"
    by (auto simp: log_values)
  then show ?thesis
  proof cases
    case 1
    show ?thesis by (rule crash_in_checkpoint [OF cm wf lo rh jr _ r]) (use c 1 in simp)
  next
    case 2
    have "nvm st2 a = nvm st a \<or> sb_checkpoint (next_slot st) \<le> a \<and> a < sb_checkpoint (next_slot st) + 32" if "a < 4096" for a
    proof -
      have "nvm st2 a = ?c a" using that by (simp add: 2 nvm_put_def [of ?c] log_values)
      moreover have "homed st frame a = nvm st a"
        using that effects_outside [OF lo(1) cf(1) rh, of a] by (simp add: h logged_bytes [OF cf(3)] log_values)
      ultimately show ?thesis using c [of a] by metis
    qed
    note ck = superblock_kept [OF jr this]
    have "nvm_get (nvm st2) log_at 8 = replicate 8 0"
      by (rule nth_equalityI) (simp_all add: 2 nvm_put_def [of ?c])
    then have "get64 (nvm st2) log_at = 0" by (simp add: get64_def numeral_eq_Suc)
    then have "scan_frame (nvm st2) 0 = None" by (simp add: scan_frame_def)
    from recover_nothing [OF ck diff_le_self this r] have "home_eq (nvm st3) (nvm st2)" .
    then show ?thesis unfolding 2 using clear_home checkpoint_put_home home_eq_trans by blast
  qed
qed

lemma recovery_is_atomic:
  assumes crash: "commit_crash st tx durable (nvm st2)" and wf: "tx_wf tx" and lo: "laid_out (bmps st)" "laid_out (bmps st2)"
    and rh: "recs_home (frame_records tx)" and jr: "journal_ready st tx" and r: "orchfs_log_recover st2 = (st3, err)"
  shows "home_eq (nvm st3) (if durable then nvm (fst (commit_one st tx)) else nvm st)"
  using crash
proof (cases rule: commit_crash.cases)
  case (body frame)
  then show ?thesis using crash_in_body [OF body(2) wf lo(2) jr body(3) r] by simp
next
  case (home frame)
  note cf = committing_facts [OF home(2) wf lo(1)]
  obtain p where p: "\<And>a. nvm st2 a = effects (take (p a) (frame_records tx)) (logged frame (nvm st)) a"
    by (rule torn_home_effects [OF home(3) lo(1) cf(1)]) blast
  have "effects (frame_records tx) (nvm st2) = homed st frame"
    using effects_prefix [of "nvm st2" p] p homed_effects [OF home(2) wf lo(1)] by metis
  moreover have "nvm st2 a = logged frame (nvm st) a"
    if "a < 4096 \<or> log_at \<le> a \<and> a < log_at + ORCHFS_JOURNAL_BYTES" for a
  proof -
    have "good_records (take (p a) (frame_records tx))" "recs_home (take (p a) (frame_records tx))"
      using cf(1) rh by (auto simp: good_records_def recs_home_def dest: in_set_takeD)
    from effects_outside [OF lo(1) this that] show ?thesis by (simp add: p)
  qed
  ultimately have "home_eq (nvm st3) (homed st frame)"
    by (intro crash_after_commit [OF home(2) wf lo rh jr _ _ r]) simp_all
  then show ?thesis using home(1,2) commit_one_home [OF home(2) wf lo(1)] home_eq_trans by auto
next
  case (checkpoint frame)
  have "home_eq (nvm st3) (homed st frame)"
    by (rule crash_in_checkpoint [OF checkpoint(2) wf lo rh jr _ r])
      (use checkpoint(3) in \<open>auto simp: torn_bytes_def encode_checkpoint_def\<close>)
  then show ?thesis using checkpoint(1) commit_one_home [OF checkpoint(2) wf lo(1)] home_eq_trans by auto
next
  case (clear frame)
  from crash_in_clear [OF clear(2) wf lo rh jr clear(3) r]
  show ?thesis using clear(1) commit_one_home [OF clear(2) wf lo(1)] home_eq_trans by auto
qed

end
