(* ===== verification/Journal_Atomic.thy ===== *)
theory Journal_Atomic
  imports Journal_Crash
begin

text \<open>
  What the journal promises: a frame that was built is accepted and replayed as the records of
  its transaction, a commit is the effect of those records on the home locations, a commit that
  reports an error changed nothing, and a crash at any point of a commit followed by recovery
  gives the state before or the state after the whole transaction.
\<close>

section \<open>A formatted image\<close>

definition demo_arr :: bmp_arr where
  "demo_arr i = (case bmp_area i of None \<Rightarrow> demo_bmp
    | Some (c, st, sz) \<Rightarrow> demo_bmp\<lparr>dev_start_addr := bmp_home i,
        bmp_capacity := c, blk_area_start := st, blk_size := sz, bmp_alloc_range := c\<rparr>)"

definition demo_image :: "nat \<Rightarrow> u8" where
  "demo_image = nvm_put (put64 (put64 (put64 (put64 (put64 (\<lambda>_. 0) 8 0x37356217) 16 0x37356217) 24 0x37356217) 288 2) 296 1)
     (sb_checkpoint 0) (encode_checkpoint (new_checkpoint 1 1))"

definition demo_log :: libfs where
  "demo_log = \<lparr>bmps = demo_arr, worker = 0, nvm = demo_image, inode_mem = (\<lambda>_ _. 0), idx_mem = (\<lambda>_ _. 0),
     vir_mem = (\<lambda>_ _. 0), cur_tx = None, next_txid = 2, checkpoint_generation = 1, initialized = True, aborted = False\<rparr>"

definition demo_tx :: txn where
  "demo_tx = empty_txn\<lparr>tx_allocations := [(1, 5)]\<rparr>"

definition demo_frame :: "u8 list" where
  "demo_frame = seal_frame 2 1 (concat (map encode_record (frame_records demo_tx)))"

lemma checkpoint_roundtrip: "read_checkpoint (nvm_put m (sb_checkpoint s) (encode_checkpoint c)) s = c"
proof -
  let ?m = "nvm_put m (sb_checkpoint s) (encode_checkpoint c)"
  have "nvm_get ?m (sb_checkpoint s) 32 = encode_checkpoint c"
    using nvm.rd_wr_same [of m "sb_checkpoint s" "encode_checkpoint c"] by (simp add: encode_checkpoint_def)
  moreover have "get64 ?m (sb_checkpoint s + k) = rd64 (nvm_get ?m (sb_checkpoint s) 32) k" if "k + 8 \<le> 32" for k
    by (rule get64_rd [OF that])
  note this [of 0, simplified] this [of 8] this [of 16]
  moreover have "get32 ?m (sb_checkpoint s + k) = rd32 (nvm_get ?m (sb_checkpoint s) 32) k" if "k + 4 \<le> 32" for k
    using that by (auto simp: get32_def rd32_def nvm_get_def drop_map take_map drop_upt intro!: arg_cong [of _ _ of_le])
  note this [of 24] this [of 28]
  ultimately show ?thesis by (simp add: read_checkpoint_def Let_def encode_checkpoint_def rd64_def rd32_def)
qed

lemma new_checkpoint_txid: "ck_durable_txid (new_checkpoint g t) = t"
  by (simp add: new_checkpoint_def Let_def)

text \<open>Clearing the header ends the scan and keeps the checkpoints.\<close>

lemma of_le_zeros: "of_le (replicate n 0) = 0"
  by (induction n) simp_all

lemma cleared_scan: "scan_frame (nvm_put m log_at (replicate 64 0)) 0 = None"
proof -
  have "nvm_get (nvm_put m log_at (replicate 64 0)) log_at 8 = replicate 8 0"
    by (rule nth_equalityI) (simp_all add: nvm_put_def)
  then have "get64 (nvm_put m log_at (replicate 64 0)) log_at = 0" by (simp add: get64_def numeral_eq_Suc)
  then show ?thesis by (simp add: scan_frame_def)
qed

lemma read_checkpoint_cleared:
  "s \<le> 1 \<Longrightarrow> read_checkpoint (nvm_put m log_at (replicate 64 0)) s = read_checkpoint m s"
  by (rule checkpoint_cong) (auto simp: nvm_put_def log_values sb_checkpoint_def)

lemma new_checkpoint_valid: "g \<noteq> 0 \<Longrightarrow> valid_checkpoint (new_checkpoint g t)"
  by (simp add: valid_checkpoint_def new_checkpoint_def checkpoint_checksum_def Let_def)

lemma demo_laid_out: "laid_out demo_arr"
  by (simp add: laid_out_def bmp_ids_def demo_arr_def bmp_area_def)

lemma demo_build: "build_frame demo_tx 2 = Inr demo_frame"
  by (simp add: build_frame_def demo_tx_def demo_frame_def empty_txn_def valid_extent_block_def add_frame_size_def
      align_cacheline_def neg64_def layout_values log_values)

lemma demo_fields:
  "get64 demo_image k = get64 (put64 (put64 (put64 (put64 (put64 (\<lambda>_. 0) 8 0x37356217) 16 0x37356217) 24 0x37356217) 288 2) 296 1) k"
  if "k + 8 \<le> 304 \<or> 336 \<le> k"
  by (rule get64_cong) (use that in \<open>auto simp: demo_image_def nvm_put_def sb_checkpoint_def encode_checkpoint_def\<close>)

lemma demo_zero:
  assumes "336 \<le> k"
  shows "get64 demo_image k = 0"
proof -
  have "get64 (\<lambda>_. 0) k = 0" by (simp add: get64_def nvm_get_def map_replicate_const of_le_zeros)
  then show ?thesis using assms by (simp add: demo_fields get64_put64_other)
qed

lemma demo_ready: "journal_ready demo_log demo_tx"
proof -
  have "orchfs_log_validate_format demo_image = 0"
    by (simp add: orchfs_log_validate_format_def demo_fields get64_put64 get64_put64_other)
  moreover have "valid_checkpoint (read_checkpoint demo_image 0)"
    by (simp add: demo_image_def checkpoint_roundtrip new_checkpoint_valid)
  moreover have "get64 demo_image (log_at + k) = 0" for k by (rule demo_zero) (simp add: log_values)
  note this [of 0, simplified] this
  moreover have "get64 demo_image (log_at + length demo_frame - 64) = 0" by (rule demo_zero) (simp add: log_values)
  ultimately show ?thesis
    by (simp add: journal_ready_def demo_log_def demo_build no_stale_commit_def scan_frame_def checkpoint_slot_def)
qed

lemma demo_committing: "committing demo_log demo_tx demo_frame"
  by (simp add: committing_def demo_log_def demo_build orchfs_log_transaction_is_empty_def)
    (simp add: demo_tx_def)

section \<open>Frames\<close>

lemma build_validate_apply_facts:
  assumes "build_frame tx txid = Inr frame" "tx_wf tx"
  shows "validate_frame frame = 0" "length frame mod 64 = 0" "length frame \<le> ORCHFS_JOURNAL_BYTES" "rd64 frame 16 = txid"
    "apply_frame recovering frame arr media = apply_all recovering (frame_records tx) arr media"
proof -
  obtain recs where r: "recs = frame_records tx" "good_records recs" "length recs < 2 ^ 32"
    "frame = seal_frame txid (length recs) (payload_of recs)" "length frame \<le> ORCHFS_JOURNAL_BYTES"
    "length frame mod 64 = 0" "validate_frame frame = 0"
    by (rule build_frame_ok [OF assms])
  show "validate_frame frame = 0" "length frame mod 64 = 0" "length frame \<le> ORCHFS_JOURNAL_BYTES" using r by simp_all
  show "rd64 frame 16 = txid" by (rule frame_txid [OF assms(1)])
  show "apply_frame recovering frame arr media = apply_all recovering (frame_records tx) arr media"
    using apply_seal [of recs recovering txid arr media] r(1-4) by (simp add: good_records_def payload_of_def)
qed

text \<open>C3. A frame that \<open>build_frame\<close> produces from a transaction is accepted by \<open>validate_frame\<close>, is a whole
  number of cache lines, fits in the journal area and carries the transaction id; applying its bytes
  is applying the journaled changes, the allocations and the releases of the transaction, in this order.\<close>
theorem build_validate_apply:
  assumes "build_frame tx txid = Inr frame" "tx_wf tx"
  shows "validate_frame frame = 0 \<and> length frame mod 64 = 0 \<and> length frame \<le> ORCHFS_JOURNAL_BYTES \<and> rd64 frame 16 = txid \<and>
    apply_frame recovering frame arr media = apply_all recovering (frame_records tx) arr media"
  using build_validate_apply_facts [OF assms] by blast

lemma demo_tx_wf: "tx_wf demo_tx"
  by (simp add: tx_wf_def demo_tx_def empty_txn_def)

theorem build_validate_apply_witness:
  "validate_frame demo_frame = 0 \<and> length demo_frame mod 64 = 0 \<and> rd64 demo_frame 16 = 2 \<and>
    apply_frame False demo_frame demo_arr demo_image = apply_all False (frame_records demo_tx) demo_arr demo_image"
  using build_validate_apply [OF demo_build demo_tx_wf] by simp

section \<open>Commit\<close>

lemma record_target_error: "record_target r = Inl err \<Longrightarrow> err \<noteq> 0"
  by (auto simp: record_target_def metadata_location_def split: if_splits option.splits)

lemma size_records_error: "size_records rs acc = Inl err \<Longrightarrow> err \<noteq> 0"
  by (induction rs acc rule: size_records.induct)
    (auto simp: add_frame_size_def Let_def dest: record_target_error split: if_splits sum.splits prod.splits)

lemma size_allocations_error: "size_allocations as acc = Inl err \<Longrightarrow> err \<noteq> 0"
  by (induction as acc rule: size_allocations.induct)
    (auto simp: add_frame_size_def Let_def split: if_splits sum.splits prod.splits)

lemma build_frame_error: "build_frame tx txid = Inl err \<Longrightarrow> err \<noteq> 0"
  by (auto simp: build_frame_def dest: size_records_error size_allocations_error split: if_splits sum.splits)

lemma commit_one_committing:
  assumes "commit_one st tx = (st', err)" "err = 0 \<longrightarrow> \<not> orchfs_log_transaction_is_empty tx"
  shows "(\<exists>frame. committing st tx frame) \<or> st' = st \<and> err \<noteq> 0"
  using assms by (auto simp: commit_one_def committing_def dest: build_frame_error split: if_splits sum.splits)

lemma commit_refines_facts:
  assumes "commit_one st tx = (st', 0)" "\<not> orchfs_log_transaction_is_empty tx" "tx_wf tx" "laid_out (bmps st)"
  shows "home_eq (nvm st') (effects (frame_records tx) (nvm st))" "scan_frame (nvm st') 0 = None"
    "\<exists>slot \<le> 1. valid_checkpoint (read_checkpoint (nvm st') slot) \<and>
      ck_durable_txid (read_checkpoint (nvm st') slot) = next_txid st" "next_txid st' = next_txid st + 1"
proof -
  obtain frame where cm: "committing st tx frame" using commit_one_committing [OF assms(1)] assms(2) by auto
  obtain st1 where s: "commit_one st tx = (st1, 0)" "next_txid st1 = next_txid st + 1"
    "nvm st1 = nvm_put (nvm_put (homed st frame) (sb_checkpoint (next_slot st)) (next_checkpoint st)) log_at (replicate 64 0)"
    by (rule commit_one_media [OF cm assms(3,4)])
  then have st1: "st1 = st'" using assms(1) by simp
  then show "next_txid st' = next_txid st + 1" using s(2) by simp
  note cf = committing_facts [OF cm assms(3,4)]
  have "home_eq (homed st frame) (effects (frame_records tx) (nvm st))"
    using effects_home [OF logged_home [OF cf(3,4)]] by (simp add: homed_effects [OF cm assms(3,4)])
  moreover have "home_eq (nvm st') (homed st frame)"
    unfolding st1 [symmetric] s(3) using clear_home checkpoint_put_home home_eq_trans by blast
  ultimately show "home_eq (nvm st') (effects (frame_records tx) (nvm st))" using home_eq_trans by blast
  show "scan_frame (nvm st') 0 = None" unfolding st1 [symmetric] s(3) by (rule cleared_scan)
  have "read_checkpoint (nvm st') (next_slot st) = new_checkpoint (checkpoint_generation st + 1) (next_txid st)"
    unfolding st1 [symmetric] s(3) using read_checkpoint_cleared [OF checkpoint_slot_le] by (simp add: checkpoint_roundtrip)
  moreover have "checkpoint_generation st + 1 \<noteq> 0" using cm by (metis committing_def eq_neg_iff_add_eq_0)
  ultimately show "\<exists>slot \<le> 1. valid_checkpoint (read_checkpoint (nvm st') slot) \<and>
      ck_durable_txid (read_checkpoint (nvm st') slot) = next_txid st"
    using checkpoint_slot_le by (intro exI [of _ "next_slot st"]) (auto simp: new_checkpoint_valid new_checkpoint_txid)
qed

text \<open>C2. A commit that succeeds refines the abstract journal: on the home locations (all media but the
  journal and the checkpoint slots) it is the effect of the records of the transaction, the journal is
  cleared, a valid checkpoint names the transaction as durable, and the transaction id advances.\<close>
theorem commit_refines:
  assumes "commit_one st tx = (st', 0)" "\<not> orchfs_log_transaction_is_empty tx" "tx_wf tx" "laid_out (bmps st)"
  shows "home_eq (nvm st') (effects (frame_records tx) (nvm st)) \<and> scan_frame (nvm st') 0 = None \<and>
    (\<exists>slot \<le> 1. valid_checkpoint (read_checkpoint (nvm st') slot) \<and>
      ck_durable_txid (read_checkpoint (nvm st') slot) = next_txid st) \<and> next_txid st' = next_txid st + 1"
  using commit_refines_facts [OF assms] by blast

theorem commit_refines_witness:
  "home_eq (nvm (fst (commit_one demo_log demo_tx))) (effects (frame_records demo_tx) demo_image) \<and>
    scan_frame (nvm (fst (commit_one demo_log demo_tx))) 0 = None \<and> next_txid (fst (commit_one demo_log demo_tx)) = 3"
proof -
  have l: "laid_out (bmps demo_log)" "nvm demo_log = demo_image" "next_txid demo_log = 2"
    by (simp_all add: demo_log_def demo_laid_out)
  obtain st' where "commit_one demo_log demo_tx = (st', 0)" by (rule commit_one_media [OF demo_committing demo_tx_wf l(1)])
  moreover have "\<not> orchfs_log_transaction_is_empty demo_tx"
    by (simp add: demo_tx_def orchfs_log_transaction_is_empty_def)
  ultimately show ?thesis using commit_refines [of demo_log demo_tx st'] demo_tx_wf l by simp
qed

text \<open>C26. A commit that reports an error has changed nothing: no byte of the media, no bitmap, no counter.\<close>
theorem commit_error_unchanged:
  assumes "commit_one st tx = (st', err)" "err \<noteq> 0" "tx_wf tx" "laid_out (bmps st)"
  shows "st' = st"
proof -
  have "False" if "committing st tx frame" for frame
    by (rule commit_one_media [OF that assms(3,4)]) (use assms(1,2) in simp)
  then show ?thesis using commit_one_committing [OF assms(1)] assms(2) by blast
qed

theorem commit_error_unchanged_witness:
  "commit_one (demo_log\<lparr>next_txid := - 1\<rparr>) demo_tx = (demo_log\<lparr>next_txid := - 1\<rparr>, EOVERFLOW)"
proof -
  obtain st' where c: "commit_one (demo_log\<lparr>next_txid := - 1\<rparr>) demo_tx = (st', EOVERFLOW)"
    by (simp add: commit_one_def demo_log_def orchfs_log_transaction_is_empty_def demo_tx_def)
  then show ?thesis using commit_error_unchanged [OF c _ demo_tx_wf] by (simp add: demo_log_def demo_laid_out)
qed

section \<open>Crashes\<close>

text \<open>C1. Crash atomicity.  Stop the machine at any point of a commit: while the frame is being written
  (any subset of its cache lines stored, the commit record not), while the home locations are being
  written (every byte may have seen a different prefix of the records), while the checkpoint is being
  written (any bytes stored) or while the header is being cleared.  Recovery from that media gives, on
  all home locations, the state before the commit when the commit record was not stored, and the state
  that the completed commit leaves when it was.\<close>
theorem commit_crash_atomic:
  assumes "commit_crash st tx durable (nvm st2)" "tx_wf tx" "laid_out (bmps st)" "laid_out (bmps st2)"
    "recs_home (frame_records tx)" "journal_ready st tx" "orchfs_log_recover st2 = (st3, err)"
  shows "home_eq (nvm st3) (if durable then nvm (fst (commit_one st tx)) else nvm st)"
  by (rule recovery_is_atomic [OF assms])

theorem commit_crash_atomic_witness:
  "home_eq (nvm (fst (orchfs_log_recover (demo_log\<lparr>nvm := logged demo_frame demo_image\<rparr>)))) (nvm (fst (commit_one demo_log demo_tx)))"
proof -
  have m: "bmps demo_log = demo_arr" "nvm demo_log = demo_image" by (simp_all add: demo_log_def)
  have "commit_crash demo_log demo_tx True (logged demo_frame demo_image)"
    by (rule commit_crash.home [OF demo_committing]) (auto simp: torn_home_def m intro: exI [of _ "\<lambda>_. 0"])
  moreover have "recs_home (frame_records demo_tx)"
    by (simp add: recs_home_def frame_records_def demo_tx_def empty_txn_def alloc_record_def)
  moreover obtain st3 err where "orchfs_log_recover (demo_log\<lparr>nvm := logged demo_frame demo_image\<rparr>) = (st3, err)" by fastforce
  ultimately show ?thesis
    using commit_crash_atomic [of demo_log demo_tx True "demo_log\<lparr>nvm := logged demo_frame demo_image\<rparr>" st3 err]
    by (simp add: demo_tx_wf demo_laid_out demo_ready m)
qed

lemma latest_error: "latest_checkpoint m = Inl err \<Longrightarrow> err \<noteq> 0"
  by (auto simp: latest_checkpoint_def Let_def split: if_splits)

text \<open>C28. Recovery is idempotent: recovering again after a recovery that succeeded leaves the home locations
  as they are, even when the machine stops between the two.\<close>
theorem recover_idempotent:
  assumes "orchfs_log_recover st = (st1, 0)" "nvm st2 = nvm st1" "orchfs_log_recover st2 = (st3, err)"
  shows "home_eq (nvm st3) (nvm st1)"
proof -
  from assms(1) obtain m where "nvm st1 = nvm_put m log_at (replicate 64 0)"
    by (auto simp: orchfs_log_recover_def Let_def clear_journal_def dest: latest_error split: if_splits sum.splits prod.splits)
  then have "scan_frame (nvm st2) 0 = None" using assms(2) by (simp add: cleared_scan)
  note stop = loop_stops [OF this]
  show ?thesis
  proof (cases "orchfs_log_validate_format (nvm st2) = 0 \<and> (\<exists>c. latest_checkpoint (nvm st2) = Inr c)")
    case True
    then show ?thesis using recover_after_loop [OF _ _ stop assms(3)] assms(2) by auto
  next
    case False
    then have "nvm st3 = nvm st2"
      using assms(3) by (auto simp: orchfs_log_recover_def Let_def split: if_splits sum.splits)
    then show ?thesis using assms(2) by simp
  qed
qed

lemma demo_recover: "snd (orchfs_log_recover demo_log) = 0"
proof -
  have f: "orchfs_log_validate_format demo_image = 0" "get64 demo_image log_at = 0"
    using demo_ready by (simp_all add: journal_ready_def demo_log_def) (simp add: demo_zero log_values)
  have c0: "read_checkpoint demo_image 0 = new_checkpoint 1 1" by (simp add: demo_image_def checkpoint_roundtrip)
  have "get64 demo_image (sb_checkpoint 1) = 0" by (rule demo_zero) (simp add: sb_checkpoint_def)
  then have "\<not> valid_checkpoint (read_checkpoint demo_image 1)" by (simp add: valid_checkpoint_def read_checkpoint_def Let_def)
  then have l: "latest_checkpoint demo_image = Inr (new_checkpoint 1 1)"
    by (simp add: latest_checkpoint_def c0 new_checkpoint_valid Let_def)
  have s: "recover_loop arr demo_image d 0 = (arr, demo_image, d, 0)" for arr d
    by (rule loop_stops) (simp add: scan_frame_def f(2))
  show ?thesis
    using f(1) l s by (simp add: orchfs_log_recover_def demo_log_def Let_def new_checkpoint_txid write_checkpoint_def)
      (simp add: new_checkpoint_def Let_def)
qed

theorem recover_idempotent_witness:
  "home_eq (nvm (fst (orchfs_log_recover (fst (orchfs_log_recover demo_log))))) (nvm (fst (orchfs_log_recover demo_log)))"
  using recover_idempotent [of demo_log "fst (orchfs_log_recover demo_log)" "fst (orchfs_log_recover demo_log)"] demo_recover
  by (metis prod.collapse)

section \<open>Abort\<close>

lemma byte_blk_put:
  "byte_at (blk_put b off bytes) k = (if off \<le> k \<and> k < off + length bytes then bytes ! (k - off) else byte_at b k)"
proof -
  let ?f = "\<lambda>i. let k = 8 * (k div 8) + i in if off \<le> k \<and> k < off + length bytes then bytes ! (k - off) else byte_at b k"
  have n: "k mod 8 < 8" by simp
  have "byte_at (blk_put b off bytes) k = le64 (of_le (map ?f [0..<8])) ! (k mod 8)"
    using n by (simp add: byte_at_def blk_put_def le64_def)
  also have "\<dots> = map ?f [0..<8] ! (k mod 8)" by (simp add: le64_of_le)
  also have "\<dots> = ?f (k mod 8)" using n by simp
  finally show ?thesis by (simp add: Let_def)
qed

text \<open>The memory image of the metadata of a type.\<close>

definition meta_mem :: "int \<Rightarrow> libfs \<Rightarrow> i64 \<Rightarrow> blk" where
  "meta_mem type st = (if type = INODE_OP then inode_mem st else if type = IDXND_OP then idx_mem st else vir_mem st)"

lemma release_frame:
  "inode_mem (fst (release s t b)) = inode_mem s" "idx_mem (fst (release s t b)) = idx_mem s"
  "vir_mem (fst (release s t b)) = vir_mem s" "nvm (fst (release s t b)) = nvm s"
  by (simp_all add: release_def orchfs_log_defer_current_release_def split: prod.splits option.splits)

lemmas release_one_defs = release_inode_def release_index_node_def release_virindex_node_def
  release_buffer_metadata_def release_nvm_page_def release_ssd_block_def

lemma release_each_frame:
  "inode_mem (release_each s as) = inode_mem s" "idx_mem (release_each s as) = idx_mem s"
  "vir_mem (release_each s as) = vir_mem s" "nvm (release_each s as) = nvm s"
  by (induction as arbitrary: s) (auto simp: release_each_def release_frame release_one_defs)

text \<open>Byte \<open>k\<close> of a block in memory is what the media holds for it.\<close>

definition synced :: "libfs \<Rightarrow> int \<Rightarrow> i64 \<Rightarrow> nat \<Rightarrow> bool" where
  "synced st type b k \<longleftrightarrow> (case metadata_area type of None \<Rightarrow> True
     | Some (base, unit, num) \<Rightarrow> byte_at (meta_mem type st b) k = nvm st (unat (base + b * unit) + k))"

lemma reload_nvm: "nvm (reload_record r st) = nvm st"
  by (simp add: reload_record_def Let_def split: sum.splits)

text \<open>Reloading a record stores the media image of exactly its bytes.\<close>

lemma reload_byte:
  assumes "metadata_location (tr_type r) (tr_block r) (tr_offset r) (tr_length r) = Inr loc" "tr_kind r = RECORD_CHANGE"
    "metadata_area t = Some (base, unit, num)"
  shows "byte_at (meta_mem t (reload_record r st) b) k =
    (if t = tr_type r \<and> b = tr_block r \<and> nat (tr_offset r) \<le> k \<and> k < nat (tr_offset r) + nat (tr_length r)
     then nvm st (unat (base + b * unit) + k) else byte_at (meta_mem t st b) k)"
proof -
  obtain base' unit' num' where a: "metadata_area (tr_type r) = Some (base', unit', num')"
      "unat loc = unat (base' + tr_block r * unit') + nat (tr_offset r)"
    using metadata_location_ok(5) [OF assms(1)] by blast
  have "tr_type r \<in> {0, 1, 2}" "t \<in> {0, 1, 2}" using a(1) assms(3) by (auto simp: metadata_area_def split: if_splits)
  then show ?thesis using assms a by (auto simp: reload_record_def meta_mem_def byte_blk_put Let_def)
qed

lemma reload_keeps: "synced st t b k \<Longrightarrow> synced (reload_record r st) t b k"
  by (cases "metadata_location (tr_type r) (tr_block r) (tr_offset r) (tr_length r)"; cases "tr_kind r = RECORD_CHANGE")
    (auto simp: synced_def reload_byte reload_nvm split: option.splits, auto simp: reload_record_def meta_mem_def)

lemma reload_each:
  assumes "r \<in> set rs" "tr_kind r = RECORD_CHANGE"
    "metadata_location (tr_type r) (tr_block r) (tr_offset r) (tr_length r) = Inr loc"
    "nat (tr_offset r) \<le> k" "k < nat (tr_offset r) + nat (tr_length r)"
  shows "synced (fold reload_record rs st) (tr_type r) (tr_block r) k"
  using assms(1)
proof (induction rs arbitrary: st)
  case (Cons q rs)
  have keep: "synced st t b k \<Longrightarrow> synced (fold reload_record rs st) t b k" for st t b
    by (induction rs arbitrary: st) (simp_all add: reload_keeps)
  have "synced (reload_record r st) (tr_type r) (tr_block r) k"
    using reload_byte [OF assms(3,2)] assms(4,5) by (auto simp: synced_def reload_nvm split: option.splits)
  then show ?case using Cons keep by auto
qed simp

lemma abort_sync_eq: "synced (orchfs_log_transaction_abort st current tx) t b k =
    synced (fold reload_record (tx_records tx) (if current then st\<lparr>cur_tx := None\<rparr> else st)) t b k"
  by (simp add: orchfs_log_transaction_abort_def synced_def meta_mem_def release_each_frame Let_def split: option.splits)

lemma abort_restores_facts:
  assumes "r \<in> set (tx_records tx)" "tr_kind r = RECORD_CHANGE"
    "metadata_location (tr_type r) (tr_block r) (tr_offset r) (tr_length r) = Inr loc"
    "nat (tr_offset r) \<le> k" "k < nat (tr_offset r) + nat (tr_length r)"
  shows "synced (orchfs_log_transaction_abort st current tx) (tr_type r) (tr_block r) k"
    "nvm (orchfs_log_transaction_abort st current tx) = nvm st"
proof -
  show "synced (orchfs_log_transaction_abort st current tx) (tr_type r) (tr_block r) k"
    unfolding abort_sync_eq by (rule reload_each [OF assms])
  have "nvm (fold reload_record rs s) = nvm s" for rs s by (induction rs arbitrary: s) (simp_all add: reload_nvm)
  then show "nvm (orchfs_log_transaction_abort st current tx) = nvm st"
    by (simp add: orchfs_log_transaction_abort_def release_each_frame Let_def)
qed

text \<open>C27. Aborting a transaction undoes its metadata changes: every byte of an inode, index node or virtual
  node that the transaction logged as changed holds, in memory, what the media holds for it again,
  and the media itself is not touched.\<close>
theorem abort_restores:
  assumes "r \<in> set (tx_records tx)" "tr_kind r = RECORD_CHANGE"
    "metadata_location (tr_type r) (tr_block r) (tr_offset r) (tr_length r) = Inr loc"
    "nat (tr_offset r) \<le> k" "k < nat (tr_offset r) + nat (tr_length r)"
  shows "synced (orchfs_log_transaction_abort st current tx) (tr_type r) (tr_block r) k \<and>
    nvm (orchfs_log_transaction_abort st current tx) = nvm st"
  using abort_restores_facts [OF assms] by blast

theorem abort_restores_witness:
  "synced (orchfs_log_transaction_abort demo_log False
      (tx_add_record empty_txn RECORD_CHANGE 3 1 (Some (\<lambda>_. 7)) 8 16)) 1 3 20"
  using abort_restores [of "\<lparr>tr_kind = RECORD_CHANGE, tr_block = 3, tr_type = 1, tr_offset = 8, tr_length = 16,
      tr_data = map (\<lambda>_. 7) [8..<24]\<rparr>" "tx_add_record empty_txn RECORD_CHANGE 3 1 (Some (\<lambda>_. 7)) 8 16" _ 20 demo_log False]
  by (simp add: tx_add_record_def empty_txn_def neg64_def metadata_location_def metadata_area_def layout_values)

end
