(* ===== verification/Range_Arbiter.thy ===== *)
theory Range_Arbiter
  imports Prelude
begin

text \<open>
  The range arbiter of the asynchronous layer (\<open>Async/range_arbiter.cpp\<close>): coroutines acquire
  byte ranges of a file for reading or writing.  The lists of active and waiting requests
  belong to one worker; other workers push requests into an inbox that the owner polls.

  A request object is named by a number; \<open>requests\<close> is the heap of request objects.  The runtime
  is not part of the model: \<open>events\<close> records the calls that schedule or pin a coroutine,
  and the result of a call into it is an argument.  \<open>terminated\<close> records \<open>std::terminate\<close>.
  Vectors grow without failing except where the code handles \<open>bad_alloc\<close> (argument \<open>oom\<close>).
\<close>

section \<open>Errors\<close>

datatype errc = runtime_stopping | runtime_already_exists | invalid_task | invalid_handle | already_consumed
  | join_from_worker | not_in_runtime | wrong_runtime | invalid_worker | pinned_to_worker | invalid_range

primrec errc_value :: "errc \<Rightarrow> int" where
  "errc_value runtime_stopping = 1"
| "errc_value runtime_already_exists = 2"
| "errc_value invalid_task = 3"
| "errc_value invalid_handle = 4"
| "errc_value already_consumed = 5"
| "errc_value join_from_worker = 6"
| "errc_value not_in_runtime = 7"
| "errc_value wrong_runtime = 8"
| "errc_value invalid_worker = 9"
| "errc_value pinned_to_worker = 10"
| "errc_value invalid_range = 11"

datatype error_category = generic_category | orchfs_async

type_synonym error_code = "int \<times> error_category"

definition make_error_code :: "errc \<Rightarrow> error_code" where
  "make_error_code e = (errc_value e, orchfs_async)"

section \<open>Data\<close>

datatype range_mode = read_mode | write_mode
datatype range_wait_phase = installing | parked | granted_phase
datatype range_operation = acquire_op | release_op

record resume_target =
  rt_runtime :: "nat option"
  rt_worker :: u64
  rt_pin_depth :: u32
  rt_owner :: bool

record range_request =
  first_block :: u64
  last_block :: u64
  rq_mode :: range_mode
  rq_coroutine :: nat
  rq_target :: resume_target
  rq_phase :: range_wait_phase
  rq_granted :: bool
  rq_error :: int
  rq_pin_applied :: bool
  rq_operation :: range_operation

datatype range_event = schedule_resume resume_target nat bool | register_pin nat resume_target | unregister_pin nat

record range_state =
  owner_runtime :: "nat option"
  owner_worker :: u64
  registered :: bool
  inbox :: "nat list"
  active :: "nat list"
  waiting :: "nat list"
  active_size :: nat
  waiting_size :: nat
  requests :: "nat \<Rightarrow> range_request"
  events :: "range_event list"
  terminated :: bool

abbreviation (input) no_worker :: u64 where "no_worker \<equiv> - 1"

definition overlaps :: "range_request \<Rightarrow> range_request \<Rightarrow> bool" where
  "overlaps left right \<longleftrightarrow> first_block left \<le> last_block right \<and> first_block right \<le> last_block left"

definition conflicts :: "range_request \<Rightarrow> range_request \<Rightarrow> bool" where
  "conflicts left right \<longleftrightarrow> overlaps left right \<and> (rq_mode left = write_mode \<or> rq_mode right = write_mode)"

definition new_state :: "nat option \<Rightarrow> u64 \<Rightarrow> range_state" where
  "new_state runtime worker =
     \<lparr>owner_runtime = runtime, owner_worker = worker, registered = False, inbox = [], active = [], waiting = [],
      active_size = 0, waiting_size = 0,
      requests = (\<lambda>_. \<lparr>first_block = 0, last_block = 0, rq_mode = read_mode, rq_coroutine = 0,
        rq_target = \<lparr>rt_runtime = None, rt_worker = no_worker, rt_pin_depth = 0, rt_owner = False\<rparr>,
        rq_phase = installing, rq_granted = False, rq_error = 0, rq_pin_applied = False, rq_operation = acquire_op\<rparr>),
      events = [], terminated = False\<rparr>"

definition upd_request :: "nat \<Rightarrow> (range_request \<Rightarrow> range_request) \<Rightarrow> range_state \<Rightarrow> range_state" where
  "upd_request r f st = st\<lparr>requests := (requests st)(r := f (requests st r))\<rparr>"

section \<open>The owner and its inbox\<close>

definition ensure_owner :: "range_state \<Rightarrow> nat \<Rightarrow> u64 \<Rightarrow> range_state \<times> error_code option" where
  "ensure_owner st runtime worker =
     (case owner_runtime st of
        None \<Rightarrow> (st\<lparr>owner_runtime := Some runtime, owner_worker := worker\<rparr>, None)
      | Some own \<Rightarrow> if own \<noteq> runtime then (st, Some (make_error_code wrong_runtime)) else (st, None))"

text \<open>\<open>answer\<close> is the error of the runtime's \<open>register_poller\<close>, if any.\<close>

definition ensure_poller :: "error_code option \<Rightarrow> range_state \<Rightarrow> range_state \<times> error_code option" where
  "ensure_poller answer st =
     (if registered st then (st, None)
      else case answer of Some err \<Rightarrow> (st, Some err) | None \<Rightarrow> (st\<lparr>registered := True\<rparr>, None))"

definition on_owner :: "resume_target \<Rightarrow> range_state \<Rightarrow> bool" where
  "on_owner here st \<longleftrightarrow> rt_runtime here = owner_runtime st \<and> rt_worker here = owner_worker st"

text \<open>The inbox is a stack; \<open>drain\<close> takes it all and reverses it in place.\<close>

fun drain_loop :: "nat list \<Rightarrow> nat list \<Rightarrow> nat list" where
  "drain_loop [] fifo = fifo"
| "drain_loop (node # stack) fifo = drain_loop stack (node # fifo)"

definition drain :: "range_state \<Rightarrow> nat list \<times> range_state" where
  "drain st = (drain_loop (inbox st) [], st\<lparr>inbox := []\<rparr>)"

definition enqueue :: "bool \<Rightarrow> nat \<Rightarrow> range_operation \<Rightarrow> range_state \<Rightarrow> range_state" where
  "enqueue notified r operation st =
     (let st = upd_request r (rq_operation_update (\<lambda>_. operation)) st;
          st = st\<lparr>inbox := r # inbox st\<rparr>
      in if \<not> notified then st\<lparr>terminated := True\<rparr> else st)"

section \<open>Waking\<close>

definition wake_completed :: "nat \<Rightarrow> range_state \<Rightarrow> range_state" where
  "wake_completed r st =
     (let phase = rq_phase (requests st r);
          st = upd_request r (rq_phase_update (\<lambda>_. granted_phase)) st;
          q = requests st r
      in if phase = installing then st
         else if phase \<noteq> parked then st\<lparr>terminated := True\<rparr>
         else st\<lparr>events := events st @ [schedule_resume (rq_target q) (rq_coroutine q) (rt_pin_depth (rq_target q) \<noteq> 0)]\<rparr>)"

definition pinned_target :: "range_state \<Rightarrow> resume_target \<Rightarrow> resume_target" where
  "pinned_target st target =
     (let target = (if rt_pin_depth target = 0 \<and> \<not> rt_owner target
                    then target\<lparr>rt_runtime := owner_runtime st, rt_worker := owner_worker st, rt_owner := True\<rparr> else target)
      in target\<lparr>rt_pin_depth := rt_pin_depth target + 1\<rparr>)"

definition wake_granted :: "nat \<Rightarrow> bool \<Rightarrow> nat option \<Rightarrow> range_state \<Rightarrow> range_state \<times> nat option" where
  "wake_granted r allow_direct direct st =
     (let phase = rq_phase (requests st r);
          st = upd_request r (\<lambda>q. q\<lparr>rq_granted := True, rq_phase := granted_phase\<rparr>) st
      in if phase = installing then (st, direct)
         else if phase \<noteq> parked then (st\<lparr>terminated := True\<rparr>, direct)
         else let target = pinned_target st (rq_target (requests st r));
                  co = rq_coroutine (requests st r);
                  st = upd_request r (\<lambda>q. q\<lparr>rq_target := target, rq_pin_applied := True\<rparr>) st;
                  st = st\<lparr>events := events st @ [register_pin co target]\<rparr>
              in if allow_direct \<and> direct = None \<and> rt_runtime target = owner_runtime st \<and> rt_worker target = owner_worker st
                 then (st, Some r)
                 else (st\<lparr>events := events st @ [schedule_resume target co True]\<rparr>, direct))"

section \<open>Granting\<close>

definition conflicts_with_active :: "range_state \<Rightarrow> range_request \<Rightarrow> bool" where
  "conflicts_with_active st q \<longleftrightarrow> list_ex (\<lambda>other. conflicts q (requests st other)) (active st)"

definition can_grant_immediately :: "range_state \<Rightarrow> range_request \<Rightarrow> bool" where
  "can_grant_immediately st q \<longleftrightarrow>
     \<not> conflicts_with_active st q \<and> \<not> list_ex (\<lambda>waiter. conflicts q (requests st waiter)) (waiting st)"

text \<open>The loop over \<open>waiting\<close>: \<open>kept\<close> is what the iterator has passed, the other list what is ahead.\<close>

fun grant_loop :: "bool \<Rightarrow> nat list \<Rightarrow> nat list \<Rightarrow> nat option \<Rightarrow> range_state \<Rightarrow> range_state \<times> nat option" where
  "grant_loop allow_direct kept [] direct st = (st, direct)"
| "grant_loop allow_direct kept (r # ahead) direct st =
     (let q = requests st r in
      if conflicts_with_active st q \<or> list_ex (\<lambda>earlier. conflicts q (requests st earlier)) kept
      then grant_loop allow_direct (kept @ [r]) ahead direct st
      else let st = st\<lparr>active := active st @ [r], waiting := kept @ ahead\<rparr>
           in (case wake_granted r allow_direct direct st of (st, direct) \<Rightarrow> grant_loop allow_direct kept ahead direct st))"

definition grant_waiters :: "bool \<Rightarrow> range_state \<Rightarrow> range_state \<times> nat option" where
  "grant_waiters allow_direct st =
     (case grant_loop allow_direct [] (waiting st) None st of
        (st, direct) \<Rightarrow> (st\<lparr>active_size := length (active st), waiting_size := length (waiting st)\<rparr>, direct))"

datatype acquire_result = acq_granted | acq_waiting | acq_failed

definition acquire_on_owner :: "resume_target \<Rightarrow> bool \<Rightarrow> nat \<Rightarrow> range_state \<Rightarrow> range_state \<times> acquire_result" where
  "acquire_on_owner here oom r st =
     (if \<not> on_owner here st then (st\<lparr>terminated := True\<rparr>, acq_failed)
      else if oom then (wake_completed r (upd_request r (rq_error_update (\<lambda>_. ENOMEM)) st), acq_failed)
      else if can_grant_immediately st (requests st r)
      then let st = st\<lparr>active := active st @ [r]\<rparr>;
               st = st\<lparr>active_size := length (active st)\<rparr>
           in (fst (wake_granted r False None st), acq_granted)
      else let st = st\<lparr>waiting := waiting st @ [r]\<rparr>
           in (st\<lparr>waiting_size := length (waiting st)\<rparr>, acq_waiting))"

section \<open>Releasing\<close>

definition release_on_owner :: "resume_target \<Rightarrow> nat \<Rightarrow> range_state \<Rightarrow> range_state \<times> nat option \<times> error_code option" where
  "release_on_owner here r st =
     (if \<not> on_owner here st then (st\<lparr>terminated := True\<rparr>, None, None)
      else if r \<notin> set (active st) then (st, None, Some (make_error_code invalid_handle))
      else let st = st\<lparr>active := remove1 r (active st)\<rparr>;
               st = st\<lparr>active_size := length (active st)\<rparr>
           in (case grant_waiters True st of (st, direct) \<Rightarrow> (st, direct, None)))"

definition release_from_queue :: "nat \<Rightarrow> range_state \<Rightarrow> range_state" where
  "release_from_queue r st =
     (let st = (if r \<notin> set (active st)
                then upd_request r (rq_error_update (\<lambda>_. fst (make_error_code invalid_handle))) st
                else let st = st\<lparr>active := remove1 r (active st)\<rparr>;
                         st = st\<lparr>active_size := length (active st)\<rparr>
                     in fst (grant_waiters False st))
      in wake_completed r st)"

text \<open>One request taken from the inbox, and a whole poll.\<close>

definition poll_item :: "resume_target \<Rightarrow> bool \<Rightarrow> nat \<Rightarrow> range_state \<Rightarrow> range_state" where
  "poll_item here oom r st =
     (if rq_operation (requests st r) = acquire_op then fst (acquire_on_owner here oom r st) else release_from_queue r st)"

definition poll_once :: "resume_target \<Rightarrow> range_state \<Rightarrow> range_state \<times> bool" where
  "poll_once here st =
     (case drain st of (fifo, st) \<Rightarrow>
        if fifo = [] then (st, False) else (fold (poll_item here False) fifo st, True))"

section \<open>Awaiters\<close>

abbreviation (input) granularity :: u64 where "granularity \<equiv> 32768"

definition new_request :: "u64 \<Rightarrow> u64 \<Rightarrow> range_mode \<Rightarrow> error_code + range_request" where
  "new_request offset len mode =
     (if len = 0 \<or> - 1 - (len - 1) < offset then Inl (make_error_code invalid_range)
      else Inr \<lparr>first_block = offset div granularity, last_block = (offset + len - 1) div granularity, rq_mode = mode,
        rq_coroutine = 0, rq_target = \<lparr>rt_runtime = None, rt_worker = no_worker, rt_pin_depth = 0, rt_owner = False\<rparr>,
        rq_phase = installing, rq_granted = False, rq_error = 0, rq_pin_applied = False, rq_operation = acquire_op\<rparr>)"

text \<open>What an awaiter does next: return to its coroutine, perhaps with an error, or publish that it is
  parked; \<open>symmetric\<close> transfers control to another coroutine.\<close>

datatype submitted = continue_with "error_code option" | must_park | symmetric nat

definition acquire_submit ::
  "resume_target \<Rightarrow> error_code option \<Rightarrow> bool \<Rightarrow> bool \<Rightarrow> nat \<Rightarrow> nat \<Rightarrow> range_state \<Rightarrow> range_state \<times> submitted" where
  "acquire_submit here answer notified oom coroutine r st =
     (case rt_runtime here of
        None \<Rightarrow> (st, continue_with (Some (make_error_code not_in_runtime)))
      | Some runtime \<Rightarrow>
          if rt_worker here = no_worker then (st, continue_with (Some (make_error_code not_in_runtime)))
          else (case ensure_owner st runtime (rt_worker here) of
             (st, Some err) \<Rightarrow> (st, continue_with (Some err))
           | (st, None) \<Rightarrow>
               let st = upd_request r (\<lambda>q. q\<lparr>rq_coroutine := coroutine, rq_target := here\<rparr>) st in
               if on_owner here st
               then (case acquire_on_owner here oom r st of
                       (st, res) \<Rightarrow> (st, if res = acq_waiting then must_park else continue_with None))
               else (case ensure_poller answer st of
                       (st, Some err) \<Rightarrow> (st, continue_with (Some err))
                     | (st, None) \<Rightarrow> (enqueue notified r acquire_op st, must_park))))"

text \<open>The last step of both awaiters; the result tells whether the coroutine stays suspended.\<close>

definition park :: "nat \<Rightarrow> range_state \<Rightarrow> range_state \<times> bool" where
  "park r st =
     (let phase = rq_phase (requests st r);
          st = upd_request r (rq_phase_update (\<lambda>_. parked)) st
      in if phase = granted_phase then (st, False)
         else if phase \<noteq> installing then (st\<lparr>terminated := True\<rparr>, True)
         else (st, True))"

definition acquire_resume :: "resume_target \<Rightarrow> nat \<Rightarrow> range_state \<Rightarrow> range_state \<times> error_code option" where
  "acquire_resume here r st =
     (let q = requests st r in
      if rq_error q \<noteq> 0 then (st, Some (rq_error q, generic_category))
      else if \<not> rq_granted q then (st, Some (make_error_code invalid_handle))
      else if \<not> rq_pin_applied q
      then let st = st\<lparr>events := events st @ [register_pin (rq_coroutine q) (here\<lparr>rt_pin_depth := rt_pin_depth here + 1\<rparr>)]\<rparr>
           in (upd_request r (rq_pin_applied_update (\<lambda>_. True)) st, None)
      else (st, None))"

definition release_submit ::
  "resume_target \<Rightarrow> error_code option \<Rightarrow> bool \<Rightarrow> nat \<Rightarrow> nat \<Rightarrow> range_state \<Rightarrow> range_state \<times> submitted" where
  "release_submit here answer notified releaser r st =
     (case (if on_owner here st then (st, None) else ensure_poller answer st) of
        (st, Some err) \<Rightarrow> (st, continue_with (Some err))
      | (st, None) \<Rightarrow>
          if rt_pin_depth here = 0 then (st\<lparr>terminated := True\<rparr>, continue_with None)
          else let here = here\<lparr>rt_pin_depth := rt_pin_depth here - 1\<rparr>;
                   st = st\<lparr>events := events st @ [unregister_pin releaser]\<rparr>;
                   st = upd_request r (\<lambda>q. q\<lparr>rq_coroutine := releaser, rq_target := here, rq_phase := installing, rq_error := 0\<rparr>) st
               in if on_owner here st
                  then (case release_on_owner here r st of
                          (st, _, Some err) \<Rightarrow> (st, continue_with (Some err))
                        | (st, None, None) \<Rightarrow> (st, continue_with None)
                        | (st, Some direct, None) \<Rightarrow>
                            (st\<lparr>events := events st @ [schedule_resume here releaser (rt_pin_depth here \<noteq> 0)]\<rparr>, symmetric direct))
                  else (enqueue notified r release_op st, must_park))"

definition release_resume :: "error_code option \<Rightarrow> nat \<Rightarrow> range_state \<Rightarrow> error_code option" where
  "release_resume err r st =
     (case err of Some e \<Rightarrow> Some e
      | None \<Rightarrow> if rq_error (requests st r) \<noteq> 0 then Some (rq_error (requests st r), generic_category) else None)"

definition block_count :: "range_request \<Rightarrow> u64" where
  "block_count q = last_block q - first_block q + 1"

section \<open>Byte ranges\<close>

lemma drain_loop_rev: "drain_loop stack fifo = rev stack @ fifo"
  by (induction stack fifo rule: drain_loop.induct) simp_all

text \<open>A request covers every byte of its range, and its bounds do not wrap.\<close>

lemma new_request_covers:
  assumes "new_request offset len mode = Inr q"
  shows "unat offset + unat len \<le> 18446744073709551616" "0 < unat len"
    "unat (first_block q) = unat offset div 32768" "unat (last_block q) = (unat offset + unat len - 1) div 32768"
    "rq_mode q = mode"
proof -
  have l: "len \<noteq> 0" "offset \<le> - 1 - (len - 1)" and q: "first_block q = offset div granularity"
      "last_block q = (offset + len - 1) div granularity" "rq_mode q = mode"
    using assms by (auto simp: new_request_def split: if_splits)
  show "rq_mode q = mode" by (rule q)
  have u: "unat len \<noteq> 0" using l(1) by (simp add: unat_eq_0)
  then show "0 < unat len" by simp
  have "unat (len - 1) = unat len - 1" using u by (subst unat_sub64) (simp_all add: word_le_nat_alt)
  moreover have "unat (- 1 - (len - 1)) = unat (- 1 :: u64) - unat (len - 1)"
    by (rule unat_sub64) (simp add: word_order.extremum)
  moreover have "unat (- 1 :: u64) = 18446744073709551615" by (simp add: unsigned_minus_1_eq_mask mask_eq_exp_minus_1)
  ultimately have b: "unat offset \<le> 18446744073709551615 - (unat len - 1)" using l(2) by (simp add: word_le_nat_alt)
  then show s: "unat offset + unat len \<le> 18446744073709551616" using u unat_lt64 [of len] by linarith
  have "unat (offset + (len - 1)) = unat offset + unat (len - 1)"
    by (rule unat_add64) (use s u \<open>unat (len - 1) = unat len - 1\<close> in simp)
  then have "unat (offset + len - 1) = unat offset + unat len - 1"
    using \<open>unat (len - 1) = unat len - 1\<close> u by (simp add: add_diff_eq)
  then show "unat (first_block q) = unat offset div 32768" "unat (last_block q) = (unat offset + unat len - 1) div 32768"
    by (simp_all add: q unat_div)
qed

lemma overlaps_sym: "overlaps a b = overlaps b a"
  by (auto simp: overlaps_def)

lemma conflicts_sym: "conflicts a b = conflicts b a"
  by (auto simp: conflicts_def overlaps_sym)

lemma shared_byte_overlaps:
  assumes "new_request o1 l1 m1 = Inr q1" "new_request o2 l2 m2 = Inr q2"
    "unat o1 \<le> b" "b < unat o1 + unat l1" "unat o2 \<le> b" "b < unat o2 + unat l2"
  shows "overlaps q1 q2"
proof -
  have "unat o1 div 32768 \<le> b div 32768" "unat o2 div 32768 \<le> b div 32768"
    "b div 32768 \<le> (unat o1 + unat l1 - 1) div 32768" "b div 32768 \<le> (unat o2 + unat l2 - 1) div 32768"
    using assms(3-6) by (auto intro!: div_le_mono)
  then show ?thesis
    using new_request_covers [OF assms(1)] new_request_covers [OF assms(2)] by (simp add: overlaps_def word_le_nat_alt)
qed

end
