(* ===== verification/Range_Grant.thy ===== *)
theory Range_Grant
  imports Range_Arbiter "HOL-Library.Multiset"
begin

text \<open>
  The queue discipline of the range arbiter: which waiters a release grants, and the invariant of
  the active and waiting lists.  Active requests never conflict; every waiting request conflicts
  with an active one or with one that waits longer, so that nobody overtakes a conflicting
  request and nobody waits without a reason.
\<close>

section \<open>Lists without conflicts\<close>

definition exclusive :: "(nat \<Rightarrow> nat \<Rightarrow> bool) \<Rightarrow> nat list \<Rightarrow> bool" where
  "exclusive cf act \<longleftrightarrow> (\<forall>a \<in> set act. \<forall>b \<in> set act. a \<noteq> b \<longrightarrow> \<not> cf a b)"

fun blocked :: "(nat \<Rightarrow> nat \<Rightarrow> bool) \<Rightarrow> nat list \<Rightarrow> nat list \<Rightarrow> nat list \<Rightarrow> bool" where
  "blocked cf act kept [] = True"
| "blocked cf act kept (w # ws) =
     (((\<exists>a \<in> set act. cf w a) \<or> (\<exists>e \<in> set kept. cf w e)) \<and> blocked cf act (kept @ [w]) ws)"

lemma blocked_append: "blocked cf act kept (us @ ws) = (blocked cf act kept us \<and> blocked cf act (kept @ us) ws)"
  by (induction us arbitrary: kept) auto

lemma blocked_nth:
  "blocked cf act kept ws \<Longrightarrow> i < length ws \<Longrightarrow> (\<exists>a \<in> set act. cf (ws ! i) a) \<or> (\<exists>e \<in> set kept. cf (ws ! i) e) \<or> (\<exists>j < i. cf (ws ! i) (ws ! j))"
proof (induction ws arbitrary: kept i)
  case (Cons w ws)
  show ?case
  proof (cases i)
    case 0
    then show ?thesis using Cons.prems by auto
  next
    case (Suc k)
    then show ?thesis using Cons.IH [of "kept @ [w]" k] Cons.prems by fastforce
  qed
qed simp

lemma blocked_mono: "blocked cf act kept ws \<Longrightarrow> set act \<subseteq> set act' \<Longrightarrow> blocked cf act' kept ws"
  by (induction ws arbitrary: kept) auto

lemma blocked_cong:
  "(\<And>x y. x \<in> set act \<union> set kept \<union> set ws \<Longrightarrow> y \<in> set act \<union> set kept \<union> set ws \<Longrightarrow> cf x y = cf' x y) \<Longrightarrow>
    blocked cf act kept ws = blocked cf' act kept ws"
proof (induction ws arbitrary: kept)
  case (Cons w ws)
  have "blocked cf act (kept @ [w]) ws = blocked cf' act (kept @ [w]) ws"
    by (rule Cons.IH) (use Cons.prems in auto)
  moreover have "cf w x = cf' w x" if "x \<in> set act \<union> set kept" for x using Cons.prems that by auto
  ultimately show ?case by auto
qed simp

text \<open>The waiters that the granting loop picks, and those it leaves.\<close>

fun pick :: "(nat \<Rightarrow> nat \<Rightarrow> bool) \<Rightarrow> nat list \<Rightarrow> nat list \<Rightarrow> nat list \<Rightarrow> nat list \<times> nat list" where
  "pick cf act kept [] = ([], kept)"
| "pick cf act kept (r # ahead) =
     (if (\<exists>a \<in> set act. cf r a) \<or> (\<exists>e \<in> set kept. cf r e) then pick cf act (kept @ [r]) ahead
      else case pick cf (act @ [r]) kept ahead of (gs, ws) \<Rightarrow> (r # gs, ws))"

lemma pick_perm: "pick cf act kept ahead = (gs, ws) \<Longrightarrow> mset gs + mset ws = mset kept + mset ahead"
  by (induction cf act kept ahead arbitrary: gs ws rule: pick.induct) (auto split: if_splits prod.splits)

lemma pick_sets:
  assumes "pick cf act kept ahead = (gs, ws)"
  shows "set gs \<union> set ws = set kept \<union> set ahead"
proof -
  have "set_mset (mset gs + mset ws) = set_mset (mset kept + mset ahead)" using pick_perm [OF assms] by simp
  then show ?thesis by simp
qed

lemma pick_granted: "pick cf act kept ahead = (gs, ws) \<Longrightarrow> set gs \<subseteq> set ahead"
  by (induction cf act kept ahead arbitrary: gs ws rule: pick.induct) (auto split: if_splits prod.splits)

lemma pick_exclusive:
  "pick cf act kept ahead = (gs, ws) \<Longrightarrow> exclusive cf act \<Longrightarrow> (\<And>a b. cf a b = cf b a) \<Longrightarrow> exclusive cf (act @ gs)"
proof (induction cf act kept ahead arbitrary: gs ws rule: pick.induct)
  case (2 cf act kept r ahead)
  show ?case
  proof (cases "(\<exists>a \<in> set act. cf r a) \<or> (\<exists>e \<in> set kept. cf r e)")
    case True
    then show ?thesis using 2 by simp
  next
    case False
    then obtain gs' where g: "pick cf (act @ [r]) kept ahead = (gs', ws)" "gs = r # gs'"
      using "2.prems"(1) by (auto split: prod.splits)
    have "\<not> cf a r" if "a \<in> set act" for a using False that "2.prems"(3) by metis
    then have "exclusive cf (act @ [r])" using False "2.prems"(2) by (auto simp: exclusive_def)
    then show ?thesis using "2.IH"(2) [OF False g(1)] "2.prems"(3) g(2) by simp
  qed
qed simp

lemma pick_blocked:
  "pick cf act kept ahead = (gs, ws) \<Longrightarrow> blocked cf act [] kept \<Longrightarrow> blocked cf (act @ gs) [] ws"
proof (induction cf act kept ahead arbitrary: gs ws rule: pick.induct)
  case (2 cf act kept r ahead)
  show ?case
  proof (cases "(\<exists>a \<in> set act. cf r a) \<or> (\<exists>e \<in> set kept. cf r e)")
    case True
    then have "blocked cf act [] (kept @ [r])" using "2.prems"(2) by (simp add: blocked_append)
    then show ?thesis using "2.IH"(1) [OF True] "2.prems"(1) True by simp
  next
    case False
    then obtain gs' where g: "pick cf (act @ [r]) kept ahead = (gs', ws)" "gs = r # gs'"
      using "2.prems"(1) by (auto split: prod.splits)
    have "blocked cf (act @ [r]) [] kept" using "2.prems"(2) by (rule blocked_mono) auto
    then show ?thesis using "2.IH"(2) [OF False g(1)] g(2) by simp
  qed
qed simp

text \<open>The first waiter is picked as soon as no active request conflicts with it.\<close>

lemma pick_first: "\<not> (\<exists>a \<in> set act. cf r a) \<Longrightarrow> pick cf act [] (r # ahead) = (gs, ws) \<Longrightarrow> r \<in> set gs"
  by (auto split: prod.splits)

section \<open>The granting loop\<close>

definition cf_of :: "range_state \<Rightarrow> nat \<Rightarrow> nat \<Rightarrow> bool" where
  "cf_of st a b = conflicts (requests st a) (requests st b)"

lemma cf_of_sym: "cf_of st a b = cf_of st b a"
  by (simp add: cf_of_def conflicts_sym)

lemma cf_of_lists [simp]:
  "cf_of (active_update f st) = cf_of st" "cf_of (waiting_update g st) = cf_of st" "cf_of (active_size_update h st) = cf_of st"
  "cf_of (waiting_size_update h st) = cf_of st" "cf_of (inbox_update f st) = cf_of st" "cf_of (events_update e st) = cf_of st"
  by (simp_all add: cf_of_def fun_eq_iff)

definition same_range :: "range_request \<Rightarrow> range_request \<Rightarrow> bool" where
  "same_range p q \<longleftrightarrow> first_block p = first_block q \<and> last_block p = last_block q \<and> rq_mode p = rq_mode q"

lemma cf_of_same:
  "same_range (requests st' a) (requests st a) \<Longrightarrow> same_range (requests st' b) (requests st b) \<Longrightarrow> cf_of st' a b = cf_of st a b"
  by (simp add: cf_of_def conflicts_def overlaps_def same_range_def)

definition pending :: "nat \<Rightarrow> range_state \<Rightarrow> nat" where
  "pending c st = length (filter (\<lambda>e. case e of schedule_resume t c' b \<Rightarrow> c' = c | _ \<Rightarrow> False) (events st))"

text \<open>What waking one request does: nothing to the others, and the request is granted; a parked
  one is scheduled once or handed over directly.\<close>

definition woken :: "nat set \<Rightarrow> nat option \<Rightarrow> range_state \<Rightarrow> range_state \<Rightarrow> bool" where
  "woken G direct st st' \<longleftrightarrow>
     (\<forall>r. r \<notin> G \<longrightarrow> requests st' r = requests st r \<and> pending r st' = pending r st) \<and>
     (\<forall>r \<in> G. same_range (requests st' r) (requests st r) \<and> rq_coroutine (requests st' r) = rq_coroutine (requests st r) \<and>
        rq_error (requests st' r) = rq_error (requests st r) \<and> rq_operation (requests st' r) = rq_operation (requests st r) \<and>
        rq_granted (requests st' r) \<and> rq_phase (requests st' r) = granted_phase \<and>
        pending r st' = pending r st + (if rq_phase (requests st r) = parked \<and> direct \<noteq> Some r then 1 else 0)) \<and>
     terminated st' = terminated st \<and> inbox st' = inbox st \<and> owner_runtime st' = owner_runtime st \<and>
     owner_worker st' = owner_worker st \<and> registered st' = registered st"

lemma pending_append:
  "pending c (st\<lparr>events := events st @ es\<rparr>) =
    pending c st + length (filter (\<lambda>e. case e of schedule_resume t c' b \<Rightarrow> c' = c | _ \<Rightarrow> False) es)"
  by (simp add: pending_def)

lemma pending_cong: "events st' = events st \<Longrightarrow> pending c st' = pending c st"
  by (simp add: pending_def)

lemma wake_granted_woken:
  assumes "wake_granted r allow_direct direct st = (st', direct')" "rq_phase (requests st r) \<noteq> granted_phase"
    "rq_coroutine (requests st r) = r" "direct \<noteq> Some r"
  shows "woken {r} direct' st st'" "active st' = active st" "waiting st' = waiting st"
    "direct' = direct \<or> direct = None \<and> direct' = Some r \<and> rq_phase (requests st r) = parked \<and> allow_direct"
    "active_size st' = active_size st" "waiting_size st' = waiting_size st"
proof -
  consider (installing) "rq_phase (requests st r) = installing" | (parked) "rq_phase (requests st r) = parked"
    using assms(2) by (cases "rq_phase (requests st r)") auto
  then have "woken {r} direct' st st' \<and> active st' = active st \<and> waiting st' = waiting st \<and>
    (direct' = direct \<or> direct = None \<and> direct' = Some r \<and> rq_phase (requests st r) = parked \<and> allow_direct) \<and>
    active_size st' = active_size st \<and> waiting_size st' = waiting_size st"
  proof cases
    case installing
    then show ?thesis
      using assms by (auto simp: wake_granted_def upd_request_def woken_def same_range_def pending_def Let_def)
  next
    case parked
    then show ?thesis
      using assms by (auto simp: wake_granted_def upd_request_def woken_def same_range_def pending_def Let_def split: if_splits)
  qed
  then show "woken {r} direct' st st'" "active st' = active st" "waiting st' = waiting st"
    "direct' = direct \<or> direct = None \<and> direct' = Some r \<and> rq_phase (requests st r) = parked \<and> allow_direct"
    "active_size st' = active_size st" "waiting_size st' = waiting_size st" by simp_all
qed

lemma woken_empty: "woken {} d st st"
  by (simp add: woken_def)

lemma woken_trans:
  assumes "woken G d st st1" "woken H e st1 st2" "G \<inter> H = {}" "\<And>r. r \<in> G \<Longrightarrow> (d = Some r) = (e = Some r)"
  shows "woken (G \<union> H) e st st2"
  unfolding woken_def
proof (intro conjI allI ballI impI)
  fix r
  assume "r \<notin> G \<union> H"
  then show "requests st2 r = requests st r" "pending r st2 = pending r st" using assms(1,2) by (simp_all add: woken_def)
next
  fix r
  assume r: "r \<in> G \<union> H"
  show "same_range (requests st2 r) (requests st r)" "rq_coroutine (requests st2 r) = rq_coroutine (requests st r)"
    "rq_error (requests st2 r) = rq_error (requests st r)" "rq_operation (requests st2 r) = rq_operation (requests st r)"
    "rq_granted (requests st2 r)" "rq_phase (requests st2 r) = granted_phase"
    "pending r st2 = pending r st + (if rq_phase (requests st r) = parked \<and> e \<noteq> Some r then 1 else 0)"
    using r assms by (cases "r \<in> G"; auto simp: woken_def)+
qed (use assms in \<open>simp_all add: woken_def\<close>)

lemma woken_cf: "woken G d st st' \<Longrightarrow> cf_of st' a b = cf_of st a b"
  by (rule cf_of_same) (auto simp: woken_def same_range_def)

lemma cf_of_woken: "woken G d st st' \<Longrightarrow> cf_of st' = cf_of st"
  by (intro ext) (rule woken_cf)

lemma grant_loop_spec:
  assumes "grant_loop allow_direct kept ahead direct st = (st', direct')" "waiting st = kept @ ahead" "distinct ahead"
    "\<forall>r \<in> set ahead. rq_phase (requests st r) \<noteq> granted_phase \<and> rq_coroutine (requests st r) = r \<and> direct \<noteq> Some r"
    "pick (cf_of st) (active st) kept ahead = (gs, ws)"
  shows "woken (set gs) direct' st st' \<and> active st' = active st @ gs \<and> waiting st' = ws \<and>
    (direct' = direct \<or> (\<exists>d \<in> set gs. direct = None \<and> direct' = Some d \<and> rq_phase (requests st d) = parked \<and> allow_direct))"
  using assms
proof (induction ahead arbitrary: kept direct st gs)
  case Nil
  then show ?case by (auto simp: woken_empty)
next
  case (Cons r ahead)
  have b: "(\<exists>a \<in> set (active st). cf_of st r a) \<or> (\<exists>e \<in> set kept. cf_of st r e) \<longleftrightarrow>
      conflicts_with_active st (requests st r) \<or> list_ex (\<lambda>earlier. conflicts (requests st r) (requests st earlier)) kept"
    by (auto simp: cf_of_def conflicts_with_active_def list_ex_iff)
  show ?case
  proof (cases "conflicts_with_active st (requests st r) \<or> list_ex (\<lambda>earlier. conflicts (requests st r) (requests st earlier)) kept")
    case True
    then have "grant_loop allow_direct (kept @ [r]) ahead direct st = (st', direct')" using Cons.prems(1) by simp
    moreover have "pick (cf_of st) (active st) (kept @ [r]) ahead = (gs, ws)"
      using Cons.prems(5) True unfolding b [symmetric] by simp
    ultimately show ?thesis using Cons.IH [of "kept @ [r]"] Cons.prems by simp
  next
    case False
    let ?st = "st\<lparr>active := active st @ [r], waiting := kept @ ahead\<rparr>"
    obtain st1 direct1 where w: "wake_granted r allow_direct direct ?st = (st1, direct1)" by fastforce
    have "rq_phase (requests ?st r) \<noteq> granted_phase" "rq_coroutine (requests ?st r) = r" "direct \<noteq> Some r"
      using Cons.prems(4) by simp_all
    note wg = wake_granted_woken [OF w this]
    have w1: "woken {r} direct1 st st1" using wg(1) by (simp add: woken_def pending_def)
    obtain gs1 where g: "pick (cf_of st) (active st @ [r]) kept ahead = (gs1, ws)" "gs = r # gs1"
      using Cons.prems(5) False unfolding b [symmetric] by (auto split: prod.splits)
    have "pick (cf_of st1) (active st1) kept ahead = (gs1, ws)"
      using g(1) cf_of_woken [OF w1] wg(2) by simp
    moreover have "grant_loop allow_direct kept ahead direct1 st1 = (st', direct')" using Cons.prems(1) False w by simp
    moreover have "\<forall>q \<in> set ahead. rq_phase (requests st1 q) \<noteq> granted_phase \<and> rq_coroutine (requests st1 q) = q \<and> direct1 \<noteq> Some q"
      using Cons.prems(3,4) w1 wg(4) by (auto simp: woken_def)
    ultimately have ih: "woken (set gs1) direct' st1 st' \<and> active st' = active st1 @ gs1 \<and> waiting st' = ws \<and>
        (direct' = direct1 \<or> (\<exists>d \<in> set gs1. direct1 = None \<and> direct' = Some d \<and> rq_phase (requests st1 d) = parked \<and> allow_direct))"
      using Cons.IH [of kept direct1 st1 gs1] Cons.prems(2,3) wg(3) by simp
    have "r \<notin> set gs1" using pick_granted [OF g(1)] Cons.prems(3) by auto
    then have "woken (set gs) direct' st st'"
      using woken_trans [OF w1, of "set gs1" direct' st'] ih g(2) by auto
    moreover have "rq_phase (requests st d) = parked" if "d \<in> set gs1" "rq_phase (requests st1 d) = parked" for d
      using that w1 \<open>r \<notin> set gs1\<close> by (auto simp: woken_def)
    ultimately show ?thesis using ih wg(2,4) g(2) by auto
  qed
qed

section \<open>The invariant of the lists\<close>

definition queue_inv :: "range_state \<Rightarrow> bool" where
  "queue_inv st \<longleftrightarrow> distinct (active st @ waiting st) \<and> exclusive (cf_of st) (active st) \<and>
     blocked (cf_of st) (active st) [] (waiting st) \<and> active_size st = length (active st) \<and> waiting_size st = length (waiting st)"

definition waitable :: "range_state \<Rightarrow> nat \<Rightarrow> bool" where
  "waitable st r \<longleftrightarrow> rq_phase (requests st r) \<noteq> granted_phase \<and> rq_coroutine (requests st r) = r"

lemma exclusive_subset: "exclusive cf act \<Longrightarrow> set act' \<subseteq> set act \<Longrightarrow> exclusive cf act'"
  by (auto simp: exclusive_def)

lemma grant_waiters_spec:
  assumes "grant_waiters allow_direct st = (st', direct)" "distinct (active st @ waiting st)" "exclusive (cf_of st) (active st)"
    "\<forall>r \<in> set (waiting st). waitable st r"
  obtains gs where "woken (set gs) direct st st'" "active st' = active st @ gs" "set gs \<subseteq> set (waiting st)"
    "set (waiting st') = set (waiting st) - set gs" "queue_inv st'"
    "direct = None \<or> (\<exists>d \<in> set gs. direct = Some d \<and> rq_phase (requests st d) = parked \<and> allow_direct)"
    "waiting st \<noteq> [] \<Longrightarrow> \<not> conflicts_with_active st (requests st (hd (waiting st))) \<Longrightarrow> hd (waiting st) \<in> set gs"
proof -
  obtain gs ws where p: "pick (cf_of st) (active st) [] (waiting st) = (gs, ws)" by fastforce
  obtain st1 where l: "grant_loop allow_direct [] (waiting st) None st = (st1, direct)"
      "st' = st1\<lparr>active_size := length (active st1), waiting_size := length (waiting st1)\<rparr>"
    using assms(1) by (auto simp: grant_waiters_def split: prod.splits)
  have sp: "woken (set gs) direct st st1" "active st1 = active st @ gs" "waiting st1 = ws"
      "direct = None \<or> (\<exists>d \<in> set gs. direct = Some d \<and> rq_phase (requests st d) = parked \<and> allow_direct)"
    using grant_loop_spec [OF l(1) _ _ _ p] assms(2,4) by (auto simp: waitable_def)
  have w: "woken (set gs) direct st st'" using sp(1) by (simp add: l(2) woken_def pending_def)
  note cf = cf_of_woken [OF sp(1)]
  have pm: "mset gs + mset ws = mset (waiting st)" using pick_perm [OF p] by simp
  have "distinct (active st @ gs @ ws)"
  proof -
    have "mset (active st @ gs @ ws) = mset (active st @ waiting st)" using pm by simp
    then show ?thesis using assms(2) by (metis mset_eq_imp_distinct_iff)
  qed
  moreover have "exclusive (cf_of st) (active st @ gs)" by (rule pick_exclusive [OF p assms(3) cf_of_sym])
  moreover have "blocked (cf_of st) (active st @ gs) [] ws" by (rule pick_blocked [OF p]) simp
  ultimately have q: "queue_inv st'" using sp(2,3) by (simp add: queue_inv_def cf l(2))
  have "set gs \<inter> set ws = {}" using \<open>distinct (active st @ gs @ ws)\<close> by auto
  then have s: "set ws = set (waiting st) - set gs" "set gs \<subseteq> set (waiting st)" using pick_sets [OF p] by auto
  have "hd (waiting st) \<in> set gs" if "waiting st \<noteq> []" "\<not> conflicts_with_active st (requests st (hd (waiting st)))"
  proof -
    have "pick (cf_of st) (active st) [] (hd (waiting st) # tl (waiting st)) = (gs, ws)" using p that(1) by simp
    moreover have "\<not> (\<exists>a \<in> set (active st). cf_of st (hd (waiting st)) a)"
      using that(2) by (simp add: conflicts_with_active_def cf_of_def list_ex_iff)
    ultimately show ?thesis using pick_first by blast
  qed
  then show thesis using that [of gs] w q s sp by (simp add: l(2))
qed

text \<open>Releasing keeps the invariant and hands the range on.\<close>

lemma release_spec:
  assumes "queue_inv st" "r \<in> set (active st)" "\<forall>q \<in> set (waiting st). waitable st q"
    "grant_waiters allow_direct (st\<lparr>active := remove1 r (active st), active_size := n\<rparr>) = (st', direct)"
  obtains gs where "woken (set gs) direct st st'" "set (active st') = set (active st) - {r} \<union> set gs" "set gs \<subseteq> set (waiting st)"
    "set (waiting st') = set (waiting st) - set gs" "queue_inv st'"
    "direct = None \<or> (\<exists>d \<in> set gs. direct = Some d \<and> rq_phase (requests st d) = parked \<and> allow_direct)"
    "waiting st \<noteq> [] \<Longrightarrow> \<forall>a \<in> set (active st) - {r}. \<not> conflicts (requests st (hd (waiting st))) (requests st a) \<Longrightarrow>
      hd (waiting st) \<in> set gs"
proof -
  let ?st = "st\<lparr>active := remove1 r (active st), active_size := n\<rparr>"
  have cf: "cf_of ?st = cf_of st" by (simp add: cf_of_def fun_eq_iff)
  have d: "distinct (active st)" "distinct (waiting st)" "set (active st) \<inter> set (waiting st) = {}"
    using assms(1) by (auto simp: queue_inv_def)
  then have a: "set (active ?st) = set (active st) - {r}" by simp
  have "distinct (active ?st @ waiting ?st)" using d a by (simp add: distinct_remove1) blast
  moreover have "exclusive (cf_of ?st) (active ?st)"
    unfolding cf using assms(1) a by (auto simp: queue_inv_def intro: exclusive_subset)
  moreover have "\<forall>q \<in> set (waiting ?st). waitable ?st q" using assms(3) by (simp add: waitable_def)
  ultimately obtain gs where g: "woken (set gs) direct ?st st'" "active st' = active ?st @ gs" "set gs \<subseteq> set (waiting ?st)"
    "set (waiting st') = set (waiting ?st) - set gs" "queue_inv st'"
    "direct = None \<or> (\<exists>d \<in> set gs. direct = Some d \<and> rq_phase (requests ?st d) = parked \<and> allow_direct)"
    "waiting ?st \<noteq> [] \<Longrightarrow> \<not> conflicts_with_active ?st (requests ?st (hd (waiting ?st))) \<Longrightarrow> hd (waiting ?st) \<in> set gs"
    using grant_waiters_spec [OF assms(4)] by metis
  have "hd (waiting st) \<in> set gs" if "waiting st \<noteq> []"
    "\<forall>a \<in> set (active st) - {r}. \<not> conflicts (requests st (hd (waiting st))) (requests st a)"
    using g(7) that d(1) by (simp add: conflicts_with_active_def list_ex_iff)
  then show thesis using that [of gs] g a by (simp add: woken_def pending_def)
qed

text \<open>Granting or queueing a new request keeps the invariant.\<close>

lemma blocked_tail: "blocked cf act [] (ws @ [r]) \<longleftrightarrow> blocked cf act [] ws \<and> ((\<exists>a \<in> set act. cf r a) \<or> (\<exists>e \<in> set ws. cf r e))"
  by (auto simp: blocked_append)

lemma acquire_spec:
  assumes "acquire_on_owner here oom r st = (st', res)" "queue_inv st" "r \<notin> set (active st) \<union> set (waiting st)" "waitable st r"
    "on_owner here st"
  obtains
    (granted) "res = acq_granted" "\<not> oom" "woken {r} None st st'" "active st' = active st @ [r]" "waiting st' = waiting st" "queue_inv st'"
  | (waiting) "res = acq_waiting" "\<not> oom" "woken {} None st st'" "active st' = active st" "waiting st' = waiting st @ [r]" "queue_inv st'"
  | (failed) "res = acq_failed" "oom" "st' = wake_completed r (upd_request r (rq_error_update (\<lambda>_. ENOMEM)) st)"
proof -
  consider "oom" | "\<not> oom" "can_grant_immediately st (requests st r)" | "\<not> oom" "\<not> can_grant_immediately st (requests st r)" by blast
  then show thesis
  proof cases
    case 1
    then show thesis using assms(1,5) failed by (simp add: acquire_on_owner_def)
  next
    case 2
    let ?st = "st\<lparr>active := active st @ [r], active_size := length (active st @ [r])\<rparr>"
    obtain st1 d where w: "wake_granted r False None ?st = (st1, d)" by fastforce
    have e: "st1 = st'" "res = acq_granted" using assms(1,5) 2 w by (simp_all add: acquire_on_owner_def Let_def)
    have "rq_phase (requests ?st r) \<noteq> granted_phase" "rq_coroutine (requests ?st r) = r" using assms(4) by (simp_all add: waitable_def)
    note wg = wake_granted_woken [OF w this, simplified]
    have w1: "woken {r} None st st'" using wg(1,4) e by (auto simp: woken_def pending_def)
    have n: "\<not> cf_of st r x" if "x \<in> set (active st) \<union> set (waiting st)" for x
      using 2(2) that by (auto simp: can_grant_immediately_def conflicts_with_active_def cf_of_def list_ex_iff)
    then have "exclusive (cf_of st) (active st @ [r])" using assms(2) cf_of_sym by (auto simp: exclusive_def queue_inv_def)
    moreover have "blocked (cf_of st) (active st @ [r]) [] (waiting st)"
      by (rule blocked_mono [of _ "active st"]) (use assms(2) in \<open>auto simp: queue_inv_def\<close>)
    ultimately have "queue_inv st'"
      using wg e assms(2,3) by (auto simp: queue_inv_def cf_of_woken [OF w1])
    then show thesis using granted 2(1) e w1 wg by simp
  next
    case 3
    have e: "res = acq_waiting" "st' = st\<lparr>waiting := waiting st @ [r], waiting_size := length (waiting st @ [r])\<rparr>"
      using assms(1,5) 3 by (simp_all add: acquire_on_owner_def Let_def)
    have "(\<exists>x \<in> set (active st). cf_of st r x) \<or> (\<exists>x \<in> set (waiting st). cf_of st r x)"
      using 3(2) by (auto simp: can_grant_immediately_def conflicts_with_active_def cf_of_def list_ex_iff)
    moreover have "cf_of st' = cf_of st" by (simp add: e(2) cf_of_def fun_eq_iff)
    ultimately have "queue_inv st'" using assms(2,3) by (auto simp: e(2) queue_inv_def blocked_tail)
    then show thesis using waiting 3(1) e by (simp add: woken_def pending_def)
  qed
qed

section \<open>Changes that concern one request\<close>

definition only :: "nat \<Rightarrow> range_state \<Rightarrow> range_state \<Rightarrow> bool" where
  "only r a a' \<longleftrightarrow> active a' = active a \<and> waiting a' = waiting a \<and> active_size a' = active_size a \<and> waiting_size a' = waiting_size a \<and>
     inbox a' = inbox a \<and> terminated a' = terminated a \<and>
     (\<forall>x. x \<noteq> r \<longrightarrow> requests a' x = requests a x \<and> pending x a' = pending x a) \<and>
     (same_range (requests a' r) (requests a r) \<or> r \<notin> set (active a) \<union> set (waiting a))"

lemma only_queue: 
  assumes "only r a a'" "queue_inv a"
  shows "queue_inv a'"
proof -
  have c: "cf_of a' x y = cf_of a x y" if "x \<in> set (active a) \<union> set (waiting a)" "y \<in> set (active a) \<union> set (waiting a)" for x y
    by (rule cf_of_same) (use assms(1) that in \<open>auto simp: only_def same_range_def\<close>)
  have "exclusive (cf_of a') (active a) = exclusive (cf_of a) (active a)" using c by (auto simp: exclusive_def)
  moreover have "blocked (cf_of a') (active a) [] (waiting a) = blocked (cf_of a) (active a) [] (waiting a)"
    by (rule blocked_cong) (use c in auto)
  ultimately show ?thesis using assms by (simp add: queue_inv_def only_def)
qed

lemma upd_only: "(\<And>q. same_range (f q) q) \<Longrightarrow> only r a (upd_request r f a)"
  by (auto simp: only_def upd_request_def pending_def)

lemma only_trans: "only r a b \<Longrightarrow> only r b c \<Longrightarrow> only r a c"
  by (auto simp: only_def same_range_def)

lemma wake_completed_only:
  assumes "rq_phase (requests a r) \<noteq> granted_phase" "rq_coroutine (requests a r) = r"
  shows "only r a (wake_completed r a)" "rq_phase (requests (wake_completed r a) r) = granted_phase"
    "pending r (wake_completed r a) = pending r a + (if rq_phase (requests a r) = parked then 1 else 0)"
    "rq_error (requests (wake_completed r a) r) = rq_error (requests a r)"
    "rq_coroutine (requests (wake_completed r a) r) = r"
  using assms by (cases "rq_phase (requests a r)";
      auto simp: wake_completed_def only_def upd_request_def same_range_def pending_def Let_def)+

lemma park_only:
  assumes "park r a = (a', stays)" "rq_phase (requests a r) \<noteq> parked"
  shows "only r a a'" "stays \<longleftrightarrow> rq_phase (requests a r) = installing" "requests a' r = (requests a r)\<lparr>rq_phase := parked\<rparr>"
    "pending r a' = pending r a"
  using assms by (cases "rq_phase (requests a r)";
      auto simp: park_def only_def upd_request_def same_range_def pending_def Let_def)+

end
