(* ===== verification/Range_Protocol.thy ===== *)
theory Range_Protocol
  imports Range_Grant
begin

text \<open>
  The range arbiter under concurrency.  Every coroutine that uses the arbiter is a client, named like
  its request; a step is one atomic action of a client, of the owner's poll loop or of the runtime that
  resumes a scheduled coroutine, and steps interleave freely.  Between submitting a request and
  publishing that it is parked a client can be overtaken by the owner.

  The model lets the owner act between any two steps, and the runtime accepts every
  notification; resuming a coroutine that is not suspended counts as termination.
\<close>

section \<open>Clients\<close>

datatype client = Idle | Submitted | Suspended | Holding | Failed | Releasing | ReleaseSuspended | Leaked | Done

record world =
  arb :: range_state
  clients :: "nat \<Rightarrow> client"
  fifo :: "nat list"

definition set_client :: "nat \<Rightarrow> client \<Rightarrow> range_state \<Rightarrow> world \<Rightarrow> world" where
  "set_client r c a w = w\<lparr>arb := a, clients := (clients w)(r := c)\<rparr>"

definition settle :: "resume_target \<Rightarrow> nat \<Rightarrow> range_state \<Rightarrow> world \<Rightarrow> world" where
  "settle here r a w = (case acquire_resume here r a of (a, err) \<Rightarrow> set_client r (if err = None then Holding else Failed) a w)"

definition after_submit :: "resume_target \<Rightarrow> nat \<Rightarrow> range_state \<times> submitted \<Rightarrow> world \<Rightarrow> world" where
  "after_submit here r res w =
     (case res of
        (a, continue_with None) \<Rightarrow> settle here r a w
      | (a, continue_with (Some _)) \<Rightarrow> set_client r Failed a w
      | (a, _) \<Rightarrow> set_client r Submitted a w)"

definition after_release :: "nat \<Rightarrow> range_state \<times> submitted \<Rightarrow> world \<Rightarrow> world" where
  "after_release r res w =
     (case res of
        (a, continue_with None) \<Rightarrow> set_client r Done a w
      | (a, continue_with (Some _)) \<Rightarrow> set_client r Leaked a w
      | (a, must_park) \<Rightarrow> set_client r Releasing a w
      | (a, symmetric d) \<Rightarrow> settle (rq_target (requests a d)) d a (set_client r ReleaseSuspended a w))"

definition resumed :: "resume_target \<Rightarrow> nat \<Rightarrow> world \<Rightarrow> world" where
  "resumed here r w =
     (case clients w r of
        Suspended \<Rightarrow> settle here r (arb w) w
      | ReleaseSuspended \<Rightarrow> set_client r Done (arb w) w
      | _ \<Rightarrow> w\<lparr>arb := (arb w)\<lparr>terminated := True\<rparr>\<rparr>)"

definition new_world :: "nat option \<Rightarrow> u64 \<Rightarrow> world" where
  "new_world runtime worker = \<lparr>arb = new_state runtime worker, clients = (\<lambda>_. Idle), fifo = []\<rparr>"

inductive arb_step :: "world \<Rightarrow> world \<Rightarrow> bool" where
  submit: "clients w r = Idle \<Longrightarrow> new_request offset len mode = Inr q \<Longrightarrow>
    arb_step w (after_submit here r
      (acquire_submit here answer True oom r r ((arb w)\<lparr>requests := (requests (arb w))(r := q)\<rparr>)) w)"
| park: "clients w r = Submitted \<Longrightarrow> park r (arb w) = (a, stays) \<Longrightarrow>
    arb_step w (if stays then set_client r Suspended a w else settle here r a w)"
| drain: "fifo w = [] \<Longrightarrow> drain (arb w) = (rs, a) \<Longrightarrow> arb_step w (w\<lparr>fifo := rs, arb := a\<rparr>)"
| item: "fifo w = r # rs \<Longrightarrow> on_owner here (arb w) \<Longrightarrow> arb_step w (w\<lparr>fifo := rs, arb := poll_item here oom r (arb w)\<rparr>)"
| run: "events (arb w) = xs @ schedule_resume here r b # ys \<Longrightarrow>
    arb_step w (resumed here r (w\<lparr>arb := (arb w)\<lparr>events := xs @ ys\<rparr>\<rparr>))"
| release: "clients w r = Holding \<Longrightarrow> rt_pin_depth here \<noteq> 0 \<Longrightarrow>
    arb_step w (after_release r (release_submit here answer True r r (arb w)) w)"
| release_park: "clients w r = Releasing \<Longrightarrow> park r (arb w) = (a, stays) \<Longrightarrow>
    arb_step w (set_client r (if stays then ReleaseSuspended else Done) a w)"

inductive_cases arb_stepE: "arb_step w w'"

definition reachable :: "world \<Rightarrow> bool" where
  "reachable w \<longleftrightarrow> (\<exists>runtime worker. arb_step\<^sup>*\<^sup>* (new_world runtime worker) w)"

section \<open>What each client state means\<close>

text \<open>The arguments are whether the request is active, waiting and queued, the request, and the number of
  resumptions that are scheduled for its coroutine.\<close>

definition in_line :: "bool \<Rightarrow> bool \<Rightarrow> bool \<Rightarrow> range_request \<Rightarrow> range_wait_phase \<Rightarrow> bool" where
  "in_line act wait que q ph \<longleftrightarrow> \<not> act \<and> (wait \<and> \<not> que \<or> \<not> wait \<and> que \<and> rq_operation q = acquire_op) \<and> rq_phase q = ph \<and> rq_error q = 0"

definition served :: "bool \<Rightarrow> bool \<Rightarrow> bool \<Rightarrow> range_request \<Rightarrow> bool" where
  "served act wait que q \<longleftrightarrow> act \<and> \<not> wait \<and> \<not> que \<and> rq_granted q \<and> rq_error q = 0"

definition refused :: "bool \<Rightarrow> bool \<Rightarrow> bool \<Rightarrow> range_request \<Rightarrow> bool" where
  "refused act wait que q \<longleftrightarrow> \<not> act \<and> \<not> wait \<and> \<not> que \<and> rq_error q \<noteq> 0"

definition leaving :: "bool \<Rightarrow> bool \<Rightarrow> bool \<Rightarrow> range_request \<Rightarrow> range_wait_phase \<Rightarrow> bool" where
  "leaving act wait que q ph \<longleftrightarrow> act \<and> \<not> wait \<and> que \<and> rq_operation q = release_op \<and> rq_phase q = ph \<and> rq_error q = 0"

fun client_ok :: "client \<Rightarrow> bool \<Rightarrow> bool \<Rightarrow> bool \<Rightarrow> range_request \<Rightarrow> nat \<Rightarrow> bool" where
  "client_ok Idle act wait que q n = (\<not> act \<and> \<not> wait \<and> \<not> que \<and> n = 0)"
| "client_ok Submitted act wait que q n =
     (n = 0 \<and> (in_line act wait que q installing \<or> (served act wait que q \<or> refused act wait que q) \<and> rq_phase q = granted_phase))"
| "client_ok Suspended act wait que q n =
     (in_line act wait que q parked \<and> n = 0 \<or> (served act wait que q \<or> refused act wait que q) \<and> n = 1)"
| "client_ok Holding act wait que q n = (served act wait que q \<and> n = 0)"
| "client_ok Leaked act wait que q n = (served act wait que q \<and> n = 0)"
| "client_ok Failed act wait que q n = (\<not> act \<and> \<not> wait \<and> \<not> que \<and> n = 0)"
| "client_ok Releasing act wait que q n =
     (n = 0 \<and> (leaving act wait que q installing \<or> \<not> act \<and> \<not> wait \<and> \<not> que \<and> rq_phase q = granted_phase \<and> rq_error q = 0))"
| "client_ok ReleaseSuspended act wait que q n =
     (leaving act wait que q parked \<and> n = 0 \<or> \<not> act \<and> \<not> wait \<and> \<not> que \<and> n = 1 \<and> rq_error q = 0)"
| "client_ok Done act wait que q n = (\<not> act \<and> \<not> wait \<and> \<not> que \<and> n = 0)"

lemmas place_defs = in_line_def served_def refused_def leaving_def

definition queued :: "world \<Rightarrow> nat set" where
  "queued w = set (inbox (arb w)) \<union> set (fifo w)"

definition view_ok :: "world \<Rightarrow> nat \<Rightarrow> bool" where
  "view_ok w r \<longleftrightarrow> client_ok (clients w r) (r \<in> set (active (arb w))) (r \<in> set (waiting (arb w))) (r \<in> queued w)
     (requests (arb w) r) (pending r (arb w)) \<and> (clients w r \<notin> {Idle, Failed, Done} \<longrightarrow> rq_coroutine (requests (arb w) r) = r)"

definition arb_inv :: "world \<Rightarrow> bool" where
  "arb_inv w \<longleftrightarrow> queue_inv (arb w) \<and> distinct (inbox (arb w) @ fifo w) \<and> \<not> terminated (arb w) \<and> (\<forall>r. view_ok w r)"

lemma view_cong:
  assumes "view_ok w r" "clients w' r = clients w r" "r \<in> set (active (arb w')) \<longleftrightarrow> r \<in> set (active (arb w))"
    "r \<in> set (waiting (arb w')) \<longleftrightarrow> r \<in> set (waiting (arb w))" "r \<in> queued w' \<longleftrightarrow> r \<in> queued w"
    "requests (arb w') r = requests (arb w) r" "pending r (arb w') = pending r (arb w)"
  shows "view_ok w' r"
  using assms by (simp add: view_ok_def)

text \<open>Waiting clients can be woken.\<close>

lemma inv_waitable:
  assumes "arb_inv w" "r \<in> set (waiting (arb w))"
  shows "waitable (arb w) r" "clients w r = Submitted \<or> clients w r = Suspended" "pending r (arb w) = 0"
    "rq_error (requests (arb w) r) = 0" "r \<notin> queued w" "rq_phase (requests (arb w) r) = parked \<longleftrightarrow> clients w r = Suspended"
proof -
  have v: "view_ok w r" using assms(1) by (simp add: arb_inv_def)
  then show "waitable (arb w) r" "clients w r = Submitted \<or> clients w r = Suspended" "pending r (arb w) = 0"
    "rq_error (requests (arb w) r) = 0" "r \<notin> queued w" "rq_phase (requests (arb w) r) = parked \<longleftrightarrow> clients w r = Suspended"
    using assms(2) by (cases "clients w r"; auto simp: view_ok_def place_defs waitable_def)+
qed

text \<open>A waiter that is granted, not directly, is in order afterwards.\<close>

lemma granted_view:
  assumes "arb_inv w" "g \<in> set (waiting (arb w))" "woken G direct (arb w) a" "g \<in> G" "direct \<noteq> Some g"
    "clients w' g = clients w g" "arb w' = a" "g \<in> set (active a)" "g \<notin> set (waiting a)" "g \<notin> queued w'"
  shows "view_ok w' g"
proof -
  note i = inv_waitable [OF assms(1,2)]
  have "rq_coroutine (requests (arb w) g) = g" using i(1) by (simp add: waitable_def)
  then show ?thesis using i assms(3-10) by (auto simp: view_ok_def place_defs woken_def)
qed

section \<open>Steps that concern one client\<close>

text \<open>The invariant for everybody but one client.\<close>

definition inv_but :: "nat \<Rightarrow> world \<Rightarrow> bool" where
  "inv_but r w \<longleftrightarrow> queue_inv (arb w) \<and> distinct (inbox (arb w) @ fifo w) \<and> \<not> terminated (arb w) \<and> (\<forall>x. x \<noteq> r \<longrightarrow> view_ok w x)"

lemma only_inv: "inv_but r (w\<lparr>arb := a\<rparr>) \<Longrightarrow> only r a a' \<Longrightarrow> inv_but r (w\<lparr>arb := a'\<rparr>)"
  using only_queue [of r a a'] by (auto simp: inv_but_def only_def view_ok_def queued_def)

lemma set_client_inv:
  assumes "inv_but r (w\<lparr>arb := a\<rparr>)" "c \<notin> {Idle, Failed, Done} \<longrightarrow> rq_coroutine (requests a r) = r"
    "client_ok c (r \<in> set (active a)) (r \<in> set (waiting a)) (r \<in> queued (w\<lparr>arb := a\<rparr>)) (requests a r) (pending r a)"
  shows "arb_inv (set_client r c a w)"
  using assms by (auto simp: arb_inv_def inv_but_def set_client_def view_ok_def queued_def)

lemma acquire_resume_only:
  assumes "acquire_resume here r a = (a', err)"
  shows "only r a a'" "pending r a' = pending r a" "err = None \<longleftrightarrow> rq_error (requests a r) = 0 \<and> rq_granted (requests a r)"
    "rq_error (requests a' r) = rq_error (requests a r)" "rq_granted (requests a' r) = rq_granted (requests a r)"
    "rq_coroutine (requests a' r) = rq_coroutine (requests a r)"
  using assms by (auto simp: acquire_resume_def only_def upd_request_def same_range_def pending_def Let_def split: if_splits)

lemma settle_inv:
  assumes "inv_but r (w\<lparr>arb := a\<rparr>)" "rq_coroutine (requests a r) = r" "pending r a = 0"
    "served (r \<in> set (active a)) (r \<in> set (waiting a)) (r \<in> queued (w\<lparr>arb := a\<rparr>)) (requests a r) \<or>
     refused (r \<in> set (active a)) (r \<in> set (waiting a)) (r \<in> queued (w\<lparr>arb := a\<rparr>)) (requests a r)"
  shows "arb_inv (settle here r a w)"
proof -
  obtain a' err where ar: "acquire_resume here r a = (a', err)" by fastforce
  note o = acquire_resume_only [OF ar]
  have s: "active a' = active a" "waiting a' = waiting a" "queued (w\<lparr>arb := a'\<rparr>) = queued (w\<lparr>arb := a\<rparr>)"
    using o(1) by (simp_all add: only_def queued_def)
  have "client_ok (if err = None then Holding else Failed) (r \<in> set (active a')) (r \<in> set (waiting a'))
      (r \<in> queued (w\<lparr>arb := a'\<rparr>)) (requests a' r) (pending r a')"
    using assms(3,4) o(2-5) s by (auto simp: place_defs)
  then show ?thesis
    using set_client_inv [OF only_inv [OF assms(1) o(1)]] assms(2) o(6) by (simp add: settle_def ar)
qed

lemma inv_butI: "arb_inv w \<Longrightarrow> inv_but r (w\<lparr>arb := arb w\<rparr>)"
  by (simp add: arb_inv_def inv_but_def)

lemma inv_view: "arb_inv w \<Longrightarrow> view_ok w r"
  by (simp add: arb_inv_def)

text \<open>Publishing that a client is parked.\<close>

lemma park_step:
  assumes "arb_inv w" "clients w r = Submitted" "park r (arb w) = (a, stays)"
  shows "arb_inv (if stays then set_client r Suspended a w else settle here r a w)"
proof -
  have v: "view_ok w r" by (rule inv_view [OF assms(1)])
  then have "rq_phase (requests (arb w) r) \<noteq> parked" using assms(2) by (auto simp: view_ok_def place_defs)
  note p = park_only [OF assms(3) this]
  note i = only_inv [OF inv_butI [OF assms(1)] p(1)]
  have s: "active a = active (arb w)" "waiting a = waiting (arb w)" "queued (w\<lparr>arb := a\<rparr>) = queued w"
    using p(1) by (simp_all add: only_def queued_def)
  show ?thesis
  proof (cases stays)
    case True
    then show ?thesis using set_client_inv [OF i] v p s assms(2) by (auto simp: view_ok_def place_defs)
  next
    case False
    then show ?thesis using settle_inv [OF i] v p s assms(2) by (auto simp: view_ok_def place_defs)
  qed
qed

lemma release_park_step:
  assumes "arb_inv w" "clients w r = Releasing" "park r (arb w) = (a, stays)"
  shows "arb_inv (set_client r (if stays then ReleaseSuspended else Done) a w)"
proof -
  have v: "view_ok w r" by (rule inv_view [OF assms(1)])
  then have "rq_phase (requests (arb w) r) \<noteq> parked" using assms(2) by (auto simp: view_ok_def place_defs)
  note p = park_only [OF assms(3) this]
  note i = only_inv [OF inv_butI [OF assms(1)] p(1)]
  have s: "active a = active (arb w)" "waiting a = waiting (arb w)" "queued (w\<lparr>arb := a\<rparr>) = queued w"
    using p(1) by (simp_all add: only_def queued_def)
  show ?thesis using set_client_inv [OF i] v p s assms(2) by (auto simp: view_ok_def place_defs)
qed

lemma drain_step:
  assumes "arb_inv w" "fifo w = []" "drain (arb w) = (rs, a)"
  shows "arb_inv (w\<lparr>fifo := rs, arb := a\<rparr>)"
proof -
  have e: "rs = rev (inbox (arb w))" "a = (arb w)\<lparr>inbox := []\<rparr>" using assms(3) by (simp_all add: drain_def drain_loop_rev)
  have "queue_inv a = queue_inv (arb w)" by (simp add: e queue_inv_def)
  then show ?thesis using assms(1,2) by (simp add: e arb_inv_def view_ok_def queued_def pending_def)
qed

lemma run_step:
  assumes "arb_inv w" "events (arb w) = xs @ schedule_resume here r b # ys"
  shows "arb_inv (resumed here r (w\<lparr>arb := (arb w)\<lparr>events := xs @ ys\<rparr>\<rparr>))"
proof -
  let ?a = "(arb w)\<lparr>events := xs @ ys\<rparr>" and ?w = "w\<lparr>arb := (arb w)\<lparr>events := xs @ ys\<rparr>\<rparr>"
  have n: "pending r (arb w) = Suc (pending r ?a)" using assms(2) by (simp add: pending_def)
  have o: "only r (arb w) ?a" using assms(2) by (simp add: only_def pending_def same_range_def)
  have v: "view_ok w r" by (rule inv_view [OF assms(1)])
  have q: "queued (w\<lparr>arb := ?a\<rparr>) = queued w" by (simp add: queued_def)
  have i: "inv_but r (?w\<lparr>arb := ?a\<rparr>)" using only_inv [OF inv_butI [OF assms(1)] o] by simp
  from v n consider "clients w r = Suspended" | "clients w r = ReleaseSuspended"
    by (cases "clients w r") (auto simp: view_ok_def)
  then show ?thesis
  proof cases
    case 1
    have "arb_inv (settle here r ?a ?w)"
      by (rule settle_inv [OF i]) (use v n q 1 in \<open>auto simp: view_ok_def place_defs\<close>)
    then show ?thesis by (simp add: resumed_def 1)
  next
    case 2
    have "arb_inv (set_client r Done ?a ?w)"
      by (rule set_client_inv [OF i]) (use v n q 2 in \<open>auto simp: view_ok_def place_defs\<close>)
    then show ?thesis by (simp add: resumed_def 2)
  qed
qed

text \<open>Waking waiters: the others are as before, those granted are in order.\<close>

lemma woken_views:
  assumes "arb_inv w" "woken (set gs) direct (arb w) a" "set (active a) = set (active (arb w)) - D \<union> set gs"
    "set gs \<subseteq> set (waiting (arb w))" "set (waiting a) = set (waiting (arb w)) - set gs" "D \<subseteq> {r}"
    "arb w' = a" "clients w' = clients w" "queued w' = queued w - {r}" "x \<noteq> r" "direct \<noteq> Some x" "r \<notin> set gs" "queue_inv a"
  shows "view_ok w' x"
proof (cases "x \<in> set gs")
  case True
  have "x \<in> set (waiting (arb w))" using True assms(4) by blast
  then show ?thesis
    using inv_waitable(5) [OF assms(1)] True assms(3,5,7-12)
    by (intro granted_view [OF assms(1) _ assms(2)]) auto
next
  case False
  then show ?thesis
    using assms(2-12) by (intro view_cong [OF inv_view [OF assms(1), of x]]) (auto simp: woken_def)
qed

lemma inv_distinct: "arb_inv w \<Longrightarrow> set (active (arb w)) \<inter> set (waiting (arb w)) = {}"
  by (auto simp: arb_inv_def queue_inv_def)

text \<open>The owner grants, queues or refuses a request \<open>r\<close> that is in no list.\<close>

abbreviation placed :: "(bool \<Rightarrow> bool \<Rightarrow> bool \<Rightarrow> range_request \<Rightarrow> 'b) \<Rightarrow> nat \<Rightarrow> world \<Rightarrow> 'b" where
  "placed P r w \<equiv> P (r \<in> set (active (arb w))) (r \<in> set (waiting (arb w))) (r \<in> queued w) (requests (arb w) r)"

lemma woken_others:
  assumes i: "inv_but r (w\<lparr>arb := a\<rparr>)" and wk: "woken G d a a'" "G \<subseteq> {r}" and q: "queue_inv a'"
    and m: "\<And>x. x \<noteq> r \<Longrightarrow> x \<in> set (active a') \<longleftrightarrow> x \<in> set (active a)" "\<And>x. x \<noteq> r \<Longrightarrow> x \<in> set (waiting a') \<longleftrightarrow> x \<in> set (waiting a)"
  shows "inv_but r (w\<lparr>arb := a'\<rparr>)" "queued (w\<lparr>arb := a'\<rparr>) = queued (w\<lparr>arb := a\<rparr>)"
proof -
  show s: "queued (w\<lparr>arb := a'\<rparr>) = queued (w\<lparr>arb := a\<rparr>)" using wk(1) by (simp add: queued_def woken_def)
  have "view_ok (w\<lparr>arb := a'\<rparr>) x" if "x \<noteq> r" for x
  proof (rule view_cong [of "w\<lparr>arb := a\<rparr>"])
    show "view_ok (w\<lparr>arb := a\<rparr>) x" using i that by (simp add: inv_but_def)
    have "x \<notin> G" using wk(2) that by blast
    then show "requests (arb (w\<lparr>arb := a'\<rparr>)) x = requests (arb (w\<lparr>arb := a\<rparr>)) x"
      "pending x (arb (w\<lparr>arb := a'\<rparr>)) = pending x (arb (w\<lparr>arb := a\<rparr>))" using wk(1) by (simp_all add: woken_def)
  qed (use m that s in simp_all)
  then show "inv_but r (w\<lparr>arb := a'\<rparr>)" using i wk(1) q by (simp add: inv_but_def woken_def)
qed

definition answered :: "world \<Rightarrow> range_state \<Rightarrow> range_state \<Rightarrow> nat \<Rightarrow> acquire_result \<Rightarrow> bool" where
  "answered w a a' r res \<longleftrightarrow> inv_but r (w\<lparr>arb := a'\<rparr>) \<and> rq_coroutine (requests a' r) = r \<and>
     (if res = acq_waiting
      then placed in_line r (w\<lparr>arb := a'\<rparr>) (rq_phase (requests a r)) \<and> pending r a' = pending r a
      else (placed served r (w\<lparr>arb := a'\<rparr>) \<or> placed refused r (w\<lparr>arb := a'\<rparr>)) \<and> rq_phase (requests a' r) = granted_phase \<and>
           pending r a' = pending r a + (if rq_phase (requests a r) = parked then 1 else 0))"

lemma owner_acquire:
  assumes i: "inv_but r (w\<lparr>arb := a\<rparr>)" and acq: "acquire_on_owner here oom r a = (a', res)" and own: "on_owner here a"
    and out: "r \<notin> set (active a) \<union> set (waiting a)" "r \<notin> queued (w\<lparr>arb := a\<rparr>)"
    and q: "rq_coroutine (requests a r) = r" "rq_phase (requests a r) \<noteq> granted_phase" "rq_error (requests a r) = 0"
  shows "answered w a a' r res"
proof -
  have qi: "queue_inv a" using i by (simp add: inv_but_def)
  have wt: "waitable a r" using q by (simp add: waitable_def)
  show ?thesis
  proof (rule acquire_spec [OF acq qi out(1) wt own])
    assume g: "res = acq_granted" "woken {r} None a a'" "active a' = active a @ [r]" "waiting a' = waiting a" "queue_inv a'"
    note o = woken_others [OF i g(2) _ g(5)]
    have "placed served r (w\<lparr>arb := a'\<rparr>)" using g o(2) out q by (simp add: served_def woken_def)
    then show ?thesis using o g q by (simp add: answered_def woken_def)
  next
    assume g: "res = acq_waiting" "woken {} None a a'" "active a' = active a" "waiting a' = waiting a @ [r]" "queue_inv a'"
    note o = woken_others [OF i g(2) _ g(5)]
    have "placed in_line r (w\<lparr>arb := a'\<rparr>) (rq_phase (requests a r))" using g o(2) out q by (simp add: in_line_def woken_def)
    then show ?thesis using o g q by (simp add: answered_def woken_def)
  next
    assume f: "res = acq_failed" "a' = wake_completed r (upd_request r (rq_error_update (\<lambda>_. ENOMEM)) a)"
    let ?e = "upd_request r (rq_error_update (\<lambda>_. ENOMEM)) a"
    have e: "rq_error (requests ?e r) = ENOMEM" "pending r ?e = pending r a" "rq_phase (requests ?e r) = rq_phase (requests a r)"
        "rq_coroutine (requests ?e r) = r"
      using q(1) by (simp_all add: upd_request_def pending_def)
    have "only r a ?e" by (rule upd_only) (simp add: same_range_def)
    moreover have "rq_phase (requests ?e r) \<noteq> granted_phase" using q(2) e(3) by simp
    note wc = wake_completed_only [OF this e(4)]
    ultimately have oo: "only r a a'" using f(2) only_trans by metis
    then have "placed refused r (w\<lparr>arb := a'\<rparr>)" using out f(2) wc(4) e(1) by (simp add: refused_def only_def queued_def)
    then show ?thesis using f wc e only_inv [OF i oo] by (simp add: answered_def)
  qed
qed

lemma enqueue_inv:
  assumes i: "inv_but r (w\<lparr>arb := c\<rparr>)" and out: "r \<notin> queued (w\<lparr>arb := c\<rparr>)"
  shows "inv_but r (w\<lparr>arb := enqueue True r op c\<rparr>)"
    "active (enqueue True r op c) = active c" "waiting (enqueue True r op c) = waiting c"
    "pending r (enqueue True r op c) = pending r c" "r \<in> queued (w\<lparr>arb := enqueue True r op c\<rparr>)"
    "requests (enqueue True r op c) r = (requests c r)\<lparr>rq_operation := op\<rparr>"
proof -
  define u where "u = upd_request r (rq_operation_update (\<lambda>_. op)) c"
  have e: "enqueue True r op c = u\<lparr>inbox := r # inbox u\<rparr>" by (simp add: enqueue_def u_def Let_def)
  have "only r c u" unfolding u_def by (rule upd_only) (simp add: same_range_def)
  note j = only_inv [OF i this]
  have u: "active u = active c" "waiting u = waiting c" "inbox u = inbox c" "pending x u = pending x c"
    "requests u r = (requests c r)\<lparr>rq_operation := op\<rparr>" for x
    by (simp_all add: u_def upd_request_def pending_def)
  show "active (enqueue True r op c) = active c" "waiting (enqueue True r op c) = waiting c"
    "pending r (enqueue True r op c) = pending r c" "r \<in> queued (w\<lparr>arb := enqueue True r op c\<rparr>)"
    "requests (enqueue True r op c) r = (requests c r)\<lparr>rq_operation := op\<rparr>"
    using u by (simp_all add: e queued_def pending_def)
  have "queue_inv (u\<lparr>inbox := r # inbox u\<rparr>) = queue_inv u" by (simp add: queue_inv_def)
  moreover have "view_ok (w\<lparr>arb := u\<lparr>inbox := r # inbox u\<rparr>\<rparr>) x" if "x \<noteq> r" for x
  proof (rule view_cong [of "w\<lparr>arb := u\<rparr>"])
    show "view_ok (w\<lparr>arb := u\<rparr>) x" using j that by (simp add: inv_but_def)
  qed (use that in \<open>simp_all add: queued_def pending_def\<close>)
  ultimately show "inv_but r (w\<lparr>arb := enqueue True r op c\<rparr>)"
    using j out u(3) by (simp add: inv_but_def e queued_def)
qed

text \<open>A request that is in no list yet is submitted, on the owner's worker or through the inbox.\<close>

lemma refuse_inv:
  assumes "arb_inv w" "clients w r = Idle" "only r (arb w) b" "pending r b = 0"
  shows "arb_inv (set_client r Failed b w)"
  using set_client_inv [OF only_inv [OF inv_butI [OF assms(1)] assms(3)], of Failed] inv_view [OF assms(1), of r] assms
  by (auto simp: only_def queued_def view_ok_def)

lemma submit_local:
  assumes "arb_inv w" "clients w r = Idle" "only r (arb w) b" "pending r b = 0" "rq_coroutine (requests b r) = r"
    "rq_phase (requests b r) = installing" "rq_error (requests b r) = 0" "on_owner here b" "acquire_on_owner here oom r b = (b', res)"
  shows "arb_inv (after_submit here r (b', if res = acq_waiting then must_park else continue_with None) w)"
proof -
  have o: "r \<notin> set (active b) \<union> set (waiting b)" "r \<notin> queued (w\<lparr>arb := b\<rparr>)"
    using inv_view [OF assms(1), of r] assms(2,3) by (auto simp: only_def queued_def view_ok_def)
  have "answered w b b' r res"
    by (rule owner_acquire [OF only_inv [OF inv_butI [OF assms(1)] assms(3)] assms(9,8) o]) (use assms in simp_all)
  note an = this [unfolded answered_def]
  show ?thesis
  proof (cases "res = acq_waiting")
    case True
    then have "arb_inv (set_client r Submitted b' w)" by (intro set_client_inv) (use an assms in auto)
    then show ?thesis using True by (simp add: after_submit_def)
  next
    case False
    then have "arb_inv (settle here r b' w)" by (intro settle_inv) (use an assms in auto)
    then show ?thesis using False by (simp add: after_submit_def)
  qed
qed

lemma submit_remote:
  assumes "arb_inv w" "clients w r = Idle" "only r (arb w) c" "pending r c = 0" "rq_coroutine (requests c r) = r"
    "rq_phase (requests c r) = installing" "rq_error (requests c r) = 0"
  shows "arb_inv (set_client r Submitted (enqueue True r acquire_op c) w)"
proof -
  have o: "r \<notin> set (active c) \<union> set (waiting c)" "r \<notin> queued (w\<lparr>arb := c\<rparr>)"
    using inv_view [OF assms(1), of r] assms(2,3) by (auto simp: only_def queued_def view_ok_def)
  note en = enqueue_inv [OF only_inv [OF inv_butI [OF assms(1)] assms(3)] o(2), of acquire_op]
  then show ?thesis using o assms by (intro set_client_inv) (simp_all add: in_line_def)
qed

lemma submit_step:
  assumes inv: "arb_inv w" and idle: "clients w r = Idle" and nq: "new_request offset len mode = Inr q"
  shows "arb_inv (after_submit here r
    (acquire_submit here answer True oom r r ((arb w)\<lparr>requests := (requests (arb w))(r := q)\<rparr>)) w)"
proof -
  let ?a = "(arb w)\<lparr>requests := (requests (arb w))(r := q)\<rparr>"
  have out: "r \<notin> set (active (arb w)) \<union> set (waiting (arb w))" "pending r (arb w) = 0"
    using inv_view [OF inv, of r] idle by (simp_all add: view_ok_def)
  have qf: "rq_phase q = installing" "rq_error q = 0" using nq by (auto simp: new_request_def split: if_splits)
  have oa: "only r (arb w) ?a" "pending r ?a = 0" using out by (simp_all add: only_def pending_def)
  show ?thesis
  proof (cases "rt_runtime here = None \<or> rt_worker here = no_worker")
    case True
    then show ?thesis using refuse_inv [OF inv idle oa] by (auto simp: acquire_submit_def after_submit_def split: option.splits)
  next
    case False
    then obtain rt where rt: "rt_runtime here = Some rt" "rt_worker here \<noteq> no_worker" by auto
    obtain b e where eo: "ensure_owner ?a rt (rt_worker here) = (b, e)" by fastforce
    have ob: "only r (arb w) b" "pending r b = 0" "requests b r = q"
      using eo oa by (auto simp: ensure_owner_def only_def pending_def split: option.splits if_splits)
    define u where "u = upd_request r (\<lambda>q. q\<lparr>rq_coroutine := r, rq_target := here\<rparr>) b"
    have "only r b u" unfolding u_def by (rule upd_only) (simp add: same_range_def)
    note ou = only_trans [OF ob(1) this]
    have uq: "pending r u = 0" "requests u r = q\<lparr>rq_coroutine := r, rq_target := here\<rparr>"
      using ob by (simp_all add: u_def upd_request_def pending_def)
    obtain v e' where ep: "ensure_poller answer u = (v, e')" by fastforce
    have "only r u v" "requests v r = requests u r" "pending r v = 0"
      using ep uq by (auto simp: ensure_poller_def only_def pending_def same_range_def split: if_splits option.splits)
    note ov = only_trans [OF ou this(1)] this(2,3)
    obtain b' res where acq: "acquire_on_owner here oom r u = (b', res)" by fastforce
    have "arb_inv (after_submit here r (b', if res = acq_waiting then must_park else continue_with None) w)" if "on_owner here u"
      by (rule submit_local [OF inv idle ou uq(1) _ _ _ that acq]) (simp_all add: uq qf)
    moreover have "arb_inv (set_client r Submitted (enqueue True r acquire_op v) w)"
      by (rule submit_remote [OF inv idle ov(1,3)]) (simp_all add: ov uq qf)
    ultimately show ?thesis
      using refuse_inv [OF inv idle ob(1,2)] refuse_inv [OF inv idle ov(1,3)] rt eo ep acq
      by (cases e; cases e') (simp_all add: acquire_submit_def after_submit_def Let_def u_def [symmetric])
  qed
qed

lemma inv_but_view: "inv_but r w \<Longrightarrow> view_ok w r \<Longrightarrow> arb_inv w"
  by (auto simp: inv_but_def arb_inv_def)

text \<open>The owner releases an active request \<open>r\<close> and wakes waiters.\<close>

lemma owner_release:
  assumes inv: "arb_inv w" and act: "r \<in> set (active (arb w))" and rq: "r \<in> queued w \<longrightarrow> fifo w = r # rs"
    and rs: "r \<notin> queued w \<longrightarrow> rs = fifo w"
    and gw: "grant_waiters allow_direct ((arb w)\<lparr>active := remove1 r (active (arb w)), active_size := n\<rparr>) = (a, direct)"
  shows "\<forall>x. x \<noteq> r \<longrightarrow> direct \<noteq> Some x \<longrightarrow> view_ok (w\<lparr>fifo := rs, arb := a\<rparr>) x" "queue_inv a" "\<not> terminated a"
    "distinct (inbox a @ rs)" "r \<notin> set (active a)" "r \<notin> set (waiting a)" "r \<notin> queued (w\<lparr>fifo := rs, arb := a\<rparr>)"
    "requests a r = requests (arb w) r" "pending r a = pending r (arb w)"
    "\<forall>d. direct = Some d \<longrightarrow> allow_direct \<and> d \<noteq> r \<and> clients w d = Suspended \<and> placed served d (w\<lparr>fifo := rs, arb := a\<rparr>) \<and>
      pending d a = 0 \<and> rq_coroutine (requests a d) = d"
proof -
  let ?w = "w\<lparr>fifo := rs, arb := a\<rparr>"
  have dj: "set (active (arb w)) \<inter> set (waiting (arb w)) = {}" by (rule inv_distinct [OF inv])
  have q: "queue_inv (arb w)" "distinct (inbox (arb w) @ fifo w)" "\<not> terminated (arb w)" using inv by (simp_all add: arb_inv_def)
  have wt: "\<forall>x \<in> set (waiting (arb w)). waitable (arb w) x" using inv_waitable(1) [OF inv] by blast
  obtain gs where g: "woken (set gs) direct (arb w) a" "set (active a) = set (active (arb w)) - {r} \<union> set gs"
    "set gs \<subseteq> set (waiting (arb w))" "set (waiting a) = set (waiting (arb w)) - set gs" "queue_inv a"
    "direct = None \<or> (\<exists>d \<in> set gs. direct = Some d \<and> rq_phase (requests (arb w) d) = parked \<and> allow_direct)"
    by (rule release_spec [OF q(1) act wt gw])
  have rg: "r \<notin> set gs" using g(3) act dj by blast
  have ib: "inbox a = inbox (arb w)" using g(1) by (simp add: woken_def)
  have qd: "queued ?w = queued w - {r} \<and> distinct (inbox a @ rs)"
  proof (cases "r \<in> queued w")
    case True
    then have "fifo w = r # rs" using rq by simp
    then show ?thesis using q(2) ib by (simp add: queued_def)
  next
    case False
    then show ?thesis using rs q(2) ib by (simp add: queued_def)
  qed
  show "queue_inv a" "distinct (inbox a @ rs)" using g(5) qd by simp_all
  show "\<not> terminated a" "requests a r = requests (arb w) r" "pending r a = pending r (arb w)"
    using g(1) q(3) rg by (simp_all add: woken_def)
  show "r \<notin> set (active a)" "r \<notin> set (waiting a)" "r \<notin> queued ?w" using g(2,4) rg act dj qd by auto
  show "\<forall>x. x \<noteq> r \<longrightarrow> direct \<noteq> Some x \<longrightarrow> view_ok ?w x"
    using woken_views [OF inv g(1,2,3,4) subset_refl _ _ _ _ _ rg g(5), of ?w] qd by simp
  show "\<forall>d. direct = Some d \<longrightarrow> allow_direct \<and> d \<noteq> r \<and> clients w d = Suspended \<and> placed served d ?w \<and>
      pending d a = 0 \<and> rq_coroutine (requests a d) = d"
  proof (intro allI impI)
    fix d
    assume d: "direct = Some d"
    then have dg: "d \<in> set gs" "rq_phase (requests (arb w) d) = parked" "allow_direct" using g(6) by auto
    have dw: "d \<in> set (waiting (arb w))" using dg g(3) by blast
    note i = inv_waitable [OF inv dw]
    have "placed served d ?w" using g(1,2,4) dg i qd by (auto simp: served_def woken_def)
    then show "allow_direct \<and> d \<noteq> r \<and> clients w d = Suspended \<and> placed served d ?w \<and> pending d a = 0 \<and> rq_coroutine (requests a d) = d"
      using dg i g(1) d rg by (auto simp: woken_def waitable_def)
  qed
qed

lemma item_step:
  assumes inv: "arb_inv w" and f: "fifo w = r # rs" and own: "on_owner here (arb w)"
  shows "arb_inv (w\<lparr>fifo := rs, arb := poll_item here oom r (arb w)\<rparr>)"
proof -
  let ?w = "w\<lparr>fifo := rs\<rparr>"
  have v: "view_ok w r" by (rule inv_view [OF inv])
  have rq: "r \<in> queued w" using f by (simp add: queued_def)
  have qd: "queued ?w = queued w - {r}" using inv f by (auto simp: arb_inv_def queued_def)
  show ?thesis
  proof (cases "rq_operation (requests (arb w) r) = acquire_op")
    case True
    have ph: "clients w r = Submitted \<and> rq_phase (requests (arb w) r) = installing \<or>
        clients w r = Suspended \<and> rq_phase (requests (arb w) r) = parked"
      and out: "r \<notin> set (active (arb w)) \<union> set (waiting (arb w))" "rq_error (requests (arb w) r) = 0"
        "rq_coroutine (requests (arb w) r) = r" "pending r (arb w) = 0"
      using v rq True by (cases "clients w r"; auto simp: view_ok_def place_defs)+
    have "view_ok ?w x" if "x \<noteq> r" for x
      by (rule view_cong [OF inv_view [OF inv, of x]]) (use that qd in auto)
    then have i: "inv_but r (?w\<lparr>arb := arb w\<rparr>)" using inv f by (simp add: inv_but_def arb_inv_def)
    obtain a' res where acq: "acquire_on_owner here oom r (arb w) = (a', res)" by fastforce
    have "r \<notin> queued (?w\<lparr>arb := arb w\<rparr>)" using qd by (simp add: queued_def)
    moreover have "rq_phase (requests (arb w) r) \<noteq> granted_phase" using ph by auto
    ultimately have "answered ?w (arb w) a' r res" using owner_acquire [OF i acq own out(1)] out(2,3) by simp
    note an = this [unfolded answered_def]
    have "view_ok (?w\<lparr>arb := a'\<rparr>) r" using an ph out(4) by (auto simp: view_ok_def split: if_splits)
    then have "arb_inv (?w\<lparr>arb := a'\<rparr>)" using an inv_but_view by blast
    then show ?thesis by (simp add: poll_item_def True acq)
  next
    case False
    have ph: "clients w r = Releasing \<and> rq_phase (requests (arb w) r) = installing \<or>
        clients w r = ReleaseSuspended \<and> rq_phase (requests (arb w) r) = parked"
      and act: "r \<in> set (active (arb w))" "rq_coroutine (requests (arb w) r) = r" "pending r (arb w) = 0"
        "rq_error (requests (arb w) r) = 0"
      using v rq False by (cases "clients w r"; auto simp: view_ok_def place_defs)+
    obtain a d where gw: "grant_waiters False ((arb w)\<lparr>active := remove1 r (active (arb w)),
        active_size := length (remove1 r (active (arb w)))\<rparr>) = (a, d)" by fastforce
    have "r \<in> queued w \<longrightarrow> fifo w = r # rs" "r \<notin> queued w \<longrightarrow> rs = fifo w" using f rq by simp_all
    note o = owner_release [OF inv act(1) this gw]
    have dn: "d = None" using o(10) by (cases d) auto
    have pa: "rq_phase (requests a r) \<noteq> granted_phase" "rq_coroutine (requests a r) = r" using o(8) ph act(2) by auto
    note wc = wake_completed_only [OF this]
    have "inv_but r (?w\<lparr>arb := a\<rparr>)" using o dn by (simp add: inv_but_def)
    then have "inv_but r (?w\<lparr>arb := wake_completed r a\<rparr>)" by (rule only_inv [OF _ wc(1)])
    moreover have "view_ok (?w\<lparr>arb := wake_completed r a\<rparr>) r"
      using wc o ph act by (auto simp: view_ok_def only_def queued_def)
    ultimately have "arb_inv (?w\<lparr>arb := wake_completed r a\<rparr>)" by (rule inv_but_view)
    moreover have "poll_item here oom r (arb w) = wake_completed r a"
      using False act(1) gw by (simp add: poll_item_def release_from_queue_def Let_def)
    ultimately show ?thesis by simp
  qed
qed

text \<open>A holder releases: on the owner's worker, perhaps handing over directly, or through the inbox.\<close>

lemma release_local:
  assumes inv: "arb_inv w" and hold: "clients w r = Holding" and ro: "release_on_owner here r (arb w) = (a, direct, err)"
    and own: "on_owner here (arb w)" and e: "rq_error (requests (arb w) r) = 0" "rq_coroutine (requests (arb w) r) = r"
  shows "err = None" "direct = None \<Longrightarrow> arb_inv (set_client r Done a w)"
    "direct = Some d \<Longrightarrow> b = a\<lparr>events := events a @ [schedule_resume here r x]\<rparr> \<Longrightarrow>
      arb_inv (settle t d b (set_client r ReleaseSuspended b w))"
proof -
  have v: "placed served r w" "pending r (arb w) = 0" using inv_view [OF inv, of r] hold by (simp_all add: view_ok_def)
  then have act: "r \<in> set (active (arb w))" "r \<notin> queued w" by (simp_all add: served_def)
  have ro': "err = None" "grant_waiters True ((arb w)\<lparr>active := remove1 r (active (arb w)),
      active_size := length (remove1 r (active (arb w)))\<rparr>) = (a, direct)"
    using ro own act(1) by (auto simp: release_on_owner_def Let_def split: prod.splits)
  show "err = None" by (rule ro')
  have "r \<in> queued w \<longrightarrow> fifo w = r # fifo w" "r \<notin> queued w \<longrightarrow> fifo w = fifo w" using act(2) by simp_all
  note o = owner_release [OF inv act(1) this ro'(2), simplified]
  show "arb_inv (set_client r Done a w)" if "direct = None"
    by (rule set_client_inv) (use o that v in \<open>simp_all add: inv_but_def\<close>)
  assume d: "direct = Some d" and b: "b = a\<lparr>events := events a @ [schedule_resume here r x]\<rparr>"
  let ?w = "set_client r ReleaseSuspended b w"
  have pb: "pending y b = (if y = r then 1 else pending y a)" for y using o(9) v(2) by (simp add: b pending_def)
  have sb: "active b = active a" "waiting b = waiting a" "requests b = requests a" "inbox b = inbox a" "terminated b = terminated a"
    by (simp_all add: b)
  have aw: "arb ?w = b" "clients ?w y = (if y = r then ReleaseSuspended else clients w y)" "fifo ?w = fifo w" for y
    by (simp_all add: set_client_def)
  have qw: "queued ?w = queued (w\<lparr>arb := a\<rparr>)" by (simp add: queued_def aw sb)
  have dd: "d \<noteq> r" "placed served d (w\<lparr>arb := a\<rparr>)" "pending d a = 0" "rq_coroutine (requests a d) = d" using o(10) d by auto
  have "inv_but d (?w\<lparr>arb := b\<rparr>)"
    unfolding inv_but_def
  proof (intro conjI allI impI)
    show "queue_inv (arb (?w\<lparr>arb := b\<rparr>))" using o(2) by (simp add: b queue_inv_def)
    show "distinct (inbox (arb (?w\<lparr>arb := b\<rparr>)) @ fifo (?w\<lparr>arb := b\<rparr>))" "\<not> terminated (arb (?w\<lparr>arb := b\<rparr>))"
      using o(3,4) by (simp_all add: sb aw)
    fix y
    assume y: "y \<noteq> d"
    have "view_ok ?w y"
    proof (cases "y = r")
      case True
      then show ?thesis using o(5-8) e by (simp add: view_ok_def aw sb pb qw)
    next
      case False
      then have "view_ok (w\<lparr>arb := a\<rparr>) y" using o(1) d y by auto
      then show ?thesis by (rule view_cong) (use False in \<open>simp_all add: aw sb pb qw\<close>)
    qed
    then show "view_ok (?w\<lparr>arb := b\<rparr>) y" using aw(1) by (metis world.surjective world.update_convs(1))
  qed
  then show "arb_inv (settle t d b ?w)"
    by (rule settle_inv) (use dd in \<open>simp_all add: sb pb qw queued_def aw\<close>)
qed

lemma set_client_arb [simp]: "set_client r c a (w\<lparr>arb := z\<rparr>) = set_client r c a w"
  by (simp add: set_client_def)

lemma release_step:
  assumes inv: "arb_inv w" and hold: "clients w r = Holding" and pin: "rt_pin_depth here \<noteq> 0"
  shows "arb_inv (after_release r (release_submit here answer True r r (arb w)) w)"
proof -
  have v: "placed served r w" "pending r (arb w) = 0" "rq_coroutine (requests (arb w) r) = r"
    using inv_view [OF inv, of r] hold by (simp_all add: view_ok_def)
  obtain c err where ep: "(if on_owner here (arb w) then (arb w, None) else ensure_poller answer (arb w)) = (c, err)" by fastforce
  have oc: "only r (arb w) c" "requests c r = requests (arb w) r" "pending r c = 0" "on_owner here c = on_owner here (arb w)"
    using ep v(2) by (auto simp: ensure_poller_def only_def pending_def same_range_def on_owner_def split: if_splits option.splits)
  define here' where "here' = here\<lparr>rt_pin_depth := rt_pin_depth here - 1\<rparr>"
  define d where "d = upd_request r (\<lambda>q. q\<lparr>rq_coroutine := r, rq_target := here', rq_phase := installing, rq_error := 0\<rparr>)
    (c\<lparr>events := events c @ [unregister_pin r]\<rparr>)"
  have "only r c d" by (auto simp: d_def only_def upd_request_def pending_def same_range_def)
  note od = only_trans [OF oc(1) this]
  have dq: "rq_error (requests d r) = 0" "rq_coroutine (requests d r) = r" "rq_phase (requests d r) = installing" "pending r d = 0"
    "rq_granted (requests d r)" "active d = active (arb w)" "waiting d = waiting (arb w)" "queued (w\<lparr>arb := d\<rparr>) = queued w"
    using oc v od by (simp_all add: d_def upd_request_def pending_def served_def only_def queued_def)
  have id: "inv_but r (w\<lparr>arb := d\<rparr>)" by (rule only_inv [OF inv_butI [OF inv] od])
  have "view_ok (w\<lparr>arb := d\<rparr>) r" using hold v(1) dq by (simp add: view_ok_def served_def)
  then have dinv: "arb_inv (w\<lparr>arb := d\<rparr>)" by (rule inv_but_view [OF id])
  show ?thesis
  proof (cases err)
    case (Some e)
    have "arb_inv (set_client r Leaked c w)"
      by (rule set_client_inv [OF only_inv [OF inv_butI [OF inv] oc(1)]]) (use v oc in \<open>auto simp: only_def queued_def\<close>)
    then show ?thesis using ep Some by (simp add: release_submit_def after_release_def)
  next
    case None
    have rs: "release_submit here answer True r r (arb w) = (if on_owner here' d
        then (case release_on_owner here' r d of (st, _, Some err) \<Rightarrow> (st, continue_with (Some err))
              | (st, None, None) \<Rightarrow> (st, continue_with None)
              | (st, Some direct, None) \<Rightarrow>
                  (st\<lparr>events := events st @ [schedule_resume here' r (rt_pin_depth here' \<noteq> 0)]\<rparr>, symmetric direct))
        else (enqueue True r release_op d, must_park))"
      using pin by (simp add: release_submit_def ep None Let_def flip: here'_def d_def)
    show ?thesis
    proof (cases "on_owner here' d")
      case True
      obtain a direct er where ro: "release_on_owner here' r d = (a, direct, er)" by (metis prod_cases3)
      have "clients (w\<lparr>arb := d\<rparr>) r = Holding" "release_on_owner here' r (arb (w\<lparr>arb := d\<rparr>)) = (a, direct, er)"
        "on_owner here' (arb (w\<lparr>arb := d\<rparr>))" "rq_error (requests (arb (w\<lparr>arb := d\<rparr>)) r) = 0"
        "rq_coroutine (requests (arb (w\<lparr>arb := d\<rparr>)) r) = r"
        using hold ro True dq(1,2) by simp_all
      note rl = release_local [OF dinv this]
      show ?thesis
      proof (cases direct)
        case None
        have "arb_inv (set_client r Done a w)" using rl(2) [OF None] by simp
        then show ?thesis using rs True ro rl(1) None by (simp add: after_release_def)
      next
        case (Some x)
        have "arb_inv (settle (rq_target (requests b x)) x b (set_client r ReleaseSuspended b w))"
          if "b = a\<lparr>events := events a @ [schedule_resume here' r (rt_pin_depth here' \<noteq> 0)]\<rparr>" for b
          using rl(3) [OF Some that] by simp
        then show ?thesis using rs True ro rl(1) Some by (simp add: after_release_def)
      qed
    next
      case False
      have "r \<notin> queued (w\<lparr>arb := d\<rparr>)" using dq(8) v(1) by (simp add: served_def)
      note en = enqueue_inv [OF id this, of release_op]
      have "arb_inv (set_client r Releasing (enqueue True r release_op d) w)"
        by (rule set_client_inv [OF en(1)]) (use en dq v(1) in \<open>simp_all add: leaving_def served_def\<close>)
      then show ?thesis using rs False by (simp add: after_release_def)
    qed
  qed
qed

section \<open>Properties\<close>

lemma new_world_inv: "arb_inv (new_world runtime worker)"
  by (simp add: arb_inv_def new_world_def new_state_def queue_inv_def view_ok_def queued_def pending_def exclusive_def)

lemma step_inv: "arb_step w w' \<Longrightarrow> arb_inv w \<Longrightarrow> arb_inv w'"
proof (induction rule: arb_step.induct)
  case (submit w r offset len mode q here answer oom)
  then show ?case by (intro submit_step)
next
  case (park w r a stays here)
  then show ?case by (intro park_step)
next
  case (drain w rs a)
  then show ?case by (intro drain_step)
next
  case (item w r rs here oom)
  then show ?case by (intro item_step)
next
  case (run w xs here r b ys)
  then show ?case by (intro run_step)
next
  case (release w r here answer)
  then show ?case by (intro release_step)
next
  case (release_park w r a stays)
  then show ?case by (intro release_park_step)
qed

lemma reachable_inv:
  assumes "reachable w"
  shows "arb_inv w"
proof -
  obtain rt wk where "arb_step\<^sup>*\<^sup>* (new_world rt wk) w" using assms by (auto simp: reachable_def)
  then show ?thesis by (induction rule: rtranclp_induct) (auto intro: new_world_inv step_inv)
qed

text \<open>A concrete run on the owner's worker: writers of blocks 0 and 1 hold their ranges and a reader of
  block 0 is suspended.\<close>

definition demo_here :: resume_target where
  "demo_here = \<lparr>rt_runtime = Some 0, rt_worker = 0, rt_pin_depth = 1, rt_owner = False\<rparr>"

definition demo_submit :: "nat \<Rightarrow> u64 \<Rightarrow> u64 \<Rightarrow> range_mode \<Rightarrow> world \<Rightarrow> world" where
  "demo_submit r offset len mode w = (case new_request offset len mode of Inl _ \<Rightarrow> w
     | Inr q \<Rightarrow> after_submit demo_here r
         (acquire_submit demo_here None True False r r ((arb w)\<lparr>requests := (requests (arb w))(r := q)\<rparr>)) w)"

definition demo_world :: world where
  "demo_world = demo_submit 2 0 10 read_mode (demo_submit 1 40000 100 write_mode (demo_submit 0 0 100 write_mode (new_world None 0)))"

definition demo_parked :: world where
  "demo_parked = set_client 2 Suspended (fst (park 2 (arb demo_world))) demo_world"

lemma demo_submit_step: "clients w r = Idle \<Longrightarrow> arb_step\<^sup>*\<^sup>* w (demo_submit r offset len mode w)"
  by (cases "new_request offset len mode") (auto simp: demo_submit_def intro: r_into_rtranclp arb_step.submit)

lemma demo_clients:
  "clients demo_world 0 = Holding" "clients demo_world 1 = Holding" "clients demo_world 2 = Submitted"
  "active (arb demo_world) = [0, 1]" "waiting (arb demo_world) = [2]" "rq_phase (requests (arb demo_world) 2) = installing"
  by code_simp+

lemma demo_reachable: "reachable demo_world" "reachable demo_parked"
proof -
  have a: "clients (new_world None 0) 0 = Idle" "clients (demo_submit 0 0 100 write_mode (new_world None 0)) 1 = Idle"
    "clients (demo_submit 1 40000 100 write_mode (demo_submit 0 0 100 write_mode (new_world None 0))) 2 = Idle"
    by code_simp+
  from demo_submit_step [OF a(1)] demo_submit_step [OF a(2)] demo_submit_step [OF a(3)]
  show r: "reachable demo_world" unfolding reachable_def demo_world_def by (meson rtranclp_trans)
  obtain st where p: "park 2 (arb demo_world) = (st, True)"
    using demo_clients(6) by (simp add: park_def Let_def)
  have "arb_step demo_world (if True then set_client 2 Suspended st demo_world else settle demo_here 2 st demo_world)"
    by (rule arb_step.park [OF demo_clients(3) p])
  then have "arb_step demo_world demo_parked" by (simp add: demo_parked_def p)
  then show "reachable demo_parked" using r unfolding reachable_def by (meson rtranclp.rtrancl_into_rtrancl)
qed

text \<open>C4. Mutual exclusion.  In every interleaving of clients, of the owner's poll loop and of the runtime, two
  different clients that hold a permit never hold conflicting ranges: their blocks are disjoint or
  both only read.\<close>
theorem range_exclusion:
  assumes "reachable w" "clients w a = Holding" "clients w b = Holding" "a \<noteq> b"
  shows "\<not> conflicts (requests (arb w) a) (requests (arb w) b)"
proof -
  have i: "arb_inv w" by (rule reachable_inv [OF assms(1)])
  have "a \<in> set (active (arb w))" "b \<in> set (active (arb w))"
    using inv_view [OF i, of a] inv_view [OF i, of b] assms(2,3) by (simp_all add: view_ok_def served_def)
  then show ?thesis using i assms(4) by (auto simp: arb_inv_def queue_inv_def exclusive_def cf_of_def)
qed

theorem range_exclusion_witness:
  "clients demo_world 0 = Holding \<and> clients demo_world 1 = Holding \<and>
    \<not> conflicts (requests (arb demo_world) 0) (requests (arb demo_world) 1)"
  using range_exclusion [OF demo_reachable(1) demo_clients(1,2)] demo_clients(1,2) by simp

text \<open>C5. No wake-up is lost or duplicated: a suspended client that waits for its range has no resumption scheduled as long
  as its request is queued or waiting, and exactly one once it was granted or refused.\<close>
theorem no_lost_wakeup:
  assumes "reachable w" "clients w r = Suspended"
  shows "pending r (arb w) = (if r \<in> set (waiting (arb w)) \<or> r \<in> queued w then 0 else 1)"
  using inv_view [OF reachable_inv [OF assms(1)], of r] assms(2) by (auto simp: view_ok_def place_defs)

theorem no_lost_wakeup_witness:
  "clients demo_parked 2 = Suspended \<and> pending 2 (arb demo_parked) = 0"
proof -
  have "clients demo_parked 2 = Suspended" "2 \<in> set (waiting (arb demo_parked))"
    using demo_clients(5) by (simp_all add: demo_parked_def set_client_def park_def upd_request_def Let_def)
  then show ?thesis using no_lost_wakeup [OF demo_reachable(2), of 2] by simp
qed

text \<open>C17. Nobody waits without a reason: the first waiting request conflicts with an active one, and every other
  waiting request conflicts with an active or with an earlier waiting one; so when nothing is
  active, nothing waits.\<close>
theorem waiters_blocked:
  assumes "reachable w" "i < length (waiting (arb w))"
  shows "(\<exists>a \<in> set (active (arb w)). conflicts (requests (arb w) (waiting (arb w) ! i)) (requests (arb w) a)) \<or>
    (\<exists>j < i. conflicts (requests (arb w) (waiting (arb w) ! i)) (requests (arb w) (waiting (arb w) ! j)))"
  using reachable_inv [OF assms(1)] assms(2) blocked_nth [of "cf_of (arb w)" "active (arb w)" "[]" "waiting (arb w)" i]
  by (auto simp: arb_inv_def queue_inv_def cf_of_def)

theorem waiters_blocked_witness:
  "\<exists>a \<in> set (active (arb demo_world)). conflicts (requests (arb demo_world) 2) (requests (arb demo_world) a)"
  using waiters_blocked [OF demo_reachable(1), of 0] by (simp add: demo_clients)



text \<open>C18. Progress: when the owner releases a held request and no other active request conflicts with the first
  waiting one, the first waiting request becomes active at once, so waiters are served in order.\<close>
theorem release_serves_first:
  assumes "reachable w" "clients w r = Holding" "on_owner here (arb w)" "waiting (arb w) \<noteq> []"
    "\<forall>a \<in> set (active (arb w)) - {r}. \<not> conflicts (requests (arb w) (hd (waiting (arb w)))) (requests (arb w) a)"
  shows "hd (waiting (arb w)) \<in> set (active (fst (release_on_owner here r (arb w))))"
proof -
  have i: "arb_inv w" by (rule reachable_inv [OF assms(1)])
  have act: "r \<in> set (active (arb w))" using inv_view [OF i, of r] assms(2) by (simp add: view_ok_def served_def)
  obtain a d where gw: "grant_waiters True ((arb w)\<lparr>active := remove1 r (active (arb w)),
      active_size := length (remove1 r (active (arb w)))\<rparr>) = (a, d)" by fastforce
  have q: "queue_inv (arb w)" using i by (simp add: arb_inv_def)
  have "\<forall>x \<in> set (waiting (arb w)). waitable (arb w) x" using inv_waitable(1) [OF i] by blast
  from release_spec [OF q act this gw] assms(4,5) have "hd (waiting (arb w)) \<in> set (active a)" by blast
  then show ?thesis using assms(3) act gw by (simp add: release_on_owner_def Let_def)
qed

theorem release_serves_first_witness: "2 \<in> set (active (fst (release_on_owner demo_here 0 (arb demo_world))))"
proof -
  have "on_owner demo_here (arb demo_world)" "\<not> conflicts (requests (arb demo_world) 2) (requests (arb demo_world) 1)" by code_simp+
  then show ?thesis
    using release_serves_first [OF demo_reachable(1) demo_clients(1)] by (simp add: demo_clients)
qed

text \<open>C20. The block ranges protect the bytes: two valid byte ranges that share a byte, one of them for writing, give
  requests that conflict.\<close>
theorem shared_byte_conflicts:
  assumes "new_request o1 l1 m1 = Inr q1" "new_request o2 l2 m2 = Inr q2" "m1 = write_mode \<or> m2 = write_mode"
    "unat o1 \<le> b" "b < unat o1 + unat l1" "unat o2 \<le> b" "b < unat o2 + unat l2"
  shows "conflicts q1 q2"
  using shared_byte_overlaps [OF assms(1,2,4-7)] new_request_covers(5) [OF assms(1)] new_request_covers(5) [OF assms(2)] assms(3)
  by (simp add: conflicts_def)

theorem shared_byte_conflicts_witness:
  "\<exists>q1 q2. new_request 32760 100 read_mode = Inr q1 \<and> new_request (- 1) 1 write_mode = Inr q2 \<and> \<not> conflicts q1 q2 \<and>
    (\<exists>q3. new_request 32800 8 write_mode = Inr q3 \<and> conflicts q1 q3)"
proof -
  obtain q1 q2 q3 where q: "new_request 32760 100 read_mode = Inr q1" "new_request (- 1) 1 write_mode = Inr q2"
    "new_request 32800 8 write_mode = Inr q3" by (simp add: new_request_def)
  have "conflicts q1 q3" using shared_byte_conflicts [OF q(1,3), of 32801] by simp
  moreover have "\<not> conflicts q1 q2" using q(1,2) by (auto simp: new_request_def conflicts_def overlaps_def word_le_nat_alt)
  ultimately show ?thesis using q by blast
qed



end
