(* ===== verification/Namespace_Coordinator.thy ===== *)
theory Namespace_Coordinator
  imports Range_Arbiter "HOL-Library.AList"
begin

text \<open>
  The namespace coordinator (\<open>Async/namespace_coordinator.cpp\<close>): caches of directory entries and
  inode attributes and the table of open inodes, each spread over 256 shards that have a
  mutex of their own, so that every operation on one inode is one step.  Inode numbers are signed
  64-bit words.  An allocation may fail where the code handles \<open>bad_alloc\<close>; the
  arguments \<open>oom\<close> tell where.

  A shard is an association from inode numbers to values; the locale \<open>inode_table\<close> states what the
  operations rely on, and it is interpreted on the shards.
\<close>

section \<open>Shards\<close>

definition fmix64 :: "u64 \<Rightarrow> u64" where
  "fmix64 v =
     (let v = v XOR drop_bit 33 v; v = v * 0xff51afd7ed558ccd; v = v XOR drop_bit 33 v;
          v = v * 0xc4ceb9fe1a85ec53; v = v XOR drop_bit 33 v
      in v)"

definition shard_index :: "i64 \<Rightarrow> nat" where
  "shard_index inode = unat (fmix64 inode AND 255)"

type_synonym 'v shards = "nat \<Rightarrow> (i64 \<times> 'v) list"

definition shard_find :: "'v shards \<Rightarrow> i64 \<Rightarrow> 'v option" where
  "shard_find t inode = map_of (t (shard_index inode)) inode"

definition shard_assign :: "'v shards \<Rightarrow> i64 \<Rightarrow> 'v \<Rightarrow> 'v shards" where
  "shard_assign t inode v = t(shard_index inode := (inode, v) # filter (\<lambda>e. fst e \<noteq> inode) (t (shard_index inode)))"

definition shard_erase :: "'v shards \<Rightarrow> i64 \<Rightarrow> 'v shards" where
  "shard_erase t inode = t(shard_index inode := filter (\<lambda>e. fst e \<noteq> inode) (t (shard_index inode)))"

lemma shard_index_less: "shard_index inode < 256"
proof -
  have "fmix64 inode AND 255 \<le> 255" by (rule word_and_le1)
  then have "unat (fmix64 inode AND 255) \<le> unat (255 :: u64)" by (simp only: word_le_nat_alt)
  then show ?thesis by (simp add: shard_index_def)
qed

text \<open>What the operations rely on: the shards together are one map.\<close>

locale inode_table =
  fixes find :: "'t \<Rightarrow> i64 \<Rightarrow> 'v option" and assign :: "'t \<Rightarrow> i64 \<Rightarrow> 'v \<Rightarrow> 't" and erase :: "'t \<Rightarrow> i64 \<Rightarrow> 't"
  assumes find_assign: "find (assign t i v) j = (if j = i then Some v else find t j)"
    and find_erase: "find (erase t i) j = (if j = i then None else find t j)"
begin

lemma abstract_assign: "find (assign t i v) = (find t)(i \<mapsto> v)"
  by (simp add: fun_eq_iff find_assign)

lemma abstract_erase: "find (erase t i) = (find t)(i := None)"
  by (simp add: fun_eq_iff find_erase)

lemma assign_commute: "i \<noteq> j \<Longrightarrow> find (assign (assign t i v) j w) = find (assign (assign t j w) i v)"
  by (simp add: fun_eq_iff find_assign)

end

lemma map_of_filter_key: "map_of (filter (\<lambda>e. fst e \<noteq> i) xs) j = (if j = i then None else map_of xs j)"
  by (induction xs) auto

interpretation shard: inode_table shard_find shard_assign shard_erase
  by unfold_locales (simp_all add: shard_find_def shard_assign_def shard_erase_def map_of_filter_key)

section \<open>Directory entries\<close>

record dentry =
  dn_inode :: i64
  dn_offset :: u64
  dn_type :: u8

record directory_index =
  names :: "(string \<times> dentry) list"
  complete :: bool

definition empty_index :: directory_index where
  "empty_index = \<lparr>names = [], complete = False\<rparr>"

type_synonym dentries = "directory_index shards"

definition find_dentry :: "dentries \<Rightarrow> i64 \<Rightarrow> string \<Rightarrow> dentry option" where
  "find_dentry t parent name =
     (if neg64 parent then None
      else case shard_find t parent of None \<Rightarrow> None | Some directory \<Rightarrow> map_of (names directory) name)"

text \<open>\<open>oom_directory\<close>: the entry of a new directory cannot be allocated; \<open>oom_name\<close>: the new name cannot.\<close>

definition cache_dentry :: "bool \<Rightarrow> bool \<Rightarrow> dentries \<Rightarrow> i64 \<Rightarrow> string \<Rightarrow> dentry \<Rightarrow> dentries \<times> bool" where
  "cache_dentry oom_directory oom_name t parent name d =
     (if neg64 parent then (t, False)
      else case shard_find t parent of
             None \<Rightarrow>
               if oom_directory then (t, False)
               else if oom_name then (shard_assign t parent (empty_index\<lparr>complete := False\<rparr>), False)
               else (shard_assign t parent (empty_index\<lparr>names := [(name, d)]\<rparr>), True)
           | Some directory \<Rightarrow>
               if map_of (names directory) name \<noteq> None
               then (shard_assign t parent (directory\<lparr>names := AList.update name d (names directory)\<rparr>), True)
               else if oom_name then (shard_assign t parent (directory\<lparr>complete := False\<rparr>), False)
               else (shard_assign t parent (directory\<lparr>names := AList.update name d (names directory)\<rparr>), True))"

definition directory_complete :: "dentries \<Rightarrow> i64 \<Rightarrow> bool" where
  "directory_complete t directory \<longleftrightarrow>
     \<not> neg64 directory \<and> (case shard_find t directory of None \<Rightarrow> False | Some index \<Rightarrow> complete index)"

definition erase_dentry :: "dentries \<Rightarrow> i64 \<Rightarrow> string \<Rightarrow> dentries" where
  "erase_dentry t parent name =
     (if neg64 parent then t
      else case shard_find t parent of
             None \<Rightarrow> t
           | Some directory \<Rightarrow>
               let directory = directory\<lparr>names := AList.delete name (names directory)\<rparr> in
               if names directory = [] \<and> \<not> complete directory then shard_erase t parent else shard_assign t parent directory)"

definition erase_directory :: "dentries \<Rightarrow> i64 \<Rightarrow> dentries" where
  "erase_directory t directory = (if neg64 directory then t else shard_erase t directory)"

definition mark_directory_complete :: "bool \<Rightarrow> dentries \<Rightarrow> i64 \<Rightarrow> dentries" where
  "mark_directory_complete oom t directory =
     (if neg64 directory then t
      else case shard_find t directory of
             None \<Rightarrow> if oom then shard_erase t directory else shard_assign t directory (empty_index\<lparr>complete := True\<rparr>)
           | Some index \<Rightarrow> shard_assign t directory (index\<lparr>complete := True\<rparr>))"

section \<open>Attribute snapshots\<close>

definition publish_snapshot :: "bool \<Rightarrow> 's shards \<Rightarrow> i64 \<Rightarrow> 's \<Rightarrow> 's shards" where
  "publish_snapshot oom t inode snapshot =
     (if neg64 inode then t else if oom \<and> shard_find t inode = None then t else shard_assign t inode snapshot)"

definition cached_snapshot :: "'s shards \<Rightarrow> i64 \<Rightarrow> errno + 's" where
  "cached_snapshot t inode =
     (if neg64 inode then Inl EINVAL
      else case shard_find t inode of None \<Rightarrow> Inl ENOENT | Some snapshot \<Rightarrow> Inr snapshot)"

definition erase_snapshot :: "'s shards \<Rightarrow> i64 \<Rightarrow> 's shards" where
  "erase_snapshot t inode = (if neg64 inode then t else shard_erase t inode)"

section \<open>Open inodes\<close>

record inode_state =
  open_references :: u64
  orphaned :: bool

datatype release_disposition = reference_remains | last_reference | delete_orphan

type_synonym inode_states = "inode_state shards"

definition retain_locked :: "bool \<Rightarrow> inode_states \<Rightarrow> i64 \<Rightarrow> inode_states \<times> errno" where
  "retain_locked oom t inode =
     (if neg64 inode then (t, EINVAL)
      else case shard_find t inode of
             None \<Rightarrow> if oom then (t, ENOMEM) else (shard_assign t inode \<lparr>open_references = 1, orphaned = False\<rparr>, 0)
           | Some state \<Rightarrow>
               if open_references state = - 1 then (t, EOVERFLOW)
               else (shard_assign t inode (state\<lparr>open_references := open_references state + 1\<rparr>), 0))"

definition mark_orphan_if_open_locked :: "inode_states \<Rightarrow> i64 \<Rightarrow> inode_states \<times> (errno + bool)" where
  "mark_orphan_if_open_locked t inode =
     (if neg64 inode then (t, Inl EINVAL)
      else case shard_find t inode of
             None \<Rightarrow> (t, Inr False)
           | Some state \<Rightarrow>
               if open_references state = 0 then (t, Inr False)
               else (shard_assign t inode (state\<lparr>orphaned := True\<rparr>), Inr True))"

definition rollback_orphan_locked :: "inode_states \<Rightarrow> i64 \<Rightarrow> inode_states" where
  "rollback_orphan_locked t inode =
     (if neg64 inode then t
      else case shard_find t inode of None \<Rightarrow> t | Some state \<Rightarrow> shard_assign t inode (state\<lparr>orphaned := False\<rparr>))"

definition release_reference_locked :: "inode_states \<Rightarrow> i64 \<Rightarrow> inode_states \<times> (errno + release_disposition)" where
  "release_reference_locked t inode =
     (if neg64 inode then (t, Inl EINVAL)
      else case shard_find t inode of
             None \<Rightarrow> (t, Inl EBADF)
           | Some state \<Rightarrow>
               if open_references state = 0 then (t, Inl EBADF)
               else if 1 < open_references state
               then (shard_assign t inode (state\<lparr>open_references := open_references state - 1\<rparr>), Inr reference_remains)
               else if \<not> orphaned state then (shard_erase t inode, Inr last_reference)
               else (t, Inr delete_orphan))"

definition erase_inode_state_locked :: "inode_states \<Rightarrow> i64 \<Rightarrow> inode_states" where
  "erase_inode_state_locked t inode = (if neg64 inode then t else shard_erase t inode)"

definition finish_orphan_release_locked :: "inode_states \<Rightarrow> i64 \<Rightarrow> inode_states" where
  "finish_orphan_release_locked t inode = erase_inode_state_locked t inode"

section \<open>The entry cache and the durable directories\<close>

text \<open>\<open>dirs\<close> is the content of the durable directories.  Every cached entry is there, and a directory
  marked complete has all its entries in the cache.\<close>

definition coherent :: "(i64 \<Rightarrow> string \<rightharpoonup> dentry) \<Rightarrow> dentries \<Rightarrow> bool" where
  "coherent dirs t \<longleftrightarrow>
     (\<forall>p n d. find_dentry t p n = Some d \<longrightarrow> dirs p n = Some d) \<and>
     (\<forall>p n. directory_complete t p \<longrightarrow> find_dentry t p n = dirs p n)"

lemmas table_simps = shard.find_assign shard.find_erase update_conv' delete_conv'

lemma coherentD1: "coherent dirs t \<Longrightarrow> find_dentry t p n = Some d \<Longrightarrow> dirs p n = Some d"
  unfolding coherent_def by blast

lemma coherentD2: "coherent dirs t \<Longrightarrow> directory_complete t p \<Longrightarrow> find_dentry t p n = dirs p n"
  unfolding coherent_def by blast

lemma coherent_frame:
  assumes c: "coherent dirs t" and t: "\<And>q. q \<noteq> p \<Longrightarrow> shard_find t' q = shard_find t q" and d: "\<And>q. q \<noteq> p \<Longrightarrow> dirs' q = dirs q"
    and f: "\<And>n d. find_dentry t' p n = Some d \<Longrightarrow> dirs' p n = Some d" and a: "\<And>n. directory_complete t' p \<Longrightarrow> find_dentry t' p n = dirs' p n"
  shows "coherent dirs' t'"
proof -
  have e: "find_dentry t' q n = find_dentry t q n" "directory_complete t' q = directory_complete t q" if "q \<noteq> p" for q n
    unfolding find_dentry_def directory_complete_def t [OF that] by (rule refl)+
  have "dirs' q n = Some x" if "find_dentry t' q n = Some x" for q n x
  proof (cases "q = p")
    case True
    then show ?thesis using that f by blast
  next
    case False
    then have "find_dentry t q n = Some x" using that e by simp
    then have "dirs q n = Some x" by (rule coherentD1 [OF c])
    then show ?thesis by (simp add: d [OF False])
  qed
  moreover have "find_dentry t' q n = dirs' q n" if "directory_complete t' q" for q n
  proof (cases "q = p")
    case True
    then show ?thesis using that a by blast
  next
    case False
    then have "directory_complete t q" using that e by simp
    then have "find_dentry t q n = dirs q n" by (rule coherentD2 [OF c])
    then show ?thesis by (simp add: e [OF False] d [OF False])
  qed
  ultimately show ?thesis unfolding coherent_def by blast
qed

lemma coherent_cached: "coherent dirs t \<Longrightarrow> \<not> neg64 p \<Longrightarrow> shard_find t p = Some x \<Longrightarrow> map_of (names x) n = Some d \<Longrightarrow> dirs p n = Some d"
  by (rule coherentD1 [of dirs t]) (simp_all add: find_dentry_def)

lemma coherent_complete: "coherent dirs t \<Longrightarrow> \<not> neg64 p \<Longrightarrow> shard_find t p = Some x \<Longrightarrow> complete x \<Longrightarrow> map_of (names x) = dirs p"
  using coherentD2 [of dirs t p] by (simp add: find_dentry_def directory_complete_def fun_eq_iff)

lemma cache_coherent:
  assumes c: "coherent dirs t" and o: "cache_dentry oom_directory oom_name t p n d = (t', ok)"
  shows "coherent (dirs(p := (dirs p)(n \<mapsto> d))) t'"
proof (rule coherent_frame [OF c, of p])
  show "shard_find t' q = shard_find t q" if "q \<noteq> p" for q
    using o that by (auto simp: cache_dentry_def table_simps split: if_splits option.splits)
  show "(dirs(p := (dirs p)(n \<mapsto> d))) q = dirs q" if "q \<noteq> p" for q using that by simp
  show "(dirs(p := (dirs p)(n \<mapsto> d))) p m = Some e" if "find_dentry t' p m = Some e" for m e
    using o that coherent_cached [OF c]
    by (fastforce simp: cache_dentry_def find_dentry_def table_simps empty_index_def split: if_splits option.splits)
  show "find_dentry t' p m = (dirs(p := (dirs p)(n \<mapsto> d))) p m" if "directory_complete t' p" for m
    using o that coherent_complete [OF c]
    by (auto simp: cache_dentry_def directory_complete_def find_dentry_def table_simps empty_index_def split: if_splits option.splits)
qed

lemma erase_coherent:
  assumes c: "coherent dirs t"
  shows "coherent (dirs(p := (dirs p)(n := None))) (erase_dentry t p n)"
proof (rule coherent_frame [OF c, of p])
  show "shard_find (erase_dentry t p n) q = shard_find t q" if "q \<noteq> p" for q
    using that by (simp add: erase_dentry_def table_simps Let_def split: option.splits)
  show "(dirs(p := (dirs p)(n := None))) p m = Some e" if "find_dentry (erase_dentry t p n) p m = Some e" for m e
    using that coherent_cached [OF c]
    by (fastforce simp: erase_dentry_def find_dentry_def table_simps Let_def split: if_splits option.splits)
  show "find_dentry (erase_dentry t p n) p m = (dirs(p := (dirs p)(n := None))) p m" if "directory_complete (erase_dentry t p n) p" for m
    using that coherent_complete [OF c]
    by (auto simp: erase_dentry_def directory_complete_def find_dentry_def table_simps Let_def split: if_splits option.splits)
qed simp

lemma erase_directory_coherent:
  assumes c: "coherent dirs t"
  shows "coherent (dirs(p := content)) (erase_directory t p)"
proof (rule coherent_frame [OF c, of p])
  show "shard_find (erase_directory t p) q = shard_find t q" if "q \<noteq> p" for q
    using that by (simp add: erase_directory_def table_simps)
  show "(dirs(p := content)) p m = Some e" if "find_dentry (erase_directory t p) p m = Some e" for m e
    using that by (auto simp: erase_directory_def find_dentry_def table_simps split: if_splits)
  show "find_dentry (erase_directory t p) p m = (dirs(p := content)) p m" if "directory_complete (erase_directory t p) p" for m
    using that by (auto simp: erase_directory_def directory_complete_def table_simps split: if_splits)
qed simp

lemma mark_coherent:
  assumes c: "coherent dirs t" and all: "\<forall>n d. dirs p n = Some d \<longrightarrow> find_dentry t p n = Some d"
  shows "coherent dirs (mark_directory_complete oom t p)"
proof (rule coherent_frame [OF c, of p])
  have f: "find_dentry (mark_directory_complete oom t p) p m = find_dentry t p m" for m
    by (auto simp: mark_directory_complete_def find_dentry_def table_simps empty_index_def split: option.splits)
  show "shard_find (mark_directory_complete oom t p) q = shard_find t q" if "q \<noteq> p" for q
    using that by (simp add: mark_directory_complete_def table_simps split: option.splits)
  show "dirs p m = Some e" if "find_dentry (mark_directory_complete oom t p) p m = Some e" for m e
    using that unfolding f by (rule coherentD1 [OF c])
  show "find_dentry (mark_directory_complete oom t p) p m = dirs p m" if "directory_complete (mark_directory_complete oom t p) p" for m
  proof (cases "dirs p m")
    case None
    then show ?thesis using coherentD1 [OF c, of p m] by (cases "find_dentry t p m") (simp_all add: f)
  qed (use all in \<open>simp add: f\<close>)
qed simp

text \<open>C16. The entry cache stays coherent with the durable directories, whatever allocations fail: when it follows the
  linking of an entry, the removal of an entry, the removal of a directory, or a full scan that cached
  all entries, every cached entry is the durable one, and a miss in a directory marked complete means
  that the durable directory has no such entry.\<close>
theorem dentry_cache_coherent:
  assumes "coherent dirs t"
  shows "coherent (dirs(p := (dirs p)(n \<mapsto> d))) (fst (cache_dentry oom_directory oom_name t p n d)) \<and>
    coherent (dirs(p := (dirs p)(n := None))) (erase_dentry t p n) \<and>
    coherent (dirs(p := content)) (erase_directory t p) \<and>
    ((\<forall>n d. dirs p n = Some d \<longrightarrow> find_dentry t p n = Some d) \<longrightarrow> coherent dirs (mark_directory_complete oom t p))"
  using cache_coherent [OF assms prod.collapse [symmetric]] erase_coherent [OF assms] erase_directory_coherent [OF assms] mark_coherent [OF assms]
  by blast

theorem dentry_cache_coherent_witness:
  "coherent ((\<lambda>_. Map.empty)(1 := [''a'' \<mapsto> \<lparr>dn_inode = 7, dn_offset = 0, dn_type = 1\<rparr>]))
    (fst (cache_dentry False False (\<lambda>_. []) 1 ''a'' \<lparr>dn_inode = 7, dn_offset = 0, dn_type = 1\<rparr>))"
proof -
  have "coherent (\<lambda>_. Map.empty) (\<lambda>_. [])" by (simp add: coherent_def find_dentry_def directory_complete_def shard_find_def)
  from dentry_cache_coherent [OF this, of 1 "''a''" "\<lparr>dn_inode = 7, dn_offset = 0, dn_type = 1\<rparr>" False False]
  show ?thesis by simp
qed

section \<open>Open references as counters\<close>

text \<open>The abstract table of open inodes: how often an inode is open, and whether it was unlinked while
  open.  An operation answers whether the inode is to be deleted.\<close>

record open_table =
  refs :: "i64 \<Rightarrow> nat"
  orphans :: "i64 set"

datatype open_op = Open i64 | Unlink i64 | Close i64

fun spec_op :: "open_op \<Rightarrow> open_table \<Rightarrow> open_table \<times> bool" where
  "spec_op (Open i) s = (s\<lparr>refs := (refs s)(i := refs s i + 1)\<rparr>, False)"
| "spec_op (Unlink i) s = (if refs s i = 0 then (s, True) else (s\<lparr>orphans := insert i (orphans s)\<rparr>, False))"
| "spec_op (Close i) s =
     (if refs s i = 0 then (s, False)
      else (s\<lparr>refs := (refs s)(i := refs s i - 1), orphans := (if refs s i = 1 then orphans s - {i} else orphans s)\<rparr>,
            refs s i = 1 \<and> i \<in> orphans s))"

text \<open>The same operations by the coordinator: an unlinked inode that is not open is deleted at once; a close that
  answers \<open>delete_orphan\<close> deletes the inode and finishes the release.\<close>

fun coord_op :: "open_op \<Rightarrow> inode_states \<Rightarrow> inode_states \<times> bool" where
  "coord_op (Open i) t = (fst (retain_locked False t i), False)"
| "coord_op (Unlink i) t =
     (case mark_orphan_if_open_locked t i of (t, Inr False) \<Rightarrow> (t, True) | (t, _) \<Rightarrow> (t, False))"
| "coord_op (Close i) t =
     (case release_reference_locked t i of
        (t, Inr delete_orphan) \<Rightarrow> (finish_orphan_release_locked t i, True)
      | (t, _) \<Rightarrow> (t, False))"

definition table_of :: "inode_states \<Rightarrow> open_table" where
  "table_of t = \<lparr>refs = (\<lambda>i. case shard_find t i of None \<Rightarrow> 0 | Some s \<Rightarrow> unat (open_references s)),
     orphans = {i. case shard_find t i of None \<Rightarrow> False | Some s \<Rightarrow> orphaned s}\<rparr>"

fun op_inode :: "open_op \<Rightarrow> i64" where
  "op_inode (Open i) = i"
| "op_inode (Unlink i) = i"
| "op_inode (Close i) = i"

text \<open>Entries are kept only for open inodes.\<close>

definition states_wf :: "inode_states \<Rightarrow> bool" where
  "states_wf t \<longleftrightarrow> (\<forall>i s. shard_find t i = Some s \<longrightarrow> open_references s \<noteq> 0)"

lemma coord_op_wf:
  assumes "states_wf t"
  shows "states_wf (fst (coord_op op t))"
proof (cases op)
  case (Open i)
  have "x + 1 \<noteq> 0" if "x \<noteq> - 1" for x :: u64 using that by (metis eq_neg_iff_add_eq_0)
  then show ?thesis using assms Open by (auto simp: states_wf_def retain_locked_def table_simps split: option.splits)
next
  case (Unlink i)
  then show ?thesis using assms by (auto simp: states_wf_def mark_orphan_if_open_locked_def table_simps split: option.splits bool.splits if_splits)
next
  case (Close i)
  have "x - 1 \<noteq> 0" if "1 < x" for x :: u64 using that by auto
  then show ?thesis
    using assms Close by (auto simp: states_wf_def release_reference_locked_def finish_orphan_release_locked_def
        erase_inode_state_locked_def table_simps split: option.splits)
qed

lemma coord_refines:
  assumes wf: "states_wf t" and p: "\<not> neg64 (op_inode op)" and b: "refs (table_of t) (op_inode op) < 18446744073709551615"
  shows "(table_of (fst (coord_op op t)), snd (coord_op op t)) = spec_op op (table_of t)"
proof (cases op)
  case (Open i)
  have m: "unat (- 1 :: u64) = 18446744073709551615" by (simp add: unsigned_minus_1_eq_mask mask_eq_exp_minus_1)
  show ?thesis
  proof (cases "shard_find t i")
    case None
    then show ?thesis using Open p by (auto simp: table_of_def retain_locked_def table_simps fun_eq_iff)
  next
    case (Some s)
    then have l: "unat (open_references s) < 18446744073709551615" using b Open by (simp add: table_of_def)
    then have "open_references s \<noteq> - 1" using m by (metis less_irrefl)
    moreover have "unat (open_references s + 1) = Suc (unat (open_references s))"
      using l by (subst unat_add64) simp_all
    ultimately show ?thesis using Open p Some by (auto simp: table_of_def retain_locked_def table_simps fun_eq_iff)
  qed
next
  case (Unlink i)
  then show ?thesis using wf p
    by (auto simp: table_of_def mark_orphan_if_open_locked_def table_simps fun_eq_iff states_wf_def unat_eq_0 split: option.splits)
next
  case (Close i)
  show ?thesis
  proof (cases "shard_find t i")
    case None
    then show ?thesis using Close by (auto simp: table_of_def release_reference_locked_def)
  next
    case (Some s)
    have n: "open_references s \<noteq> 0" using wf Some by (auto simp: states_wf_def)
    have one: "unat (open_references s) = Suc 0 \<longleftrightarrow> open_references s = 1" by (metis One_nat_def unat_1 word_unat_eq_iff)
    show ?thesis
    proof (cases "1 < open_references s")
      case True
      then have "unat (open_references s - 1) = unat (open_references s) - 1" "unat (open_references s) \<noteq> Suc 0"
        using one by (simp_all add: unat_sub64)
      then show ?thesis
        using Close p Some n True by (auto simp: table_of_def release_reference_locked_def table_simps fun_eq_iff unat_eq_0)
    next
      case False
      then have "\<not> 1 < unat (open_references s)" "unat (open_references s) \<noteq> 0" using n by (simp_all add: word_less_nat_alt unat_eq_0)
      then have "open_references s = 1" using one by linarith
      then show ?thesis
        using Close p Some by (auto simp: table_of_def release_reference_locked_def finish_orphan_release_locked_def
            erase_inode_state_locked_def table_simps fun_eq_iff)
    qed
  qed
qed

text \<open>Any sequence of operations, with the answers.\<close>

fun run_ops :: "(open_op \<Rightarrow> 's \<Rightarrow> 's \<times> bool) \<Rightarrow> open_op list \<Rightarrow> 's \<Rightarrow> 's \<times> bool list" where
  "run_ops f [] s = (s, [])"
| "run_ops f (op # ops) s = (case f op s of (s, b) \<Rightarrow> case run_ops f ops s of (s, bs) \<Rightarrow> (s, b # bs))"

definition small_ops :: "open_op list \<Rightarrow> bool" where
  "small_ops ops \<longleftrightarrow> (\<forall>op \<in> set ops. \<not> neg64 (op_inode op))"

lemma spec_op_refs: "refs (fst (spec_op op s)) i \<le> refs s i + 1"
  by (cases op) auto

lemma run_refines:
  assumes "states_wf t" "small_ops ops" "\<forall>i. refs (table_of t) i + length ops < 18446744073709551615"
  shows "run_ops spec_op ops (table_of t) = (table_of (fst (run_ops coord_op ops t)), snd (run_ops coord_op ops t))"
  using assms
proof (induction ops arbitrary: t)
  case (Cons op ops)
  obtain t' b where o: "coord_op op t = (t', b)" by fastforce
  have b: "refs (table_of t) i < 18446744073709551615" for i using Cons.prems(3) [rule_format, of i] by linarith
  have p: "\<not> neg64 (op_inode op)" using Cons.prems(2) by (simp add: small_ops_def)
  have r: "spec_op op (table_of t) = (table_of t', b)" using coord_refines [OF Cons.prems(1) p b] o by simp
  have wf: "states_wf t'" using coord_op_wf [OF Cons.prems(1), of op] o by simp
  have "refs (table_of t') i + length ops < 18446744073709551615" for i
    using spec_op_refs [of op "table_of t" i] r Cons.prems(3) [rule_format, of i] by simp
  then have "run_ops spec_op ops (table_of t') = (table_of (fst (run_ops coord_op ops t')), snd (run_ops coord_op ops t'))"
    using Cons.IH [OF wf] Cons.prems(2) by (simp add: small_ops_def)
  then show ?case by (simp add: r o split: prod.splits)
qed simp

text \<open>C10. The table of open inodes refines counters: for every sequence of opens, unlinks and closes on the empty table,
  the coordinator answers to delete an inode exactly when its count says so, that is, at the unlink of an
  inode that is not open and at the last close of an inode unlinked while open, and its final state
  has the counts and the orphans of the specification.\<close>
theorem open_references_refine:
  assumes "small_ops ops" "length ops < 18446744073709551615"
  shows "run_ops spec_op ops \<lparr>refs = (\<lambda>_. 0), orphans = {}\<rparr> =
    (table_of (fst (run_ops coord_op ops (\<lambda>_. []))), snd (run_ops coord_op ops (\<lambda>_. [])))"
proof -
  have e: "table_of (\<lambda>_. []) = \<lparr>refs = (\<lambda>_. 0), orphans = {}\<rparr>" by (simp add: table_of_def shard_find_def)
  have "states_wf (\<lambda>_. [])" by (simp add: states_wf_def shard_find_def)
  then show ?thesis using run_refines [of "\<lambda>_. []" ops] assms by (simp add: e)
qed

theorem open_references_refine_witness:
  "snd (run_ops coord_op [Open 3, Open 3, Unlink 3, Close 3, Close 3, Unlink 4] (\<lambda>_. [])) = [False, False, False, False, True, True]"
proof -
  have "small_ops [Open 3, Open 3, Unlink 3, Close 3, Close 3, Unlink 4]" by (simp add: small_ops_def neg64_def)
  from open_references_refine [OF this] show ?thesis by simp
qed

end
