(* ===== verification/Namespace_Locks.thy ===== *)
theory Namespace_Locks
  imports Range_Grant Namespace_Coordinator
begin

text \<open>
  Directory locks of the namespace coordinator (\<open>acquire_ordered\<close> and \<open>LockSet\<close> of
  \<open>Async/namespace_coordinator.cpp\<close>).  Every directory has a range arbiter, and a lock is the
  permit for its whole range.  An operation takes the locks of its directories in ascending order
  of their inode numbers and releases them in the opposite order.

  A client is an operation, named by a number that also names its request in each arbiter.  Its
  steps interleave with those of the others; an arbiter acts on its owner's worker.
\<close>

section \<open>Which locks\<close>

definition ordered_set :: "i64 list \<Rightarrow> errno + i64 list" where
  "ordered_set directories =
     (if directories = [] \<or> 4 < length directories then Inl EINVAL
      else if list_ex neg64 directories then Inl EINVAL
      else Inr (remdups_adj (sort_key sint directories)))"

definition acquire_parent :: "i64 \<Rightarrow> range_mode \<Rightarrow> (errno + i64 list) \<times> range_mode" where
  "acquire_parent parent mode = (ordered_set [parent], mode)"

definition acquire_rename_parents :: "i64 \<Rightarrow> i64 \<Rightarrow> (errno + i64 list) \<times> range_mode" where
  "acquire_rename_parents first_parent second_parent = (ordered_set [first_parent, second_parent], write_mode)"

definition acquire_directory_set :: "i64 list \<Rightarrow> (errno + i64 list) \<times> range_mode" where
  "acquire_directory_set directories = (ordered_set directories, write_mode)"

definition kWholeInodeRange :: u64 where "kWholeInodeRange = - 1"

definition whole_request :: "range_mode \<Rightarrow> range_request" where
  "whole_request mode = projr (new_request 0 kWholeInodeRange mode)"

lemma whole_valid: "new_request 0 kWholeInodeRange mode = Inr (whole_request mode)"
  by (simp add: whole_request_def new_request_def kWholeInodeRange_def)

lemma whole_fields: "rq_phase (whole_request mode) = installing" "rq_error (whole_request mode) = 0" "rq_mode (whole_request mode) = mode"
  by (simp_all add: whole_request_def new_request_def kWholeInodeRange_def)

text \<open>The table of arbiters; a new inode gets the next arbiter.\<close>

definition range_for :: "bool \<Rightarrow> nat shards \<times> nat \<Rightarrow> i64 \<Rightarrow> (nat shards \<times> nat) \<times> (errno + nat)" where
  "range_for oom tab inode =
     (if neg64 inode then (tab, Inl EINVAL)
      else case shard_find (fst tab) inode of
             Some gate \<Rightarrow> (tab, Inr gate)
           | None \<Rightarrow> if oom then (tab, Inl ENOMEM) else ((shard_assign (fst tab) inode (snd tab), snd tab + 1), Inr (snd tab)))"

section \<open>Taking and releasing\<close>

text \<open>\<open>Taking mode held rest\<close>: the permits in \<open>held\<close> (last one first) are owned, those for \<open>rest\<close> are still to be
  acquired; \<open>Blocked\<close> waits for one of them; \<open>Freeing\<close> releases what is left.\<close>

datatype lock_pc = Outside | Taking range_mode "i64 list" "i64 list" | Blocked range_mode "i64 list" i64 "i64 list"
  | Inside "i64 list" | Freeing "i64 list"

record lock_world =
  gates :: "i64 \<Rightarrow> range_state"
  pcs :: "nat \<Rightarrow> lock_pc"

definition owner_here :: "range_state \<Rightarrow> resume_target" where
  "owner_here g = \<lparr>rt_runtime = owner_runtime g, rt_worker = owner_worker g, rt_pin_depth = 0, rt_owner = True\<rparr>"

definition set_pc :: "nat \<Rightarrow> lock_pc \<Rightarrow> lock_world \<Rightarrow> lock_world" where
  "set_pc c p w = w\<lparr>pcs := (pcs w)(c := p)\<rparr>"

definition set_gate :: "i64 \<Rightarrow> range_state \<Rightarrow> lock_world \<Rightarrow> lock_world" where
  "set_gate i g w = w\<lparr>gates := (gates w)(i := g)\<rparr>"

text \<open>One acquisition (\<open>acquire_into\<close>): the request is new, and a client that has to wait parks.\<close>

definition take_gate :: "bool \<Rightarrow> nat \<Rightarrow> range_mode \<Rightarrow> range_state \<Rightarrow> range_state \<times> acquire_result" where
  "take_gate oom c mode g =
     (let here = owner_here g;
          g = g\<lparr>requests := (requests g)(c := (whole_request mode)\<lparr>rq_coroutine := c, rq_target := here\<rparr>)\<rparr>
      in case acquire_on_owner here oom c g of
           (g, res) \<Rightarrow> (if res = acq_waiting then fst (park c g) else g, res))"

inductive lock_step :: "nat \<Rightarrow> lock_world \<Rightarrow> lock_world \<Rightarrow> bool" for c where
  enter: "pcs w c = Outside \<Longrightarrow> ordered_set ds = Inr xs \<Longrightarrow> lock_step c w (set_pc c (Taking mode [] xs) w)"
| take: "pcs w c = Taking mode held (i # rest) \<Longrightarrow> take_gate oom c mode (gates w i) = (g, res) \<Longrightarrow>
    lock_step c w (set_pc c (case res of acq_granted \<Rightarrow> Taking mode (i # held) rest | acq_waiting \<Rightarrow> Blocked mode held i rest
      | acq_failed \<Rightarrow> Freeing held) (set_gate i g w))"
| wake: "pcs w c = Blocked mode held i rest \<Longrightarrow> c \<in> set (active (gates w i)) \<Longrightarrow>
    lock_step c w (set_pc c (Taking mode (i # held) rest) w)"
| activate: "pcs w c = Taking mode held [] \<Longrightarrow> lock_step c w (set_pc c (Inside held) w)"
| unlock: "pcs w c = Inside held \<Longrightarrow> lock_step c w (set_pc c (Freeing held) w)"
| free: "pcs w c = Freeing (i # held) \<Longrightarrow> release_on_owner (owner_here (gates w i)) c (gates w i) = (g, direct, err) \<Longrightarrow>
    lock_step c w (set_pc c (Freeing held) (set_gate i g w))"
| leave: "pcs w c = Freeing [] \<Longrightarrow> lock_step c w (set_pc c Outside w)"

inductive_cases lock_stepE: "lock_step c w w'"

inductive lock_reachable :: "lock_world \<Rightarrow> bool" where
  start: "lock_reachable \<lparr>gates = (\<lambda>i. new_state (Some 0) (owner i)), pcs = (\<lambda>_. Outside)\<rparr>"
| step: "lock_reachable w \<Longrightarrow> lock_step c w w' \<Longrightarrow> lock_reachable w'"

section \<open>The order of the locks\<close>

lemma sint_inj: "sint (a :: i64) = sint b \<longleftrightarrow> a = b"
  by (metis signed_word_eqI)

lemma sorted_remdups_strict:
  "sorted (map sint xs) \<Longrightarrow> sorted_wrt (\<lambda>a b. sint a < sint (b :: i64)) (remdups_adj xs)"
proof (induction xs rule: remdups_adj.induct)
  case (3 x y xs)
  show ?case
  proof (cases "x = y")
    case False
    have le: "sint x \<le> sint y" "\<forall>z \<in> set xs. sint y \<le> sint z" using "3.prems" by simp_all
    then have "sint x < sint y" using False sint_inj [of x y] by simp
    then have "\<forall>z \<in> set (remdups_adj (y # xs)). sint x < sint z" using le by auto
    then show ?thesis using "3.IH"(2) [OF False] "3.prems" False by simp
  qed (use 3 in simp)
qed simp_all

lemma ordered_set_strict: "ordered_set ds = Inr xs \<Longrightarrow> sorted_wrt (\<lambda>a b. sint a < sint b) xs \<and> set xs = set ds \<and> (\<forall>i \<in> set xs. \<not> neg64 i)"
  using sorted_remdups_strict [of "sort_key sint ds"]
  by (auto simp: ordered_set_def list_ex_iff split: if_splits)

fun pc_held :: "lock_pc \<Rightarrow> i64 list" where
  "pc_held Outside = []"
| "pc_held (Taking m held rest) = held"
| "pc_held (Blocked m held i rest) = held"
| "pc_held (Inside held) = held"
| "pc_held (Freeing held) = held"

fun pc_todo :: "lock_pc \<Rightarrow> i64 list" where
  "pc_todo (Taking m held rest) = rest"
| "pc_todo (Blocked m held i rest) = i # rest"
| "pc_todo _ = []"

fun pc_wants :: "lock_pc \<Rightarrow> i64 option" where
  "pc_wants (Blocked m held i rest) = Some i"
| "pc_wants _ = None"

text \<open>Held and wanted locks of a client ascend.\<close>

definition pc_ok :: "lock_pc \<Rightarrow> bool" where
  "pc_ok p \<longleftrightarrow> sorted_wrt (\<lambda>a b. sint a < sint b) (rev (pc_held p) @ pc_todo p)"

definition gate_ok :: "lock_world \<Rightarrow> i64 \<Rightarrow> bool" where
  "gate_ok w i \<longleftrightarrow> queue_inv (gates w i) \<and>
     (\<forall>c. c \<in> set (waiting (gates w i)) \<longrightarrow> waitable (gates w i) c \<and> pc_wants (pcs w c) = Some i) \<and>
     (\<forall>c. c \<in> set (active (gates w i)) \<longleftrightarrow> i \<in> set (pc_held (pcs w c)) \<or> pc_wants (pcs w c) = Some i \<and> c \<notin> set (waiting (gates w i)))"

definition lock_inv :: "lock_world \<Rightarrow> bool" where
  "lock_inv w \<longleftrightarrow> (\<forall>c. pc_ok (pcs w c)) \<and> (\<forall>i. gate_ok w i)"

section \<open>Invariant\<close>

lemma gate_new: "gate_ok \<lparr>gates = (\<lambda>i. new_state (Some 0) (owner i)), pcs = (\<lambda>_. Outside)\<rparr> i"
  by (simp add: gate_ok_def new_state_def queue_inv_def exclusive_def)

text \<open>A step that only moves a client on keeps the gates in order.\<close>

lemma gate_pc:
  assumes "gate_ok w i" "i \<in> set (pc_held p) \<or> pc_wants p = Some i \<and> c \<notin> set (waiting (gates w i)) \<longleftrightarrow>
      i \<in> set (pc_held (pcs w c)) \<or> pc_wants (pcs w c) = Some i \<and> c \<notin> set (waiting (gates w i))"
    "pc_wants (pcs w c) = Some i \<longrightarrow> pc_wants p = Some i \<or> c \<notin> set (waiting (gates w i))"
  shows "gate_ok (set_pc c p w) i"
  using assms by (auto simp: gate_ok_def set_pc_def)

lemma inv_pc:
  assumes "lock_inv w" "pc_ok p"
    "\<And>i. i \<in> set (pc_held p) \<or> pc_wants p = Some i \<and> c \<notin> set (waiting (gates w i)) \<longleftrightarrow>
      i \<in> set (pc_held (pcs w c)) \<or> pc_wants (pcs w c) = Some i \<and> c \<notin> set (waiting (gates w i))"
    "\<And>i. pc_wants (pcs w c) = Some i \<Longrightarrow> pc_wants p = Some i \<or> c \<notin> set (waiting (gates w i))"
  shows "lock_inv (set_pc c p w)"
  unfolding lock_inv_def
proof (intro conjI allI)
  fix x
  show "pc_ok (pcs (set_pc c p w) x)" using assms(1,2) by (simp add: lock_inv_def set_pc_def)
  fix i
  show "gate_ok (set_pc c p w) i" by (rule gate_pc) (use assms in \<open>auto simp: lock_inv_def\<close>)
qed

text \<open>A step that changes gate \<open>i\<close> and moves client \<open>c\<close>: the other gates are untouched.\<close>

lemma inv_gate:
  assumes "lock_inv w" "pc_ok p" "\<And>j. j \<noteq> i \<Longrightarrow> j \<in> set (pc_held p) \<longleftrightarrow> j \<in> set (pc_held (pcs w c))"
    "pc_wants p \<in> {None, Some i}" "pc_wants (pcs w c) = None" "gate_ok (set_pc c p (set_gate i g w)) i"
  shows "lock_inv (set_pc c p (set_gate i g w))"
  unfolding lock_inv_def
proof (intro conjI allI)
  fix x
  show "pc_ok (pcs (set_pc c p (set_gate i g w)) x)" using assms(1,2) by (simp add: lock_inv_def set_pc_def set_gate_def)
  fix j
  show "gate_ok (set_pc c p (set_gate i g w)) j"
  proof (cases "j = i")
    case False
    have "gate_ok w j" using assms(1) by (simp add: lock_inv_def)
    then have "gate_ok (set_gate i g w) j" using False by (simp add: gate_ok_def set_gate_def)
    then show ?thesis by (rule gate_pc) (use assms(3-5) False in \<open>auto simp: set_gate_def\<close>)
  qed (use assms(6) in simp)
qed

lemma take_gate_spec:
  assumes ok: "gate_ok w i" and c: "c \<notin> set (active (gates w i)) \<union> set (waiting (gates w i))" and t: "take_gate oom c mode (gates w i) = (g, res)"
  obtains "res = acq_granted" "queue_inv g" "set (active g) = insert c (set (active (gates w i)))" "waiting g = waiting (gates w i)"
      "\<And>x. x \<noteq> c \<Longrightarrow> requests g x = requests (gates w i) x"
  | "res = acq_waiting" "queue_inv g" "active g = active (gates w i)" "set (waiting g) = insert c (set (waiting (gates w i)))"
      "waitable g c" "\<And>x. x \<noteq> c \<Longrightarrow> requests g x = requests (gates w i) x"
  | "res = acq_failed" "queue_inv g" "active g = active (gates w i)" "waiting g = waiting (gates w i)"
      "\<And>x. x \<noteq> c \<Longrightarrow> requests g x = requests (gates w i) x"
proof -
  let ?g = "gates w i"
  let ?a = "?g\<lparr>requests := (requests ?g)(c := (whole_request mode)\<lparr>rq_coroutine := c, rq_target := owner_here ?g\<rparr>)\<rparr>"
  have oa: "only c ?g ?a" using c by (simp add: only_def pending_def)
  have qa: "queue_inv ?a" using only_queue [OF oa] ok by (simp add: gate_ok_def)
  have ca: "c \<notin> set (active ?a) \<union> set (waiting ?a)" using c by simp
  have wa: "waitable ?a c" by (simp add: waitable_def whole_fields)
  have own: "on_owner (owner_here ?g) ?a" by (simp add: on_owner_def owner_here_def)
  obtain b where acq: "acquire_on_owner (owner_here ?g) oom c ?a = (b, res)" and g: "g = (if res = acq_waiting then fst (park c b) else b)"
    using t by (auto simp: take_gate_def Let_def split: prod.splits)
  show thesis
  proof (rule acquire_spec [OF acq qa ca wa own])
    assume r: "res = acq_granted" "woken {c} None ?a b" "active b = active ?a @ [c]" "waiting b = waiting ?a" "queue_inv b"
    then show thesis using that(1) g by (simp add: woken_def)
  next
    assume r: "res = acq_waiting" "woken {} None ?a b" "active b = active ?a" "waiting b = waiting ?a @ [c]" "queue_inv b"
    obtain b' s where p: "park c b = (b', s)" by fastforce
    have bq: "requests b c = requests ?a c" using r(2) by (simp add: woken_def)
    then have "rq_phase (requests b c) \<noteq> parked" by (simp add: whole_fields)
    note po = park_only [OF p this]
    have "waitable b' c" using po(3) bq by (simp add: waitable_def)
    then show thesis using that(2) [OF r(1)] only_queue [OF po(1) r(5)] po(1) r g p by (simp add: only_def woken_def)
  next
    assume r: "res = acq_failed" "b = wake_completed c (upd_request c (rq_error_update (\<lambda>_. ENOMEM)) ?a)"
    let ?e = "upd_request c (rq_error_update (\<lambda>_. ENOMEM)) ?a"
    have e: "only c ?a ?e" by (rule upd_only) (simp add: same_range_def)
    have "rq_phase (requests ?e c) \<noteq> granted_phase" "rq_coroutine (requests ?e c) = c" by (simp_all add: upd_request_def whole_fields)
    from only_trans [OF e wake_completed_only(1) [OF this]] have o: "only c ?a b" using r(2) by simp
    show thesis using that(3) [OF r(1)] only_queue [OF o qa] o g r(1) by (simp add: only_def)
  qed
qed

lemma pc_ok_simps:
  "pc_ok (Taking m held (i # rest)) \<Longrightarrow> pc_ok (Taking m (i # held) rest) \<and> pc_ok (Blocked m held i rest) \<and> pc_ok (Freeing held) \<and> i \<notin> set held"
  "pc_ok (Blocked m held i rest) \<Longrightarrow> pc_ok (Taking m (i # held) rest) \<and> (\<forall>j \<in> set held. sint j < sint i) \<and> i \<notin> set held"
  "pc_ok (Taking m held []) \<Longrightarrow> pc_ok (Inside held)" "pc_ok (Inside held) \<Longrightarrow> pc_ok (Freeing held)"
  "pc_ok (Freeing (i # held)) \<Longrightarrow> pc_ok (Freeing held) \<and> i \<notin> set held"
  by (auto simp: pc_ok_def sorted_wrt_append)

lemma take_inv:
  assumes inv: "lock_inv w" and p: "pcs w c = Taking mode held (i # rest)" and t: "take_gate oom c mode (gates w i) = (g, res)"
  shows "lock_inv (set_pc c (case res of acq_granted \<Rightarrow> Taking mode (i # held) rest | acq_waiting \<Rightarrow> Blocked mode held i rest
    | acq_failed \<Rightarrow> Freeing held) (set_gate i g w))"
proof -
  have ok: "gate_ok w i" "pc_ok (Taking mode held (i # rest))" using inv p by (auto simp: lock_inv_def) metis
  note po = pc_ok_simps(1) [OF ok(2)]
  have c: "c \<notin> set (active (gates w i)) \<union> set (waiting (gates w i))" using ok(1) p po by (auto simp: gate_ok_def)
  have wt: "waitable g x \<and> pc_wants (pcs w x) = Some i"
    if "x \<in> set (waiting (gates w i))" "x \<noteq> c" "requests g x = requests (gates w i) x" for x
    using ok(1) that by (auto simp: gate_ok_def waitable_def)
  have act: "x \<in> set (active (gates w i)) \<longleftrightarrow> i \<in> set (pc_held (pcs w x)) \<or> pc_wants (pcs w x) = Some i \<and> x \<notin> set (waiting (gates w i))" for x
    using ok(1) by (simp add: gate_ok_def)
  show ?thesis
  proof (rule take_gate_spec [OF ok(1) c t])
    assume r: "res = acq_granted" "queue_inv g" "set (active g) = insert c (set (active (gates w i)))" "waiting g = waiting (gates w i)"
      "\<And>x. x \<noteq> c \<Longrightarrow> requests g x = requests (gates w i) x"
    have "gate_ok (set_pc c (Taking mode (i # held) rest) (set_gate i g w)) i"
      using r(2-4) wt [OF _ _ r(5)] act c by (auto simp: gate_ok_def set_pc_def set_gate_def)
    then show ?thesis using inv_gate [OF inv, of "Taking mode (i # held) rest" i c g] po p r(1) by simp
  next
    assume r: "res = acq_waiting" "queue_inv g" "active g = active (gates w i)" "set (waiting g) = insert c (set (waiting (gates w i)))"
      "waitable g c" "\<And>x. x \<noteq> c \<Longrightarrow> requests g x = requests (gates w i) x"
    have "gate_ok (set_pc c (Blocked mode held i rest) (set_gate i g w)) i"
      using r(2-5) wt [OF _ _ r(6)] act c po by (auto simp: gate_ok_def set_pc_def set_gate_def)
    then show ?thesis using inv_gate [OF inv, of "Blocked mode held i rest" i c g] po p r(1) by simp
  next
    assume r: "res = acq_failed" "queue_inv g" "active g = active (gates w i)" "waiting g = waiting (gates w i)"
      "\<And>x. x \<noteq> c \<Longrightarrow> requests g x = requests (gates w i) x"
    have "gate_ok (set_pc c (Freeing held) (set_gate i g w)) i"
      using r(2-4) wt [OF _ _ r(5)] act c po by (auto simp: gate_ok_def set_pc_def set_gate_def)
    then show ?thesis using inv_gate [OF inv, of "Freeing held" i c g] po p r(1) by simp
  qed
qed

lemma free_inv:
  assumes inv: "lock_inv w" and p: "pcs w c = Freeing (i # held)"
    and r: "release_on_owner (owner_here (gates w i)) c (gates w i) = (g, direct, err)"
  shows "lock_inv (set_pc c (Freeing held) (set_gate i g w))"
proof -
  have ok: "gate_ok w i" "pc_ok (Freeing (i # held))" using inv p by (auto simp: lock_inv_def) metis
  note po = pc_ok_simps(5) [OF ok(2)]
  have c: "c \<in> set (active (gates w i))" using ok(1) p by (simp add: gate_ok_def)
  have q: "queue_inv (gates w i)" "\<forall>x \<in> set (waiting (gates w i)). waitable (gates w i) x" using ok(1) by (simp_all add: gate_ok_def)
  have "grant_waiters True ((gates w i)\<lparr>active := remove1 c (active (gates w i)), active_size := length (remove1 c (active (gates w i)))\<rparr>) = (g, direct)"
    using r c by (auto simp: release_on_owner_def on_owner_def owner_here_def Let_def split: prod.splits)
  then obtain gs where gs: "woken (set gs) direct (gates w i) g" "set (active g) = set (active (gates w i)) - {c} \<union> set gs"
    "set gs \<subseteq> set (waiting (gates w i))" "set (waiting g) = set (waiting (gates w i)) - set gs" "queue_inv g"
    by (rule release_spec [OF q(1) c q(2)])
  have act: "x \<in> set (active (gates w i)) \<longleftrightarrow> i \<in> set (pc_held (pcs w x)) \<or> pc_wants (pcs w x) = Some i \<and> x \<notin> set (waiting (gates w i))" for x
    using ok(1) by (simp add: gate_ok_def)
  have wt: "waitable g x" if "x \<in> set (waiting g)" for x
    using ok(1) that gs(1,4) by (auto simp: gate_ok_def waitable_def woken_def)
  have wn: "pc_wants (pcs w x) = Some i" if "x \<in> set (waiting (gates w i))" for x using ok(1) that by (simp add: gate_ok_def)
  have cn: "c \<notin> set (waiting (gates w i))" using wn [of c] p by auto
  have "x \<in> set (active g) \<longleftrightarrow> i \<in> set (pc_held (if x = c then Freeing held else pcs w x)) \<or>
      pc_wants (if x = c then Freeing held else pcs w x) = Some i \<and> x \<notin> set (waiting g)" for x
    using gs(2-4) act [of x] wn [of x] cn po by auto
  moreover have "waitable g x \<and> pc_wants (if x = c then Freeing held else pcs w x) = Some i" if "x \<in> set (waiting g)" for x
    using wt [OF that] wn [of x] that gs(4) cn by auto
  ultimately have "gate_ok (set_pc c (Freeing held) (set_gate i g w)) i"
    using gs(5) by (simp add: gate_ok_def set_pc_def set_gate_def)
  then show ?thesis using inv_gate [OF inv, of "Freeing held" i c g] po p by simp
qed

lemma lock_step_inv:
  assumes "lock_step c w w'" "lock_inv w"
  shows "lock_inv w'"
  using assms(1)
proof cases
  case (enter ds xs mode)
  have "pc_ok (Taking mode [] xs)" using ordered_set_strict [OF enter(3)] by (simp add: pc_ok_def)
  then show ?thesis using inv_pc [OF assms(2), of "Taking mode [] xs" c] enter by simp
next
  case (take mode held i rest oom g res)
  then show ?thesis using take_inv [OF assms(2)] by simp
next
  case (wake mode held i rest)
  have "pc_ok (Blocked mode held i rest)" "gate_ok w i" using assms(2) wake(2) by (auto simp: lock_inv_def) metis
  note po = pc_ok_simps(2) [OF this(1)] and ok = this(2)
  have "c \<notin> set (waiting (gates w i))" using ok wake(3) by (auto simp: gate_ok_def queue_inv_def)
  then show ?thesis using inv_pc [OF assms(2), of "Taking mode (i # held) rest" c] po wake by auto
next
  case (activate mode held)
  have "pc_ok (Taking mode held [])" using assms(2) activate(2) by (auto simp: lock_inv_def) metis
  then show ?thesis using inv_pc [OF assms(2), of "Inside held" c] activate pc_ok_simps(3) by simp
next
  case (unlock held)
  have "pc_ok (Inside held)" using assms(2) unlock(2) by (auto simp: lock_inv_def) metis
  then show ?thesis using inv_pc [OF assms(2), of "Freeing held" c] unlock pc_ok_simps(4) by simp
next
  case (free i held g direct err)
  then show ?thesis using free_inv [OF assms(2)] by simp
next
  case leave
  then show ?thesis using inv_pc [OF assms(2), of Outside c] by (simp add: pc_ok_def)
qed

lemma lock_reachable_inv: "lock_reachable w \<Longrightarrow> lock_inv w"
proof (induction rule: lock_reachable.induct)
  case (start owner)
  show ?case using gate_new by (simp add: lock_inv_def pc_ok_def)
next
  case (step w c w')
  then show ?case using lock_step_inv by blast
qed

section \<open>Properties\<close>

text \<open>A client that is neither outside nor blocked can always take a step.\<close>

lemma running_steps:
  assumes "pcs w c \<noteq> Outside" "pc_wants (pcs w c) = None"
  shows "\<exists>w'. lock_step c w w'"
proof (cases "pcs w c")
  case (Taking mode held rest)
  show ?thesis
  proof (cases rest)
    case Nil
    then show ?thesis using lock_step.activate Taking by blast
  next
    case (Cons i rs)
    obtain g res where "take_gate False c mode (gates w i) = (g, res)" by fastforce
    then show ?thesis using lock_step.take Taking Cons by blast
  qed
next
  case (Freeing held)
  show ?thesis
  proof (cases held)
    case Nil
    then show ?thesis using lock_step.leave Freeing by blast
  next
    case (Cons i rs)
    obtain g d e where "release_on_owner (owner_here (gates w i)) c (gates w i) = (g, d, e)" by (metis prod_cases3)
    then show ?thesis using lock_step.free Freeing Cons by blast
  qed
qed (use assms lock_step.unlock in auto)

text \<open>Whoever blocks a client either can go on or is blocked on a larger inode number.\<close>

lemma blocked_progress:
  assumes "lock_inv w" "pcs w c = Blocked mode held i rest"
  shows "\<exists>c' w'. pcs w c' \<noteq> Outside \<and> lock_step c' w w'"
  using assms(2)
proof (induction "nat (2 ^ 63 - sint i)" arbitrary: c mode held i rest rule: less_induct)
  case less
  have ok: "gate_ok w i" using assms(1) by (simp add: lock_inv_def)
  show ?case
  proof (cases "c \<in> set (active (gates w i))")
    case True
    then have "lock_step c w (set_pc c (Taking mode (i # held) rest) w)" by (rule lock_step.wake [OF less.prems])
    then show ?thesis using less.prems by (metis lock_pc.distinct(3))
  next
    case False
    then have cw: "c \<in> set (waiting (gates w i))" using ok less.prems by (auto simp: gate_ok_def)
    then have "0 < length (waiting (gates w i))" by (auto simp: length_pos_if_in_set)
    then obtain a where a: "a \<in> set (active (gates w i))"
      using ok blocked_nth [of "cf_of (gates w i)" "active (gates w i)" "[]" "waiting (gates w i)" 0] by (auto simp: gate_ok_def queue_inv_def)
    then consider "i \<in> set (pc_held (pcs w a))" | "pc_wants (pcs w a) = Some i" using ok by (auto simp: gate_ok_def)
    then show ?thesis
    proof cases
      case 1
      then have out: "pcs w a \<noteq> Outside" by auto
      show ?thesis
      proof (cases "pc_wants (pcs w a)")
        case None
        then show ?thesis using running_steps [OF out] out by blast
      next
        case (Some j)
        then obtain m h r where pa: "pcs w a = Blocked m h j r" by (cases "pcs w a") auto
        have "pc_ok (pcs w a)" using assms(1) by (simp add: lock_inv_def)
        then have "sint i < sint j" using pc_ok_simps(2) [of m h j r] 1 pa by auto
        moreover have "sint j < 2 ^ 63" using sint_lt [of j] by simp
        ultimately have "nat (2 ^ 63 - sint j) < nat (2 ^ 63 - sint i)" by linarith
        then show ?thesis using less.hyps pa by blast
      qed
    next
      case 2
      then obtain m h r where pa: "pcs w a = Blocked m h i r" by (cases "pcs w a") auto
      then have "lock_step a w (set_pc a (Taking m (i # h) r) w)" using a by (rule lock_step.wake)
      then show ?thesis using pa by (metis lock_pc.distinct(3))
    qed
  qed
qed

text \<open>C9. No deadlock: in every reachable state of any number of operations that lock directories through \<open>acquire_ordered\<close>,
  as long as one of them is under way, one that is under way can take a step.\<close>
theorem locks_deadlock_free:
  assumes "lock_reachable w" "pcs w c \<noteq> Outside"
  shows "\<exists>c' w'. pcs w c' \<noteq> Outside \<and> lock_step c' w w'"
proof (cases "pc_wants (pcs w c)")
  case None
  then show ?thesis using running_steps [OF assms(2)] assms(2) by blast
next
  case (Some i)
  then obtain m h r where "pcs w c = Blocked m h i r" by (cases "pcs w c") auto
  then show ?thesis by (rule blocked_progress [OF lock_reachable_inv [OF assms(1)]])
qed

text \<open>Two operations in a state where the second waits for the first.\<close>

definition demo_locks :: lock_world where
  "demo_locks =
     (let w = \<lparr>gates = (\<lambda>i. new_state (Some 0) 0), pcs = (\<lambda>_. Outside)\<rparr>;
          w = set_pc 0 (Taking write_mode [] [3, 7]) w;
          w = set_pc 0 (Taking write_mode [3] [7]) (set_gate 3 (fst (take_gate False 0 write_mode (gates w 3))) w);
          w = set_pc 1 (Taking read_mode [] [3]) w
      in set_pc 1 (Blocked read_mode [] 3 []) (set_gate 3 (fst (take_gate False 1 read_mode (gates w 3))) w))"

lemma demo_locks_reachable: "lock_reachable demo_locks" "pcs demo_locks 1 = Blocked read_mode [] 3 []" "pcs demo_locks 0 = Taking write_mode [3] [7]"
proof -
  define w0 where "w0 = \<lparr>gates = (\<lambda>i::i64. new_state (Some 0) 0), pcs = (\<lambda>_::nat. Outside)\<rparr>"
  define w1 where "w1 = set_pc 0 (Taking write_mode [] [3, 7]) w0"
  define w2 where "w2 = set_pc 0 (Taking write_mode [3] [7]) (set_gate 3 (fst (take_gate False 0 write_mode (gates w1 3))) w1)"
  define w3 where "w3 = set_pc 1 (Taking read_mode [] [3]) w2"
  have d: "demo_locks = set_pc 1 (Blocked read_mode [] 3 []) (set_gate 3 (fst (take_gate False 1 read_mode (gates w3 3))) w3)"
    by (simp add: demo_locks_def w0_def w1_def w2_def w3_def Let_def)
  have o: "ordered_set [7, 3, 7] = Inr [3, 7]" "ordered_set [3] = Inr [3]" by (simp_all add: ordered_set_def neg64_def)
  have r0: "lock_reachable w0" unfolding w0_def by (rule lock_reachable.start)
  have "lock_step 0 w0 w1" unfolding w1_def by (rule lock_step.enter [OF _ o(1)]) (simp add: w0_def)
  with r0 have r1: "lock_reachable w1" by (rule lock_reachable.step)
  have t: "snd (take_gate False 0 write_mode (gates w1 3)) = acq_granted" "snd (take_gate False 1 read_mode (gates w3 3)) = acq_waiting"
    unfolding w3_def w2_def w1_def w0_def by code_simp+
  have "lock_step 0 w1 w2"
    using lock_step.take [where c = 0 and w = w1 and i = 3 and oom = False, OF _ prod.collapse [symmetric]] t(1)
    by (simp add: w2_def) (simp add: w1_def set_pc_def)
  with r1 have r2: "lock_reachable w2" by (rule lock_reachable.step)
  have "lock_step 1 w2 w3" unfolding w3_def
    by (rule lock_step.enter [OF _ o(2)]) (simp add: w2_def w1_def w0_def set_pc_def set_gate_def)
  with r2 have r3: "lock_reachable w3" by (rule lock_reachable.step)
  have "lock_step 1 w3 demo_locks"
    using lock_step.take [where c = 1 and w = w3 and i = 3 and oom = False, OF _ prod.collapse [symmetric]] t(2)
    by (simp add: d) (simp add: w3_def set_pc_def)
  with r3 show "lock_reachable demo_locks" by (rule lock_reachable.step)
  show "pcs demo_locks 1 = Blocked read_mode [] 3 []" "pcs demo_locks 0 = Taking write_mode [3] [7]"
    by (simp_all add: d w3_def w2_def set_pc_def set_gate_def)
qed

theorem locks_deadlock_free_witness: "\<exists>c' w'. pcs demo_locks c' \<noteq> Outside \<and> lock_step c' demo_locks w'"
  using locks_deadlock_free [OF demo_locks_reachable(1), of 1] demo_locks_reachable(2) by simp

end
