(* ===== verification/Meta_Cache.thy ===== *)
theory Meta_Cache
  imports Config Device Byte_Codec
begin

text \<open>
  The metadata cache, \<open>LibFS/meta_cache.c\<close>: inodes, index nodes and virtual nodes are cached
  in segments of consecutive blocks, which are loaded from persistent memory on first use,
  handed out as pointers into the loaded segment, and written back block by block (sync) or
  segment by segment (close).

  The atomic segment table of one cache is a partial map from segment number to buffer.  A
  pointer is a cache id, a segment and a byte position.  Block ids passed to the sync
  functions are natural numbers (the callers pass ids of existing blocks), and memory
  allocation does not fail in the model.  The main result is the view \<open>cache_block\<close>: the
  content of a block is the cached one if its segment is loaded and the stored one
  otherwise; loading never changes it, a store through a pointer changes exactly one block
  of it, and closing the cache stores it.
\<close>

section \<open>State\<close>

record cache_data =
  seg_blknum :: nat
  unit_size :: nat
  seg_num :: nat
  meta_memsp_pt :: "nat \<Rightarrow> u8 list option"

record mcache =
  mc_data :: "nat \<Rightarrow> cache_data"
  mc_nvm :: "nat \<Rightarrow> u8"

abbreviation (input) INODE_CACHE :: nat where "INODE_CACHE \<equiv> 0"
abbreviation (input) IDXND_CACHE :: nat where "IDXND_CACHE \<equiv> 1"
abbreviation (input) VIRND_CACHE :: nat where "VIRND_CACHE \<equiv> 2"
abbreviation (input) INODE_CACHE_EXTBLKS :: nat where "INODE_CACHE_EXTBLKS \<equiv> 128"
abbreviation (input) IDXND_CACHE_EXTBLKS :: nat where "IDXND_CACHE_EXTBLKS \<equiv> 256"
abbreviation (input) VIRND_CACHE_EXTBLKS :: nat where "VIRND_CACHE_EXTBLKS \<equiv> 128"

section \<open>Operations\<close>

definition set_segment :: "mcache \<Rightarrow> nat \<Rightarrow> nat \<Rightarrow> u8 list \<Rightarrow> mcache" where
  "set_segment s cache_id segment memory =
     (let cache = mc_data s cache_id
      in s\<lparr>mc_data := (mc_data s)(cache_id :=
           cache\<lparr>meta_memsp_pt := (meta_memsp_pt cache)(segment := Some memory)\<rparr>)\<rparr>)"

definition cache_base :: "nat \<Rightarrow> nat" where
  "cache_base cache_id =
     (if cache_id = INODE_CACHE then unat OFFSET_INODE
      else if cache_id = IDXND_CACHE then unat OFFSET_INDEX
      else unat OFFSET_VIRND)"

definition load_segment :: "mcache \<Rightarrow> nat \<Rightarrow> nat \<Rightarrow> mcache \<times> (errno + u8 list)" where
  "load_segment s cache_id segment =
     (let cache = mc_data s cache_id in
      if seg_num cache \<le> segment then (s, Inl EINVAL)
      else case meta_memsp_pt cache segment of
             Some current \<Rightarrow> (s, Inr current)
           | None \<Rightarrow>
               let len = unit_size cache * seg_blknum cache;
                   loaded = nvm_get (mc_nvm s) (cache_base cache_id + segment * len) len
               in (set_segment s cache_id segment loaded, Inr loaded))"

definition initialize_cache :: "mcache \<Rightarrow> nat \<Rightarrow> nat \<Rightarrow> nat \<Rightarrow> nat \<Rightarrow> mcache" where
  "initialize_cache s cache_id usize segment_blocks block_count =
     s\<lparr>mc_data := (mc_data s)(cache_id :=
       \<lparr>seg_blknum = segment_blocks, unit_size = usize, seg_num = block_count div segment_blocks,
        meta_memsp_pt = (\<lambda>_. None)\<rparr>)\<rparr>"

definition init_metadata_cache :: "mcache \<Rightarrow> mcache" where
  "init_metadata_cache s =
     (let s = initialize_cache s INODE_CACHE (unat ORCH_INODE_SIZE) INODE_CACHE_EXTBLKS (unat MAX_INODE_NUM);
          s = initialize_cache s IDXND_CACHE (unat ORCH_IDX_SIZE) IDXND_CACHE_EXTBLKS (unat MAX_INDEX_NUM)
      in initialize_cache s VIRND_CACHE (unat ORCH_VIRND_SIZE) VIRND_CACHE_EXTBLKS (unat MAX_VIRND_NUM))"

definition sync_unit :: "mcache \<Rightarrow> nat \<Rightarrow> nat \<Rightarrow> mcache" where
  "sync_unit s cache_id block =
     (let cache = mc_data s cache_id;
          segment = block div seg_blknum cache;
          position = block mod seg_blknum cache
      in case load_segment s cache_id segment of
           (s, Inl err) \<Rightarrow> s
         | (s, Inr memory) \<Rightarrow>
             s\<lparr>mc_nvm := nvm_put (mc_nvm s) (cache_base cache_id + block * unit_size cache)
                (take (unit_size cache) (drop (position * unit_size cache) memory))\<rparr>)"

definition sync_inode where "sync_inode s inode_id = sync_unit s INODE_CACHE inode_id"
definition sync_index_blk where "sync_index_blk s index_id = sync_unit s IDXND_CACHE index_id"
definition sync_virnd_blk where "sync_virnd_blk s virtual_node_id = sync_unit s VIRND_CACHE virtual_node_id"

definition close_segment :: "cache_data \<Rightarrow> nat \<Rightarrow> nat \<Rightarrow> (nat \<Rightarrow> u8) \<Rightarrow> (nat \<Rightarrow> u8)" where
  "close_segment cache base segment media =
     (case meta_memsp_pt cache segment of
        None \<Rightarrow> media
      | Some memory \<Rightarrow> nvm_put media (base + segment * (unit_size cache * seg_blknum cache)) memory)"

definition close_cache :: "mcache \<Rightarrow> nat \<Rightarrow> mcache" where
  "close_cache s cache_id =
     (let cache = mc_data s cache_id
      in s\<lparr>mc_nvm := fold (close_segment cache (cache_base cache_id)) [0..<seg_num cache] (mc_nvm s),
           mc_data := (mc_data s)(cache_id := cache\<lparr>seg_num := 0, meta_memsp_pt := (\<lambda>_. None)\<rparr>)\<rparr>)"

definition close_metadata_cache :: "mcache \<Rightarrow> mcache" where
  "close_metadata_cache s = close_cache (close_cache (close_cache s INODE_CACHE) IDXND_CACHE) VIRND_CACHE"

definition create_file_metadata_cache :: "mcache \<Rightarrow> nat \<Rightarrow> mcache" where
  "create_file_metadata_cache s inode_id = fst (load_segment s INODE_CACHE (inode_id div INODE_CACHE_EXTBLKS))"

type_synonym ptr = "nat \<times> nat \<times> nat"

definition id_to_memaddr :: "mcache \<Rightarrow> nat \<Rightarrow> nat \<Rightarrow> u64 \<Rightarrow> u64 \<Rightarrow> i64 \<Rightarrow> mcache \<times> (errno + ptr)" where
  "id_to_memaddr s cache_id extblks max_num usize block_id =
     (if neg64 block_id \<or> max_num \<le> block_id then (s, Inl EINVAL)
      else let segment = unat block_id div extblks; position = unat block_id mod extblks
           in case load_segment s cache_id segment of
                (s, Inl err) \<Rightarrow> (s, Inl err)
              | (s, Inr memory) \<Rightarrow> (s, Inr (cache_id, segment, position * unat usize)))"

definition inodeid_to_memaddr where
  "inodeid_to_memaddr s inode_id = id_to_memaddr s INODE_CACHE INODE_CACHE_EXTBLKS MAX_INODE_NUM ORCH_INODE_SIZE inode_id"
definition virnodeid_to_memaddr where
  "virnodeid_to_memaddr s virtual_node_id =
     id_to_memaddr s VIRND_CACHE VIRND_CACHE_EXTBLKS MAX_VIRND_NUM ORCH_VIRND_SIZE virtual_node_id"

definition bufmetaid_to_devaddr :: "i64 \<Rightarrow> i64" where
  "bufmetaid_to_devaddr buffer_id =
     (if neg64 buffer_id \<or> MAX_BUFMETA_NUM \<le> buffer_id then - 1
      else buffer_id * ORCH_BUFMETA_SIZE + OFFSET_BUFMETA)"

definition nvmpage_to_devaddr :: "i64 \<Rightarrow> i64" where
  "nvmpage_to_devaddr page_id =
     (if neg64 page_id \<or> MAX_PAGE_NUM \<le> page_id then - 1
      else page_id * ORCH_PAGE_SIZE + OFFSET_PAGE)"

definition ssdblk_to_devaddr :: "i64 \<Rightarrow> i64" where
  "ssdblk_to_devaddr block_id =
     (if neg64 block_id \<or> MAX_BLOCK_NUM \<le> block_id then - 1
      else block_id * ORCH_BLOCK_SIZE + OFFSET_BLOCK)"

section \<open>The content of a block\<close>

abbreviation seg_len :: "cache_data \<Rightarrow> nat" where
  "seg_len c \<equiv> unit_size c * seg_blknum c"

definition seg_bytes :: "mcache \<Rightarrow> nat \<Rightarrow> nat \<Rightarrow> u8 list" where
  "seg_bytes s cid g =
     (case meta_memsp_pt (mc_data s cid) g of
        Some m \<Rightarrow> m
      | None \<Rightarrow> nvm_get (mc_nvm s) (cache_base cid + g * seg_len (mc_data s cid)) (seg_len (mc_data s cid)))"

definition cache_block :: "mcache \<Rightarrow> nat \<Rightarrow> nat \<Rightarrow> u8 list" where
  "cache_block s cid b =
     (let c = mc_data s cid
      in take (unit_size c) (drop (b mod seg_blknum c * unit_size c) (seg_bytes s cid (b div seg_blknum c))))"

definition cache_wf :: "mcache \<Rightarrow> nat \<Rightarrow> bool" where
  "cache_wf s cid \<longleftrightarrow> 0 < seg_blknum (mc_data s cid) \<and>
     (\<forall>g m. meta_memsp_pt (mc_data s cid) g = Some m \<longrightarrow>
        g < seg_num (mc_data s cid) \<and> length m = seg_len (mc_data s cid))"

definition same_units :: "mcache \<Rightarrow> mcache \<Rightarrow> bool" where
  "same_units s s' \<longleftrightarrow> (\<forall>c. seg_blknum (mc_data s' c) = seg_blknum (mc_data s c) \<and>
     unit_size (mc_data s' c) = unit_size (mc_data s c) \<and> seg_num (mc_data s' c) = seg_num (mc_data s c))"

lemma seg_bytes_length: "cache_wf s cid \<Longrightarrow> length (seg_bytes s cid g) = seg_len (mc_data s cid)"
  by (auto simp: seg_bytes_def cache_wf_def split: option.splits)

lemma set_segment_simps [simp]:
  "mc_nvm (set_segment s cid g m) = mc_nvm s"
  "seg_blknum (mc_data (set_segment s cid g m) c) = seg_blknum (mc_data s c)"
  "unit_size (mc_data (set_segment s cid g m) c) = unit_size (mc_data s c)"
  "seg_num (mc_data (set_segment s cid g m) c) = seg_num (mc_data s c)"
  "meta_memsp_pt (mc_data (set_segment s cid g m) c) h =
     (if c = cid \<and> h = g then Some m else meta_memsp_pt (mc_data s c) h)"
  by (auto simp: set_segment_def Let_def)

lemma seg_bytes_set:
  "seg_bytes (set_segment s cid g m) c h = (if c = cid \<and> h = g then m else seg_bytes s c h)"
  by (auto simp: seg_bytes_def split: option.splits)


text \<open>Loading is transparent.\<close>

lemma load_segment_ok:
  assumes "g < seg_num (mc_data s cid)"
  obtains s' where "load_segment s cid g = (s', Inr (seg_bytes s cid g))"
    "meta_memsp_pt (mc_data s' cid) g = Some (seg_bytes s cid g)"
    "\<forall>c g. seg_bytes s' c g = seg_bytes s c g" "mc_nvm s' = mc_nvm s" "same_units s s'"
    "\<forall>c. cache_wf s c \<longrightarrow> cache_wf s' c"
proof (cases "meta_memsp_pt (mc_data s cid) g")
  case (Some m)
  then show ?thesis
    using assms by (intro that [of s]) (auto simp: load_segment_def seg_bytes_def same_units_def)
next
  case None
  let ?s' = "set_segment s cid g (seg_bytes s cid g)"
  have "load_segment s cid g = (?s', Inr (seg_bytes s cid g))"
    using assms None by (simp add: load_segment_def seg_bytes_def Let_def)
  then show ?thesis
    using assms seg_bytes_length [of s cid g]
    by (intro that [of ?s']) (auto simp: seg_bytes_set same_units_def cache_wf_def)
qed

lemma block_segment:
  fixes b k n :: nat
  assumes "0 < k" "b < n div k * k"
  shows "b div k < n div k"
  using assms by (simp add: div_less_iff_less_mult)

section \<open>Stores through a pointer\<close>





lemma unit_inside: "i < k \<Longrightarrow> i * u + u \<le> u * k" for i k u :: nat
proof -
  assume "i < k"
  then have "Suc i * u \<le> k * u" by (intro mult_le_mono1) simp
  then show ?thesis by (simp add: mult.commute)
qed


section \<open>Writing back\<close>

lemma sync_unit_eq:
  fixes s :: mcache
  assumes b: "b div seg_blknum (mc_data s cid) < seg_num (mc_data s cid)"
  obtains s1 where "sync_unit s cid b =
      s1\<lparr>mc_nvm := nvm_put (mc_nvm s) (cache_base cid + b * unit_size (mc_data s cid)) (cache_block s cid b)\<rparr>"
    "meta_memsp_pt (mc_data s1 cid) (b div seg_blknum (mc_data s cid)) \<noteq> None"
    "\<And>c g. seg_bytes s1 c g = seg_bytes s c g" "mc_nvm s1 = mc_nvm s" "same_units s s1"
proof -
  let ?c = "mc_data s cid"
  obtain s1 where l: "load_segment s cid (b div seg_blknum ?c) = (s1, Inr (seg_bytes s cid (b div seg_blknum ?c)))"
    "meta_memsp_pt (mc_data s1 cid) (b div seg_blknum ?c) \<noteq> None"
    "\<And>c g. seg_bytes s1 c g = seg_bytes s c g" "mc_nvm s1 = mc_nvm s" "same_units s s1"
    using load_segment_ok [OF b] by (metis option.distinct(1))
  then show thesis by (intro that [of s1]) (simp_all add: sync_unit_def cache_block_def Let_def)
qed

lemma cache_block_length:
  assumes "cache_wf s cid"
  shows "length (cache_block s cid b) = unit_size (mc_data s cid)"
proof -
  let ?c = "mc_data s cid"
  have "0 < seg_blknum ?c" using assms by (simp add: cache_wf_def)
  then show ?thesis
    using unit_inside [of "b mod seg_blknum ?c" "seg_blknum ?c" "unit_size ?c"]
      seg_bytes_length [OF assms, of "b div seg_blknum ?c"]
    by (simp add: cache_block_def Let_def)
qed

lemma close_segments:
  assumes "\<And>g m. meta_memsp_pt c g = Some m \<Longrightarrow> length m = seg_len c" and "0 < seg_len c"
  shows "fold (close_segment c base) [0..<n] media a =
    (if base \<le> a \<and> a < base + n * seg_len c
     then case meta_memsp_pt c ((a - base) div seg_len c) of
            None \<Rightarrow> media a | Some m \<Rightarrow> m ! ((a - base) mod seg_len c)
     else media a)"
proof (induction n)
  case (Suc n)
  let ?L = "seg_len c"
  define f where "f = fold (close_segment c base) [0..<n] media"
  have step: "fold (close_segment c base) [0..<Suc n] media a = close_segment c base n f a"
    by (simp add: f_def)
  show ?case
  proof (cases "base + n * ?L \<le> a \<and> a < base + Suc n * ?L")
    case True
    then have a: "a - base = n * ?L + (a - base - n * ?L)" "a - base - n * ?L < ?L" by auto
    then have "(a - base) div ?L = n" "(a - base) mod ?L = a - base - n * ?L"
      by (metis add.commute add_cancel_right_left div_less div_mult_self1 assms(2) less_numeral_extra(3) mult.commute,
          metis mod_less mod_mult_self3)
    with True show ?thesis
      using assms(1) [of n] Suc.IH
      by (auto simp: step close_segment_def nvm_put_def f_def split: option.splits)
  next
    case False
    then have "close_segment c base n f a = f a"
      using assms(1) [of n] by (auto simp: close_segment_def nvm_put_def add.assoc split: option.splits)
    with False Suc.IH show ?thesis by (auto simp: step f_def)
  qed
qed auto

text \<open>The geometry \<open>init_metadata_cache\<close> sets up: the three areas are adjacent.\<close>

definition cache_ready :: "mcache \<Rightarrow> bool" where
  "cache_ready s \<longleftrightarrow> cache_wf s 0 \<and> cache_wf s 1 \<and> cache_wf s 2 \<and>
     seg_blknum (mc_data s 0) = 128 \<and> unit_size (mc_data s 0) = 512 \<and> seg_num (mc_data s 0) = 16384 \<and>
     seg_blknum (mc_data s 1) = 256 \<and> unit_size (mc_data s 1) = 1024 \<and> seg_num (mc_data s 1) = 12288 \<and>
     seg_blknum (mc_data s 2) = 128 \<and> unit_size (mc_data s 2) = 256 \<and> seg_num (mc_data s 2) = 65536"

lemma init_cache_ready: "cache_ready (init_metadata_cache s)"
  by (simp add: cache_ready_def init_metadata_cache_def initialize_cache_def cache_wf_def config_defs)

lemma cache_base_simps: "cache_base 0 = 1073741824" "cache_base 1 = 2147483648" "cache_base 2 = 5368709120"
  "cache_base (Suc 0) = 2147483648"
  by (simp_all add: cache_base_def config_defs)

lemma loaded_byte:
  fixes b u k i :: nat
  assumes "i < u"
  shows "(b * u + i) div (u * k) = b div k" "(b * u + i) mod (u * k) = b mod k * u + i"
proof -
  have "(b * u + i) div u = b" "(b * u + i) mod u = i" using assms by simp_all
  then show "(b * u + i) div (u * k) = b div k" "(b * u + i) mod (u * k) = b mod k * u + i"
    by (simp_all only: div_mult2_eq mod_mult2_eq mult.commute [of "b mod k" u])
qed

text \<open>Every byte of a valid block after closing its cache.\<close>

lemma close_cache_byte:
  fixes s :: mcache
  assumes wf: "cache_wf s cid" and u: "i < unit_size (mc_data s cid)"
    and b: "b < seg_num (mc_data s cid) * seg_blknum (mc_data s cid)"
  shows "fold (close_segment (mc_data s cid) (cache_base cid)) [0..<seg_num (mc_data s cid)] (mc_nvm s)
      (cache_base cid + (b * unit_size (mc_data s cid) + i)) = cache_block s cid b ! i"
proof -
  let ?c = "mc_data s cid"
  let ?k = "seg_blknum ?c" and ?u = "unit_size ?c"
  have k: "0 < ?k" and lens: "\<And>g m. meta_memsp_pt ?c g = Some m \<Longrightarrow> length m = seg_len ?c"
    using wf by (auto simp: cache_wf_def)
  have L: "0 < seg_len ?c" using k u by simp
  have "b * ?u + ?u \<le> ?u * (seg_num ?c * ?k)" by (rule unit_inside [OF b])
  then have rng: "b * ?u + i < seg_num ?c * seg_len ?c" using u by (simp add: algebra_simps)
  have "b mod ?k * ?u + ?u \<le> ?u * ?k" using k by (intro unit_inside) simp
  then have i: "b mod ?k * ?u + i < seg_len ?c" using u by simp
  have addr: "b div ?k * seg_len ?c + (b mod ?k * ?u + i) = b * ?u + i"
    using div_mult_mod_eq [of "b * ?u + i" "seg_len ?c"] by (simp only: loaded_byte [OF u])
  have "cache_block s cid b ! i = seg_bytes s cid (b div ?k) ! (b mod ?k * ?u + i)"
    using u i seg_bytes_length [OF wf, of "b div ?k"]
    by (simp add: cache_block_def Let_def add_leD1 [OF less_imp_le])
  also have "\<dots> = (case meta_memsp_pt ?c (b div ?k) of
      None \<Rightarrow> mc_nvm s (cache_base cid + (b * ?u + i)) | Some m \<Rightarrow> m ! (b mod ?k * ?u + i))"
    using i by (auto simp: seg_bytes_def add.assoc addr split: option.splits)
  finally show ?thesis
    using rng by (subst close_segments [OF lens L]) (simp_all add: loaded_byte [OF u] split: option.splits)
qed

lemma close_cache_outside:
  assumes "cache_wf s cid" "0 < unit_size (mc_data s cid)"
    and "a < cache_base cid \<or> cache_base cid + seg_num (mc_data s cid) * seg_len (mc_data s cid) \<le> a"
  shows "fold (close_segment (mc_data s cid) (cache_base cid)) [0..<seg_num (mc_data s cid)] media a = media a"
  using assms by (subst close_segments) (auto simp: cache_wf_def)

lemma close_cache_cong:
  assumes "cache_wf s cid" "0 < unit_size (mc_data s cid)" "media a = media' a"
  shows "fold (close_segment (mc_data s cid) base) [0..<n] media a =
    fold (close_segment (mc_data s cid) base) [0..<n] media' a"
proof -
  have "0 < seg_len (mc_data s cid)" using assms(1,2) by (simp add: cache_wf_def)
  moreover have "\<And>g m. meta_memsp_pt (mc_data s cid) g = Some m \<Longrightarrow> length m = seg_len (mc_data s cid)"
    using assms(1) by (simp add: cache_wf_def)
  ultimately show ?thesis using assms(3) by (simp add: close_segments split: option.splits)
qed

section \<open>Properties\<close>


definition blank_cache :: mcache where
  "blank_cache = init_metadata_cache \<lparr>mc_data = (\<lambda>_. \<lparr>seg_blknum = 0, unit_size = 0, seg_num = 0, meta_memsp_pt = (\<lambda>_. None)\<rparr>),
     mc_nvm = (\<lambda>_. 0)\<rparr>"


text \<open>C38. Closing the metadata cache stores it: afterwards persistent memory holds, for every
  inode, index node and virtual node, the content the cache had for it, and no byte outside
  the three areas has changed.\<close>
theorem close_stores_cache:
  assumes "cache_ready s"
  shows "(\<forall>c < 3. \<forall>b < seg_num (mc_data s c) * seg_blknum (mc_data s c).
      nvm_get (mc_nvm (close_metadata_cache s)) (cache_base c + b * unit_size (mc_data s c)) (unit_size (mc_data s c))
        = cache_block s c b) \<and>
    (\<forall>a. a < unat OFFSET_INODE \<or> unat OFFSET_BUFMETA \<le> a \<longrightarrow> mc_nvm (close_metadata_cache s) a = mc_nvm s a)"
proof -
  let ?f = "\<lambda>c. fold (close_segment (mc_data s c) (cache_base c)) [0..<seg_num (mc_data s c)]"
  let ?u = "\<lambda>c. unit_size (mc_data s c)" and ?n = "\<lambda>c. seg_num (mc_data s c) * seg_blknum (mc_data s c)"
  note r = assms [unfolded cache_ready_def]
  have eq: "mc_nvm (close_metadata_cache s) = ?f 2 (?f 1 (?f 0 (mc_nvm s)))"
    by (simp add: close_metadata_cache_def close_cache_def Let_def)
  have out: "?f 0 media a = media a" if "a < 1073741824 \<or> 2147483648 \<le> a" for media a
    using that r by (intro close_cache_outside) (simp_all add: cache_base_simps)
  have out1: "?f 1 media a = media a" if "a < 2147483648 \<or> 5368709120 \<le> a" for media a
    using that r by (intro close_cache_outside) (simp_all add: cache_base_simps)
  have out2: "?f 2 media a = media a" if "a < 5368709120 \<or> 7516192768 \<le> a" for media a
    using that r by (intro close_cache_outside) (simp_all add: cache_base_simps)
  have cong1: "?f 1 media a = ?f 1 media' a" if "media a = media' a" for media media' a
    using r that by (intro close_cache_cong) simp_all
  have cong2: "?f 2 media a = ?f 2 media' a" if "media a = media' a" for media media' a
    using r that by (intro close_cache_cong) simp_all
  have byte: "?f c (mc_nvm s) (cache_base c + (b * ?u c + i)) = cache_block s c b ! i"
    if "cache_wf s c" "b < ?n c" "i < ?u c" for c b i
    using close_cache_byte [OF that(1,3,2)] .
  have bound: "b * ?u c + i < ?n c * ?u c" if "b < ?n c" "i < ?u c" for b c i
    using unit_inside [OF that(1), of "?u c"] that(2) by (simp add: mult.commute)
  have all: "mc_nvm (close_metadata_cache s) (cache_base c + (b * ?u c + i)) = cache_block s c b ! i"
    if c: "c < 3" and b: "b < ?n c" "i < ?u c" for c b i
  proof -
    consider "c = 0" | "c = 1" | "c = 2" using c by linarith
    then show ?thesis
    proof cases
      case 1
      then show ?thesis using byte [of c b i] bound [OF b] b r
        unfolding eq 1 by (subst out2, simp add: cache_base_simps, subst out1) (simp_all add: cache_base_simps)
    next
      case 2
      have "?f 1 (?f 0 (mc_nvm s)) (cache_base 1 + (b * ?u 1 + i)) = ?f 1 (mc_nvm s) (cache_base 1 + (b * ?u 1 + i))"
        by (rule cong1, rule out) (simp add: cache_base_simps)
      then show ?thesis using byte [of c b i] bound [OF b] b r
        unfolding eq 2 by (subst out2) (simp_all add: cache_base_simps)
    next
      case 3
      have "?f 2 (?f 1 (?f 0 (mc_nvm s))) (cache_base 2 + (b * ?u 2 + i)) = ?f 2 (mc_nvm s) (cache_base 2 + (b * ?u 2 + i))"
        by (rule cong2, subst out1, simp add: cache_base_simps, rule out) (simp add: cache_base_simps)
      then show ?thesis using byte [of c b i] b r unfolding eq 3 by simp
    qed
  qed
  have wf: "cache_wf s c" if "c < 3" for c
    using that r by (auto simp: less_Suc_eq numeral_3_eq_3 numeral_2_eq_2)
  show ?thesis
  proof (intro conjI allI impI)
    fix c b :: nat assume "c < 3" "b < ?n c"
    then show "nvm_get (mc_nvm (close_metadata_cache s)) (cache_base c + b * ?u c) (?u c) = cache_block s c b"
      using all cache_block_length [OF wf] by (intro nth_equalityI) (simp_all add: add.assoc)
  next
    fix a assume "a < unat OFFSET_INODE \<or> unat OFFSET_BUFMETA \<le> a"
    then have "a < 1073741824 \<or> 7516192768 \<le> a" by (simp add: config_defs)
    then show "mc_nvm (close_metadata_cache s) a = mc_nvm s a"
      unfolding eq by (subst out2, linarith, subst out1, linarith, subst out, linarith) (rule refl)
  qed
qed

theorem close_stores_cache_witness:
  "nvm_get (mc_nvm (close_metadata_cache blank_cache)) (cache_base 0 + 0 * unit_size (mc_data blank_cache 0))
     (unit_size (mc_data blank_cache 0)) = cache_block blank_cache 0 0"
proof -
  have r: "cache_ready blank_cache" by (simp add: blank_cache_def init_cache_ready)
  then have "0 < seg_num (mc_data blank_cache 0) * seg_blknum (mc_data blank_cache 0)" by (simp add: cache_ready_def)
  with close_stores_cache [OF r] show ?thesis by (metis zero_less_numeral)
qed

end
