(* ===== verification/Index_Node.thy ===== *)
theory Index_Node
  imports Lib_Space
begin

text \<open>
  Node layout, search and insertion of the file index (\<open>LibFS/index.c\<close>): a radix tree over
  42-bit block offsets with 64-way nodes, in which a node stands for up to six compressed
  layers whose key part must be zero.  Index nodes are blocks of 1024 bytes addressed by
  id; the model reads and writes their 64-bit words.

  \<open>search_leaf_node\<close> returns \<^const>\<open>Inl\<close> for an error, \<open>Inr None\<close> when the tree has no leaf
  for the offset, and the leaf's id otherwise.  The pointer argument \<open>father_pt\<close> of
  \<open>insert_node_into_index\<close> is the location it points to: the entry field of the root block
  or a son slot of a node.
\<close>

declare One_nat_def [simp del]

section \<open>Layout\<close>

abbreviation (input) IDX_ROOT :: i64 where "IDX_ROOT \<equiv> 0"
abbreviation (input) NOT_LEAF_NODE :: i64 where "NOT_LEAF_NODE \<equiv> 1"
abbreviation (input) LEAF_NODE :: i64 where "LEAF_NODE \<equiv> 2"
abbreviation (input) VIR_LEAF_NODE :: i64 where "VIR_LEAF_NODE \<equiv> 3"
abbreviation (input) STRATA_NODE :: i64 where "STRATA_NODE \<equiv> 4"
abbreviation (input) SSD_BLOCK :: i64 where "SSD_BLOCK \<equiv> 5"
abbreviation (input) EMPTY_BLK_TYPE :: i64 where "EMPTY_BLK_TYPE \<equiv> - 1"
abbreviation (input) EMPTY_BLKID :: i64 where "EMPTY_BLKID \<equiv> - 1"

abbreviation (input) LAYER_BITWIDTH :: nat where "LAYER_BITWIDTH \<equiv> 6"
abbreviation (input) MAX_ZIPPED_LAYER :: nat where "MAX_ZIPPED_LAYER \<equiv> 6"
abbreviation (input) KEY_LEN :: nat where "KEY_LEN \<equiv> 42"
abbreviation (input) NODE_SON_CAPACITY :: nat where "NODE_SON_CAPACITY \<equiv> 64"
abbreviation (input) VLN_SLOT_SUM :: nat where "VLN_SLOT_SUM \<equiv> 8"

text \<open>\<open>struct index_node_t\<close>: words 0 and 1, two flag words, two reserved words, 64 sons.\<close>

abbreviation ndtype :: "blk \<Rightarrow> i64" where "ndtype b \<equiv> b 0"
abbreviation zipped_layer :: "blk \<Rightarrow> i64" where "zipped_layer b \<equiv> b 1"
abbreviation virnd_flag :: "blk \<Rightarrow> nat \<Rightarrow> u64" where "virnd_flag b i \<equiv> b (2 + i)"
abbreviation son_blk_id :: "blk \<Rightarrow> nat \<Rightarrow> i64" where "son_blk_id b i \<equiv> b (6 + i)"

text \<open>\<open>struct index_root_t\<close>.\<close>

abbreviation idx_inode_id :: "blk \<Rightarrow> i64" where "idx_inode_id b \<equiv> b 1"
abbreviation idx_entry_blkid :: "blk \<Rightarrow> i64" where "idx_entry_blkid b \<equiv> b 2"
abbreviation max_blk_offset :: "blk \<Rightarrow> i64" where "max_blk_offset b \<equiv> b 3"

text \<open>\<open>struct virtual_node_t\<close>.\<close>

abbreviation vn_ssd_dev_addr :: "blk \<Rightarrow> u64" where "vn_ssd_dev_addr b \<equiv> b 1"
abbreviation vn_max_pos :: "blk \<Rightarrow> i64" where "vn_max_pos b \<equiv> b 2"
abbreviation vn_nvm_page_id :: "blk \<Rightarrow> nat \<Rightarrow> i64" where "vn_nvm_page_id b i \<equiv> b (3 + i)"
abbreviation vn_buf_meta_id :: "blk \<Rightarrow> nat \<Rightarrow> i64" where "vn_buf_meta_id b i \<equiv> b (11 + i)"

datatype father = Root_entry i64 | Son_slot i64 nat

fun father_block :: "father \<Rightarrow> i64" where
  "father_block (Root_entry r) = r"
| "father_block (Son_slot n k) = n"

fun father_word :: "father \<Rightarrow> nat" where
  "father_word (Root_entry r) = 2"
| "father_word (Son_slot n k) = 6 + k"

definition set_word :: "(i64 \<Rightarrow> blk) \<Rightarrow> i64 \<Rightarrow> nat \<Rightarrow> u64 \<Rightarrow> (i64 \<Rightarrow> blk)" where
  "set_word mem b w v = mem(b := (mem b)(w := v))"

text \<open>\<open>indexid_to_memaddr\<close> and \<open>virnodeid_to_memaddr\<close> return a null pointer outside the
  area of their kind.\<close>

definition indexid_ok :: "i64 \<Rightarrow> bool" where
  "indexid_ok n \<longleftrightarrow> \<not> neg64 n \<and> n < MAX_INDEX_NUM"

definition virnodeid_ok :: "i64 \<Rightarrow> bool" where
  "virnodeid_ok n \<longleftrightarrow> \<not> neg64 n \<and> n < MAX_VIRND_NUM"

definition node_init :: "blk \<Rightarrow> i64 \<Rightarrow> i64 \<Rightarrow> blk" where
  "node_init b init_zipped_layer ntype =
     (\<lambda>w. if w = 0 then ntype else if w = 1 then init_zipped_layer
          else if w = 2 \<or> w = 4 then 0
          else if 6 \<le> w \<and> w < 6 + NODE_SON_CAPACITY then EMPTY_BLKID else b w)"

definition vir_node_init :: "blk \<Rightarrow> i64 \<Rightarrow> blk" where
  "vir_node_init b ntype =
     (\<lambda>w. if w = 0 then ntype else if w = 1 then EMPTY_BLKID else if w = 2 then 0
          else if 3 \<le> w \<and> w < 3 + 2 * VLN_SLOT_SUM then EMPTY_BLKID else b w)"

section \<open>Key parts\<close>

definition zipped_part :: "nat \<Rightarrow> nat \<Rightarrow> i64 \<Rightarrow> u64" where
  "zipped_part searched_len zipped_len off =
     (let move_bits = KEY_LEN - searched_len - zipped_len;
          zipped_part_bit = push_bit move_bits (push_bit zipped_len 1 - 1)
      in drop_bit move_bits (zipped_part_bit AND off))"

definition next_layer_key :: "nat \<Rightarrow> nat \<Rightarrow> i64 \<Rightarrow> u64" where
  "next_layer_key searched_len zipped_len off =
     (let move_bits = KEY_LEN - searched_len - zipped_len - LAYER_BITWIDTH;
          next_layer_bit = push_bit move_bits (push_bit LAYER_BITWIDTH 1 - 1)
      in drop_bit move_bits (next_layer_bit AND off))"

definition level_zipped_part :: "u64 \<Rightarrow> nat \<Rightarrow> nat \<Rightarrow> u64" where
  "level_zipped_part zp zipped_layer_num i =
     (let ziplayer_pos = (zipped_layer_num - i) * LAYER_BITWIDTH;
          layer_bit = push_bit ziplayer_pos (push_bit LAYER_BITWIDTH 1 - 1)
      in drop_bit ziplayer_pos (zp AND layer_bit))"

definition allow_zipped_layer :: "u64 \<Rightarrow> nat \<Rightarrow> nat" where
  "allow_zipped_layer zp zipped_layer_num =
     (case find (\<lambda>i. level_zipped_part zp zipped_layer_num i \<noteq> 0) [1..<Suc zipped_layer_num] of
        Some i \<Rightarrow> i - 1
      | None \<Rightarrow> 0)"

text \<open>The consistency test both functions make on a node.\<close>

definition bad_node :: "blk \<Rightarrow> nat \<Rightarrow> bool" where
  "bad_node nd searched_len \<longleftrightarrow>
     neg64 (zipped_layer nd) \<or> int MAX_ZIPPED_LAYER < sint (zipped_layer nd) \<or>
     KEY_LEN - searched_len < unat (zipped_layer nd) * LAYER_BITWIDTH \<or>
     ndtype nd \<noteq> LEAF_NODE \<and> ndtype nd \<noteq> NOT_LEAF_NODE \<or>
     ndtype nd = NOT_LEAF_NODE \<and>
       KEY_LEN - searched_len < unat (zipped_layer nd) * LAYER_BITWIDTH + LAYER_BITWIDTH"

section \<open>Search\<close>

function search_leaf_node ::
  "(i64 \<Rightarrow> blk) \<Rightarrow> i64 \<Rightarrow> i64 \<Rightarrow> nat \<Rightarrow> i64 \<Rightarrow> errno + i64 option" where
  "search_leaf_node mem now_idxnd_id inode_id searched_len blk_offset =
     (if now_idxnd_id = EMPTY_BLKID then Inr None
      else if neg64 now_idxnd_id \<or> neg64 inode_id \<or> KEY_LEN < searched_len \<or> neg64 blk_offset \<or>
              push_bit KEY_LEN 1 \<le> blk_offset
      then Inl EINVAL
      else if \<not> indexid_ok now_idxnd_id then Inl EIO
      else let now_idxnd = mem now_idxnd_id in
           if bad_node now_idxnd searched_len then Inl EIO
           else let zipped_len = unat (zipped_layer now_idxnd) * LAYER_BITWIDTH in
                if zipped_part searched_len zipped_len blk_offset \<noteq> 0 then Inr None
                else if ndtype now_idxnd = LEAF_NODE then Inr (Some now_idxnd_id)
                else search_leaf_node mem
                       (son_blk_id now_idxnd (unat (next_layer_key searched_len zipped_len blk_offset)))
                       inode_id (searched_len + zipped_len + LAYER_BITWIDTH) blk_offset)"
  by pat_completeness auto
termination
  by (relation "measure (\<lambda>(mem, n, ino, s, off). KEY_LEN - s)") (auto simp: bad_node_def)

declare search_leaf_node.simps [simp del]

section \<open>Insertion\<close>

text \<open>A new son for an empty slot: a leaf when 36 key bits are used up.\<close>

definition insert_add_son ::
  "libfs \<Rightarrow> i64 \<Rightarrow> nat \<Rightarrow> nat \<Rightarrow> nat \<Rightarrow> libfs \<times> (errno + unit)" where
  "insert_add_son st now_idxnd_id searched_len zipped_len son_arridx =
     (case require_index_node_id st of
        (st, Inl err) \<Rightarrow> (st, Inl ENOSPC)
      | (st, Inr new_idx_id) \<Rightarrow>
          let st = write_create_log st new_idx_id IDXND_OP in
          if \<not> indexid_ok new_idx_id then (st, Inl EIO)
          else
            let newnd_type = (if searched_len + zipped_len + LAYER_BITWIDTH = KEY_LEN - LAYER_BITWIDTH
                              then LEAF_NODE else NOT_LEAF_NODE);
                st = st\<lparr>idx_mem := (idx_mem st)(new_idx_id :=
                       node_init (idx_mem st new_idx_id) 0 newnd_type)\<rparr>;
                st = write_change_log st new_idx_id IDXND_OP (idx_mem st new_idx_id) 0 (unat ORCH_IDX_SIZE);
                st = st\<lparr>idx_mem := set_word (idx_mem st) now_idxnd_id (6 + son_arridx) new_idx_id\<rparr>;
                st = write_change_log st now_idxnd_id IDXND_OP (idx_mem st now_idxnd_id)
                       (48 + son_arridx * 8) 8
            in (st, Inr ()))"

text \<open>A new node above one whose compressed layers do not match: the old subtree becomes
  son 0 and keeps the layers below the first non-zero one.\<close>

definition insert_split ::
  "libfs \<Rightarrow> i64 \<Rightarrow> father \<Rightarrow> u64 \<Rightarrow> libfs \<times> (errno + i64)" where
  "insert_split st now_idxnd_id father_pt zp =
     (let zipped_layer_num = unat (zipped_layer (idx_mem st now_idxnd_id));
          allow = allow_zipped_layer zp zipped_layer_num
      in case require_index_node_id st of
           (st, Inl err) \<Rightarrow> (st, Inl ENOSPC)
         | (st, Inr new_idx_id) \<Rightarrow>
             let st = write_create_log st new_idx_id IDXND_OP in
             if \<not> indexid_ok new_idx_id then (st, Inl EIO)
             else
               let st = st\<lparr>idx_mem := (idx_mem st)(new_idx_id :=
                          node_init (idx_mem st new_idx_id) (of_nat allow) NOT_LEAF_NODE)\<rparr>;
                   st = st\<lparr>idx_mem := set_word (idx_mem st) new_idx_id 6 now_idxnd_id\<rparr>;
                   st = write_change_log st new_idx_id IDXND_OP (idx_mem st new_idx_id) 0 (unat ORCH_IDX_SIZE);
                   st = st\<lparr>idx_mem := set_word (idx_mem st) now_idxnd_id 1
                          (of_nat (zipped_layer_num - allow - 1))\<rparr>;
                   st = write_change_log st now_idxnd_id IDXND_OP (idx_mem st now_idxnd_id) 8 8;
                   st = st\<lparr>idx_mem := set_word (idx_mem st) (father_block father_pt)
                          (father_word father_pt) new_idx_id\<rparr>
               in (st, Inr new_idx_id))"

lemma zipped_part_0 [simp]: "zipped_part s 0 off = 0"
  by (simp add: zipped_part_def)

lemma allow_less: "0 < z \<Longrightarrow> allow_zipped_layer zp z < z"
  by (auto simp: allow_zipped_layer_def find_Some_iff less_Suc_eq_le split: option.splits
      dest!: nth_mem [of _ "[1..<Suc z]"] simp del: upt_Suc)

lemma father_word_not_1 [simp]: "father_word f \<noteq> 1" "father_word f \<noteq> 0" "father_word f \<noteq> Suc 0"
  by (cases f; simp)+

text \<open>The memory after a split.\<close>

definition split_mem :: "(i64 \<Rightarrow> blk) \<Rightarrow> i64 \<Rightarrow> father \<Rightarrow> nat \<Rightarrow> i64 \<Rightarrow> (i64 \<Rightarrow> blk)" where
  "split_mem mem n f a m =
     set_word
       (set_word
         (set_word (mem(m := node_init (mem m) (of_nat a) NOT_LEAF_NODE)) m 6 n)
         n 1 (of_nat (unat (zipped_layer (mem n)) - a - 1)))
       (father_block f) (father_word f) m"

lemma insert_split_ok:
  assumes "insert_split st n f zp = (st', Inr m)"
  obtains s0 where "require_index_node_id st = (s0, Inr m)" "indexid_ok m" "bmps st' = bmps s0"
    "worker st' = worker s0"
    "idx_mem st' = split_mem (idx_mem st) n f
       (allow_zipped_layer zp (unat (zipped_layer (idx_mem st n)))) m"
    "vir_mem st' = vir_mem st" "inode_mem st' = inode_mem st" "nvm st' = nvm st"
proof -
  from assms obtain s0 where s0: "require_index_node_id st = (s0, Inr m)" "indexid_ok m"
    by (auto simp: insert_split_def Let_def split: prod.splits sum.splits if_splits)
  then have "idx_mem s0 = idx_mem st" "vir_mem s0 = vir_mem st" "inode_mem s0 = inode_mem st"
    "nvm s0 = nvm st"
    using reserve_frame [of st 2 s0 "Inr m"] by (simp_all add: require_index_node_id_def)
  with s0 assms show thesis
    by (intro that [of s0]) (auto simp: insert_split_def Let_def frame_simps split_mem_def)
qed

lemma insert_split_zipped:
  assumes "insert_split st n f zp = (st', Inr m)" "zipped_layer (idx_mem st n) = z"
    and "0 < unat z" "unat z \<le> 6"
  shows "unat (zipped_layer (idx_mem st' m)) < unat z"
proof -
  define a where "a = allow_zipped_layer zp (unat z)"
  have a: "a < unat z" using allow_less [OF assms(3)] by (simp add: a_def)
  have u: "unat (of_nat a :: u64) = a" "unat (of_nat (unat z - a - 1) :: u64) = unat z - a - 1"
    using a assms(4) by (intro unat_of_nat64; simp)+
  have "idx_mem st' = split_mem (idx_mem st) n f a m"
    using insert_split_ok [OF assms(1)] assms(2) by (metis a_def)
  then have "zipped_layer (idx_mem st' m) = (if m = n then of_nat (unat z - a - 1) else of_nat a)"
    using assms(2) father_word_not_1 (1) [of f, symmetric] by (simp add: split_mem_def set_word_def node_init_def del: father_word_not_1)
  with a u show ?thesis by (auto split: if_splits)
qed

function insert_node_into_index ::
  "libfs \<Rightarrow> i64 \<Rightarrow> i64 \<Rightarrow> father \<Rightarrow> nat \<Rightarrow> u64 \<Rightarrow> libfs \<times> (errno + nat)" where
  "insert_node_into_index st now_idxnd_id inode_id father_pt searched_len blk_offset =
     (if neg64 now_idxnd_id \<or> neg64 inode_id \<or> KEY_LEN < searched_len \<or> push_bit KEY_LEN 1 \<le> blk_offset
      then (st, Inl EINVAL)
      else if \<not> indexid_ok now_idxnd_id then (st, Inl EIO)
      else if bad_node (idx_mem st now_idxnd_id) searched_len then (st, Inl EIO)
      else
        let now_idxnd = idx_mem st now_idxnd_id;
            zipped_len = unat (zipped_layer now_idxnd) * LAYER_BITWIDTH;
            zp = zipped_part searched_len zipped_len blk_offset
        in
        if ndtype now_idxnd = LEAF_NODE \<and> zp = 0 then (st, Inr 0)
        else if ndtype now_idxnd = NOT_LEAF_NODE \<and> zp = 0 then
          let son_arridx = unat (next_layer_key searched_len zipped_len blk_offset) in
          (case (if son_blk_id now_idxnd son_arridx = EMPTY_BLKID
                 then insert_add_son st now_idxnd_id searched_len zipped_len son_arridx
                 else (st, Inr ())) of
             (st, Inl err) \<Rightarrow> (st, Inl err)
           | (st, Inr _) \<Rightarrow>
               (case insert_node_into_index st (son_blk_id (idx_mem st now_idxnd_id) son_arridx) inode_id
                       (Son_slot now_idxnd_id son_arridx)
                       (searched_len + zipped_len + LAYER_BITWIDTH) blk_offset of
                  (st, Inl err) \<Rightarrow> (st, Inl err)
                | (st, Inr modify_flag) \<Rightarrow>
                    ((if modify_flag = 1
                      then write_change_log st now_idxnd_id IDXND_OP (idx_mem st now_idxnd_id)
                             (48 + son_arridx * 8) 8
                      else st),
                     Inr 0)))
        else
          (case insert_split st now_idxnd_id father_pt zp of
             (st, Inl err) \<Rightarrow> (st, Inl err)
           | (st, Inr new_idx_id) \<Rightarrow>
               (case insert_node_into_index st new_idx_id inode_id (Son_slot new_idx_id 0)
                       searched_len blk_offset of
                  (st, Inl err) \<Rightarrow> (st, Inl err)
                | (st, Inr modify_flag) \<Rightarrow>
                    ((if modify_flag = 1
                      then write_change_log st new_idx_id IDXND_OP (idx_mem st new_idx_id) 48 8
                      else st),
                     Inr 1))))"
  by pat_completeness auto
termination
proof (relation "measures [\<lambda>(st, n, ino, f, s, off). KEY_LEN - s,
                          \<lambda>(st, n, ino, f, s, off). unat (zipped_layer (idx_mem st n))]", goal_cases)
  case (3 st n ino f s off nd zl zp st' r m)
  let ?z = "zipped_layer (idx_mem st n)"
  from 3 have "unat ?z \<le> 6" using nonneg64_small [of ?z 6] by (simp add: bad_node_def)
  moreover from 3 have "0 < unat ?z"
    by (cases "unat ?z = 0") (auto simp: bad_node_def)
  ultimately show ?case using insert_split_zipped [of st n f zp st' m ?z] 3 by simp
qed (auto simp: bad_node_def)

declare insert_node_into_index.simps [simp del]

end
