(* ===== verification/Index_Tree.thy ===== *)
theory Index_Tree
  imports Index_Node
begin

text \<open>
  Correctness of search and insertion in the file index.  \<open>wft mem s n A\<close> says that the
  blocks \<open>A\<close> form a well-formed index tree below node \<open>n\<close> when \<open>s\<close> key bits have been
  consumed: leaves sit at depth 36, the subtrees of different sons are disjoint.  On such
  a tree search never reports an error.  A successful insertion keeps the tree well
  formed, adds only freshly reserved blocks, makes search find one leaf exactly for the 64
  offsets around the inserted one, and leaves every other search result and the contents
  of all existing leaves as they were.
\<close>

section \<open>Key arithmetic\<close>

lemma key_part_eq:
  fixes x :: u64
  assumes "m + k \<le> 64"
  shows "drop_bit m (push_bit m (push_bit k 1 - 1) AND x) = take_bit k (drop_bit m x)"
proof (rule bit_word_eqI)
  fix n assume n: "n < LENGTH(64)"
  have "push_bit k 1 - 1 = (mask k :: u64)" by (simp add: mask_eq_exp_minus_1)
  with n assms show "bit (drop_bit m (push_bit m (push_bit k 1 - 1) AND x)) n =
      bit (take_bit k (drop_bit m x)) n"
    by (auto simp: bit_drop_bit_eq bit_and_iff bit_push_bit_iff bit_mask_iff bit_take_bit_iff
        dest: bit_imp_le_length)
qed

lemma unat_key_part: "unat (take_bit k (drop_bit m x)) = unat x div 2 ^ m mod 2 ^ k" for x :: u64
  unfolding unsigned_take_bit_eq unat_drop_bit_eq by (simp add: take_bit_eq_mod drop_bit_eq_div)

lemma unat_zipped_part:
  "s + zl \<le> 42 \<Longrightarrow> unat (zipped_part s zl off) = unat off div 2 ^ (42 - s - zl) mod 2 ^ zl"
  unfolding zipped_part_def Let_def by (subst key_part_eq) (simp_all add: unat_key_part)

lemma unat_next_key:
  "s + zl + 6 \<le> 42 \<Longrightarrow> unat (next_layer_key s zl off) = unat off div 2 ^ (36 - s - zl) mod 64"
  unfolding next_layer_key_def Let_def
  by (subst key_part_eq) (simp_all add: unat_key_part)

lemma next_key_less: "s + zl + 6 \<le> 42 \<Longrightarrow> unat (next_layer_key s zl off) < 64"
  by (simp add: unat_next_key)

lemma zipped_part_zero:
  "s + zl \<le> 42 \<Longrightarrow> zipped_part s zl off = 0 \<longleftrightarrow> unat off div 2 ^ (42 - s - zl) mod 2 ^ zl = 0"
  by (simp only: word_unat_eq_iff unat_zipped_part unat_0)

text \<open>Two offsets belong to the same leaf below a node reached after \<open>s\<close> key bits.\<close>

definition same_leaf :: "nat \<Rightarrow> i64 \<Rightarrow> i64 \<Rightarrow> bool" where
  "same_leaf s off off' \<longleftrightarrow> unat off div 64 mod 2 ^ (36 - s) = unat off' div 64 mod 2 ^ (36 - s)"

lemma mod_split_iff:
  fixes x y :: nat
  shows "x mod 2 ^ (a + b) = y mod 2 ^ (a + b) \<longleftrightarrow>
    x div 2 ^ b mod 2 ^ a = y div 2 ^ b mod 2 ^ a \<and> x mod 2 ^ b = y mod 2 ^ b"
proof
  assume *: "x mod 2 ^ (a + b) = y mod 2 ^ (a + b)"
  have "z div 2 ^ b mod 2 ^ a = z mod 2 ^ (a + b) div 2 ^ b" for z :: nat
    using mod_mult2_eq [of z "2 ^ b" "2 ^ a"] by (simp add: power_add mult.commute)
  moreover have "z mod 2 ^ b = z mod 2 ^ (a + b) mod 2 ^ b" for z :: nat
    by (simp add: mod_mod_cancel le_imp_power_dvd)
  ultimately show "x div 2 ^ b mod 2 ^ a = y div 2 ^ b mod 2 ^ a \<and> x mod 2 ^ b = y mod 2 ^ b"
    using * by metis
next
  assume "x div 2 ^ b mod 2 ^ a = y div 2 ^ b mod 2 ^ a \<and> x mod 2 ^ b = y mod 2 ^ b"
  moreover have "z mod 2 ^ (a + b) = 2 ^ b * (z div 2 ^ b mod 2 ^ a) + z mod 2 ^ b" for z :: nat
    using mod_mult2_eq [of z "2 ^ b" "2 ^ a"] by (simp add: power_add mult.commute)
  ultimately show "x mod 2 ^ (a + b) = y mod 2 ^ (a + b)" by metis
qed

lemma div_div_64: "x div 64 div 2 ^ k = x div 2 ^ (k + 6)" for x :: nat
  by (simp add: div_mult2_eq [symmetric] power_add mult.commute)

lemma same_leaf_split:
  assumes "s + zl \<le> 36"
  shows "same_leaf s off off' \<longleftrightarrow>
    zipped_part s zl off = zipped_part s zl off' \<and> same_leaf (s + zl) off off'"
proof -
  have e: "36 - s = zl + (36 - (s + zl))" "36 - (s + zl) + 6 = 42 - s - zl"
    using assms by simp_all
  show ?thesis
    unfolding same_leaf_def
    by (subst (1 2) e(1), subst mod_split_iff)
      (use assms in \<open>simp only: div_div_64 e(2) word_unat_eq_iff unat_zipped_part\<close>)
qed

lemma same_leaf_key:
  assumes "s + zl + 6 \<le> 36"
  shows "same_leaf (s + zl) off off' \<longleftrightarrow>
    next_layer_key s zl off = next_layer_key s zl off' \<and> same_leaf (s + zl + 6) off off'"
proof -
  have e: "36 - (s + zl) = 6 + (36 - (s + zl + 6))" "36 - (s + zl + 6) + 6 = 36 - s - zl"
    "(2 :: nat) ^ 6 = 64"
    using assms by simp_all
  show ?thesis
    unfolding same_leaf_def
    by (subst (1 2) e(1), subst mod_split_iff)
      (use assms in \<open>simp only: div_div_64 e(2,3) word_unat_eq_iff unat_next_key\<close>)
qed

lemma same_leaf_36 [simp]: "same_leaf 36 off off'"
  by (simp add: same_leaf_def)

lemma same_leaf_refl [simp]: "same_leaf s off off"
  by (simp add: same_leaf_def)

section \<open>Well-formed trees\<close>

inductive wft :: "(i64 \<Rightarrow> blk) \<Rightarrow> nat \<Rightarrow> i64 \<Rightarrow> i64 set \<Rightarrow> bool" for mem where
  leaf: "indexid_ok n \<Longrightarrow> ndtype (mem n) = LEAF_NODE \<Longrightarrow> unat (zipped_layer (mem n)) \<le> 6 \<Longrightarrow>
    s + unat (zipped_layer (mem n)) * 6 = 36 \<Longrightarrow> wft mem s n {n}"
| node: "indexid_ok n \<Longrightarrow> ndtype (mem n) = NOT_LEAF_NODE \<Longrightarrow> unat (zipped_layer (mem n)) \<le> 6 \<Longrightarrow>
    s mod 6 = 0 \<Longrightarrow> s + unat (zipped_layer (mem n)) * 6 + 6 \<le> 36 \<Longrightarrow>
    (\<And>k. k < 64 \<Longrightarrow> son_blk_id (mem n) k \<noteq> EMPTY_BLKID \<Longrightarrow>
       wft mem (s + unat (zipped_layer (mem n)) * 6 + 6) (son_blk_id (mem n) k) (B k)) \<Longrightarrow>
    (\<And>k. k < 64 \<Longrightarrow> son_blk_id (mem n) k = EMPTY_BLKID \<Longrightarrow> B k = {}) \<Longrightarrow>
    (\<And>j k. j < 64 \<Longrightarrow> k < 64 \<Longrightarrow> j \<noteq> k \<Longrightarrow> B j \<inter> B k = {}) \<Longrightarrow>
    n \<notin> (\<Union>k < 64. B k) \<Longrightarrow> A = insert n (\<Union>k < 64. B k) \<Longrightarrow> wft mem s n A"

lemma wft_root_in: "wft mem s n A \<Longrightarrow> n \<in> A"
  by (erule wft.cases) auto

lemma wft_ok: "wft mem s n A \<Longrightarrow> indexid_ok n"
  by (erule wft.cases) auto

lemma wft_not_bad: "wft mem s n A \<Longrightarrow> \<not> bad_node (mem n) s \<and> s \<le> 36 \<and> \<not> neg64 n \<and> n \<noteq> EMPTY_BLKID"
proof -
  assume w: "wft mem s n A"
  have "\<not> neg64 n" using wft_ok [OF w] by (simp add: indexid_ok_def)
  moreover from this have "n \<noteq> EMPTY_BLKID" by auto
  moreover have "\<not> bad_node (mem n) s \<and> s \<le> 36"
  proof -
    from w have z: "unat (zipped_layer (mem n)) \<le> 6" by (auto elim: wft.cases)
    then have "\<not> neg64 (zipped_layer (mem n))" by (simp add: neg64_iff)
    moreover from nonneg64_sint [OF this] z have "\<not> 6 < sint (zipped_layer (mem n))" by linarith
    ultimately show ?thesis using w by (auto simp: bad_node_def elim!: wft.cases)
  qed
  ultimately show ?thesis by blast
qed

lemma wft_frame:
  "wft mem s n A \<Longrightarrow> (\<And>b. b \<in> A \<Longrightarrow> mem' b = mem b) \<Longrightarrow> wft mem' s n A"
proof (induction rule: wft.induct)
  case (leaf n s)
  then show ?case by (intro wft.leaf) simp_all
next
  case (node n s B A)
  have n: "mem' n = mem n" using node.prems node(10) by simp
  show ?case
  proof (rule wft.node [where B = B], unfold n)
    show "wft mem' (s + unat (zipped_layer (mem n)) * 6 + 6) (son_blk_id (mem n) k) (B k)"
      if "k < 64" "son_blk_id (mem n) k \<noteq> EMPTY_BLKID" for k
      using node.IH [OF that] node.prems node(10) that(1) by blast
  qed (use node(1-5,7-10) in simp_all)
qed

lemma wft_members: "wft mem s n A \<Longrightarrow> b \<in> A \<Longrightarrow> indexid_ok b"
proof (induction rule: wft.induct)
  case (node n s B A)
  show ?case
  proof (cases "b = n")
    case False
    with node.prems node(10) obtain k where k: "k < 64" "b \<in> B k" by auto
    then have "son_blk_id (mem n) k \<noteq> EMPTY_BLKID" using node(7) by auto
    from node.IH [OF k(1) this k(2)] show ?thesis .
  qed (simp add: node(1))
qed simp

section \<open>Search on well-formed trees\<close>

definition off_ok :: "i64 \<Rightarrow> bool" where
  "off_ok off \<longleftrightarrow> unat off < 2 ^ 42"

lemma off_ok_guard: "off_ok off \<Longrightarrow> \<not> neg64 off \<and> \<not> push_bit KEY_LEN 1 \<le> off"
  by (simp add: off_ok_def neg64_iff word_le_nat_alt)

lemma search_empty [simp]: "search_leaf_node mem (- 1) ino s off = Inr None"
  by (simp add: search_leaf_node.simps)

lemma search_step:
  assumes "wft mem s n A" "off_ok off" "\<not> neg64 ino"
  defines "zl \<equiv> unat (zipped_layer (mem n)) * 6"
  shows "search_leaf_node mem n ino s off =
    (if zipped_part s zl off \<noteq> 0 then Inr None
     else if ndtype (mem n) = LEAF_NODE then Inr (Some n)
     else search_leaf_node mem (son_blk_id (mem n) (unat (next_layer_key s zl off))) ino (s + zl + 6) off)"
  using wft_not_bad [OF assms(1)] wft_ok [OF assms(1)] off_ok_guard [OF assms(2)] assms(3)
  by (subst search_leaf_node.simps) (simp add: zl_def Let_def)

lemma search_wft:
  "wft mem s n A \<Longrightarrow> off_ok off \<Longrightarrow> \<not> neg64 ino \<Longrightarrow>
    search_leaf_node mem n ino s off = Inr None \<or>
    (\<exists>l \<in> A. search_leaf_node mem n ino s off = Inr (Some l) \<and> ndtype (mem l) = LEAF_NODE)"
proof (induction rule: wft.induct)
  case (leaf n s)
  then show ?case using search_step [OF wft.leaf [of n mem s]] by simp
next
  case (node n s B A)
  have w: "wft mem s n A" using node(1-10) by (rule wft.node)
  let ?k = "unat (next_layer_key s (unat (zipped_layer (mem n)) * 6) off)"
  have "?k < 64" using node(5) by (intro next_key_less) simp
  then have "search_leaf_node mem (son_blk_id (mem n) ?k) ino (s + unat (zipped_layer (mem n)) * 6 + 6) off
      = Inr None \<or> (\<exists>l \<in> A. search_leaf_node mem (son_blk_id (mem n) ?k) ino
          (s + unat (zipped_layer (mem n)) * 6 + 6) off = Inr (Some l) \<and> ndtype (mem l) = LEAF_NODE)"
    using node.IH [of ?k] node.prems node(10)
    by (cases "son_blk_id (mem n) ?k = EMPTY_BLKID") auto
  with node(2) show ?case unfolding search_step [OF w node.prems] by simp
qed

lemma search_frame:
  "wft mem s n A \<Longrightarrow> off_ok off \<Longrightarrow> \<not> neg64 ino \<Longrightarrow> (\<And>b. b \<in> A \<Longrightarrow> mem' b = mem b) \<Longrightarrow>
    search_leaf_node mem' n ino s off = search_leaf_node mem n ino s off"
proof (induction rule: wft.induct)
  case (leaf n s)
  have w: "wft mem s n {n}" using leaf by (intro wft.leaf)
  then have w': "wft mem' s n {n}" using leaf by (intro wft_frame [OF w])
  show ?case using search_step [OF w] search_step [OF w'] leaf by simp
next
  case (node n s B A)
  have w: "wft mem s n A" using node(1-10) by (rule wft.node)
  then have w': "wft mem' s n A" using node by (intro wft_frame [OF w])
  have n: "mem' n = mem n" using node by simp
  let ?k = "unat (next_layer_key s (unat (zipped_layer (mem n)) * 6) off)"
  have k: "?k < 64" using node(5) by (intro next_key_less) simp
  show ?case
  proof (cases "son_blk_id (mem n) ?k = EMPTY_BLKID")
    case True
    then show ?thesis
      using search_step [OF w] search_step [OF w'] node.prems n by simp
  next
    case False
    have "search_leaf_node mem' (son_blk_id (mem n) ?k) ino (s + unat (zipped_layer (mem n)) * 6 + 6) off
      = search_leaf_node mem (son_blk_id (mem n) ?k) ino (s + unat (zipped_layer (mem n)) * 6 + 6) off"
      using node.IH [OF k False] node.prems node(10) k by auto
    then show ?thesis
      using search_step [OF w] search_step [OF w'] node.prems n by simp
  qed
qed

section \<open>Inner nodes\<close>

text \<open>An inner node together with the block sets of its sons.\<close>

definition wfn :: "(i64 \<Rightarrow> blk) \<Rightarrow> nat \<Rightarrow> i64 \<Rightarrow> (nat \<Rightarrow> i64 set) \<Rightarrow> bool" where
  "wfn mem s n B \<longleftrightarrow>
     indexid_ok n \<and> ndtype (mem n) = NOT_LEAF_NODE \<and> unat (zipped_layer (mem n)) \<le> 6 \<and> s mod 6 = 0 \<and>
     s + unat (zipped_layer (mem n)) * 6 + 6 \<le> 36 \<and>
     (\<forall>k < 64. if son_blk_id (mem n) k = EMPTY_BLKID then B k = {}
        else wft mem (s + unat (zipped_layer (mem n)) * 6 + 6) (son_blk_id (mem n) k) (B k)) \<and>
     (\<forall>j < 64. \<forall>k < 64. j \<noteq> k \<longrightarrow> B j \<inter> B k = {}) \<and> (\<forall>k < 64. n \<notin> B k)"

abbreviation node_set :: "i64 \<Rightarrow> (nat \<Rightarrow> i64 set) \<Rightarrow> i64 set" where
  "node_set n B \<equiv> insert n (\<Union>k < 64. B k)"

lemma wfnD:
  assumes "wfn mem s n B"
  shows "indexid_ok n" "ndtype (mem n) = NOT_LEAF_NODE" "unat (zipped_layer (mem n)) \<le> 6"
    "s mod 6 = 0" "s + unat (zipped_layer (mem n)) * 6 + 6 \<le> 36"
    and wfn_son: "k < 64 \<Longrightarrow> son_blk_id (mem n) k \<noteq> EMPTY_BLKID \<Longrightarrow>
      wft mem (s + unat (zipped_layer (mem n)) * 6 + 6) (son_blk_id (mem n) k) (B k)"
    and wfn_no_son: "k < 64 \<Longrightarrow> son_blk_id (mem n) k = EMPTY_BLKID \<Longrightarrow> B k = {}"
    and wfn_disjoint: "j < 64 \<Longrightarrow> k < 64 \<Longrightarrow> j \<noteq> k \<Longrightarrow> B j \<inter> B k = {}"
    and wfn_notin: "k < 64 \<Longrightarrow> n \<notin> B k"
  using assms unfolding wfn_def by metis+

lemma wfn_wft:
  assumes w: "wfn mem s n B"
  shows "wft mem s n (node_set n B)"
proof (rule wft.node [where B = B])
  show "n \<notin> (\<Union>k < 64. B k)" using wfn_notin [OF w] by blast
qed (rule refl | rule wfnD [OF w]; assumption)+

lemma wft_wfn:
  assumes "wft mem s n A" "ndtype (mem n) = NOT_LEAF_NODE"
  obtains B where "wfn mem s n B" "A = node_set n B"
  using assms(1)
proof (cases rule: wft.cases)
  case leaf
  with assms(2) show ?thesis by simp
next
  case (node B)
  then have "wfn mem s n B" by (simp add: wfn_def)
  with node that show ?thesis by blast
qed

text \<open>Replacing one subtree.\<close>

lemma wfn_update:
  assumes "wfn mem s n B" "k < 64" "mem' n = (mem n)(6 + k := c)"
    and "wft mem' (s + unat (zipped_layer (mem n)) * 6 + 6) c C" "n \<notin> C"
    and "\<And>j b. j < 64 \<Longrightarrow> j \<noteq> k \<Longrightarrow> b \<in> B j \<Longrightarrow> mem' b = mem b \<and> b \<notin> C"
  shows "wfn mem' s n (B(k := C))"
proof -
  have c: "c \<noteq> EMPTY_BLKID" using wft_not_bad [OF assms(4)] by simp
  have n01: "mem' n 0 = mem n 0" "mem' n 1 = mem n 1" by (simp_all add: assms(3))
  have sons: "if son_blk_id (mem' n) j = EMPTY_BLKID then (B(k := C)) j = {}
      else wft mem' (s + unat (zipped_layer (mem n)) * 6 + 6) (son_blk_id (mem' n) j) ((B(k := C)) j)"
    if j: "j < 64" for j
  proof (cases "j = k")
    case True
    then show ?thesis using assms(3,4) c by simp
  next
    case False
    then have "son_blk_id (mem' n) j = son_blk_id (mem n) j" by (simp add: assms(3))
    moreover have "wft mem' t m (B j)" if "wft mem t m (B j)" for t m
      using wft_frame [OF that] assms(6) j False by blast
    ultimately show ?thesis
      using wfn_son [OF assms(1) j] wfn_no_son [OF assms(1) j] False by simp
  qed
  have disj: "(B(k := C)) i \<inter> (B(k := C)) j = {}" if "i < 64" "j < 64" "i \<noteq> j" for i j
    using that assms(1,6) unfolding wfn_def fun_upd_def by (cases "i = k"; cases "j = k") auto
  have notin: "n \<notin> (B(k := C)) j" if "j < 64" for j
    using wfn_notin [OF assms(1) that] assms(5) by simp
  show ?thesis
    unfolding wfn_def n01 using wfnD(1-5) [OF assms(1)] sons disj notin by blast
qed

lemma wfn_search:
  assumes "wfn mem s n B" "off_ok off" "\<not> neg64 ino"
  defines "zl \<equiv> unat (zipped_layer (mem n)) * 6"
  shows "search_leaf_node mem n ino s off =
    (if zipped_part s zl off \<noteq> 0 then Inr None
     else search_leaf_node mem (son_blk_id (mem n) (unat (next_layer_key s zl off))) ino (s + zl + 6) off)"
  using search_step [OF wfn_wft [OF assms(1)] assms(2,3)] assms(1) by (simp add: zl_def wfn_def)

lemma wfn_same_leaf:
  assumes "wfn mem s n B"
  defines "zl \<equiv> unat (zipped_layer (mem n)) * 6"
  shows "same_leaf s off off' \<longleftrightarrow> zipped_part s zl off = zipped_part s zl off' \<and>
    next_layer_key s zl off = next_layer_key s zl off' \<and> same_leaf (s + zl + 6) off off'"
proof -
  have "s + zl + 6 \<le> 36" using assms(1) by (simp add: zl_def wfn_def)
  then show ?thesis
    using same_leaf_split [of s zl off off'] same_leaf_key [of s zl off off'] by simp
qed

section \<open>New nodes\<close>

definition empty_leaf :: "blk \<Rightarrow> bool" where
  "empty_leaf b \<longleftrightarrow> ndtype b = LEAF_NODE \<and> virnd_flag b 0 = 0 \<and> (\<forall>k < 64. son_blk_id b k = EMPTY_BLKID)"

lemma node_init_words [simp]:
  "node_init b z t 0 = t" "node_init b z t 1 = z" "node_init b z t (Suc 0) = z" "node_init b z t 2 = 0"
  "k < 64 \<Longrightarrow> node_init b z t (6 + k) = EMPTY_BLKID"
  by (simp_all add: node_init_def)

lemma wft_new_leaf:
  "indexid_ok m \<Longrightarrow> mem m = node_init b 0 LEAF_NODE \<Longrightarrow> wft mem 36 m {m}"
  by (rule wft.leaf) simp_all

lemma wfn_new_node:
  "indexid_ok m \<Longrightarrow> mem m = node_init b 0 NOT_LEAF_NODE \<Longrightarrow> s mod 6 = 0 \<Longrightarrow> s + 6 \<le> 36 \<Longrightarrow>
    wfn mem s m (\<lambda>_. {})"
  by (simp add: wfn_def)

lemma search_new_node:
  assumes "indexid_ok m" "mem m = node_init b 0 NOT_LEAF_NODE" "s mod 6 = 0" "s + 6 \<le> 36"
    "off_ok off" "\<not> neg64 ino"
  shows "search_leaf_node mem m ino s off = Inr None"
  using wfn_search [OF wfn_new_node [of m mem, OF assms(1-4)] assms(5,6)] next_key_less [of s 0 off]
    assms(2,4)
  by simp

section \<open>What an insertion guarantees\<close>

definition idx_ids :: "libfs \<Rightarrow> i64 set" where
  "idx_ids st = {b. unat b \<in> used_ids (bmps st) IDXND_EXT}"

definition insert_post ::
  "libfs \<Rightarrow> nat \<Rightarrow> i64 \<Rightarrow> i64 set \<Rightarrow> father \<Rightarrow> i64 \<Rightarrow> libfs \<Rightarrow> nat \<Rightarrow> i64 \<Rightarrow> i64 set \<Rightarrow> i64 \<Rightarrow> bool" where
  "insert_post st s n A f off st' flag n' A' l \<longleftrightarrow>
     (flag = 0 \<and> n' = n \<or> flag = 1 \<and> idx_mem st' (father_block f) (father_word f) = n') \<and>
     wft (idx_mem st') s n' A' \<and> A \<subseteq> A' \<and> idx_ids st \<union> A' \<subseteq> idx_ids st' \<and>
     (A' - A) \<inter> idx_ids st = {} \<and> space_wf (bmps st') \<and>
     (\<forall>b w. b \<notin> A' \<longrightarrow> \<not> (flag = 1 \<and> b = father_block f \<and> w = father_word f) \<longrightarrow>
        idx_mem st' b w = idx_mem st b w) \<and>
     (\<forall>b \<in> A. ndtype (idx_mem st b) = LEAF_NODE \<longrightarrow>
        (\<forall>w. w \<noteq> 1 \<longrightarrow> idx_mem st' b w = idx_mem st b w)) \<and>
     l \<in> A' \<and> ndtype (idx_mem st' l) = LEAF_NODE \<and> (l \<notin> A \<longrightarrow> empty_leaf (idx_mem st' l)) \<and>
     (\<forall>ino off'. \<not> neg64 ino \<longrightarrow> off_ok off' \<longrightarrow>
        search_leaf_node (idx_mem st') n' ino s off' =
          (if same_leaf s off off' then Inr (Some l) else search_leaf_node (idx_mem st) n ino s off')) \<and>
     (\<forall>ino. \<not> neg64 ino \<longrightarrow>
        search_leaf_node (idx_mem st) n ino s off = (if l \<in> A then Inr (Some l) else Inr None))"

lemma insert_postD:
  assumes "insert_post st s n A f off st' flag n' A' l"
  shows "flag = 0 \<and> n' = n \<or> flag = 1 \<and> idx_mem st' (father_block f) (father_word f) = n'"
    and "wft (idx_mem st') s n' A'" and "A \<subseteq> A'" and "idx_ids st \<union> A' \<subseteq> idx_ids st'"
    and "(A' - A) \<inter> idx_ids st = {}" and "space_wf (bmps st')"
    and "b \<notin> A' \<Longrightarrow> \<not> (flag = 1 \<and> b = father_block f \<and> w = father_word f) \<Longrightarrow>
      idx_mem st' b w = idx_mem st b w"
    and "b \<in> A \<Longrightarrow> ndtype (idx_mem st b) = LEAF_NODE \<Longrightarrow> w \<noteq> 1 \<Longrightarrow> idx_mem st' b w = idx_mem st b w"
    and "l \<in> A'" and "ndtype (idx_mem st' l) = LEAF_NODE" and "l \<notin> A \<longrightarrow> empty_leaf (idx_mem st' l)"
    and "\<not> neg64 ino \<Longrightarrow> off_ok off' \<Longrightarrow> search_leaf_node (idx_mem st') n' ino s off' =
      (if same_leaf s off off' then Inr (Some l) else search_leaf_node (idx_mem st) n ino s off')"
    and "\<not> neg64 ino \<Longrightarrow>
      search_leaf_node (idx_mem st) n ino s off = (if l \<in> A then Inr (Some l) else Inr None)"
  using assms unfolding insert_post_def by (elim conjE; (assumption | metis))+

lemma require_index_ok:
  assumes "space_wf (bmps st)" "require_index_node_id st = (st1, Inr m)"
  shows "space_wf (bmps st1)" "m \<notin> idx_ids st" "idx_ids st1 = insert m (idx_ids st)"
    "idx_mem st1 = idx_mem st"
  using reserve_ok [OF assms(1) assms(2) [unfolded require_index_node_id_def]]
    reserve_frame [OF assms(2) [unfolded require_index_node_id_def]]
  by (auto simp: idx_ids_def dest: word_unat_eq_iff [THEN iffD2])

lemma insert_add_son_ok:
  assumes "space_wf (bmps st)" "insert_add_son st n s zl k = (st1, Inr u)"
  obtains m where "indexid_ok m" "m \<notin> idx_ids st" "idx_ids st1 = insert m (idx_ids st)"
    "space_wf (bmps st1)"
    "idx_mem st1 = set_word ((idx_mem st)(m := node_init (idx_mem st m) 0
       (if s + zl + 6 = 36 then LEAF_NODE else NOT_LEAF_NODE))) n (6 + k) m"
proof -
  from assms(2) obtain st0 m where m: "require_index_node_id st = (st0, Inr m)" "indexid_ok m"
    by (auto simp: insert_add_son_def Let_def split: prod.splits sum.splits if_splits)
  note r = require_index_ok [OF assms(1) m(1)]
  have b: "bmps st1 = bmps st0"
    using assms(2) m by (auto simp: insert_add_son_def Let_def frame_simps)
  then have "idx_ids st1 = idx_ids st0" by (simp add: idx_ids_def)
  with r m b show thesis
    using assms(2)
    by (intro that [of m]) (auto simp: insert_add_son_def Let_def frame_simps)
qed

text \<open>The leaf case: nothing changes.\<close>

lemma insert_post_leaf:
  assumes "wft (idx_mem st) s n A" "ndtype (idx_mem st n) = LEAF_NODE" "A \<subseteq> idx_ids st"
    "space_wf (bmps st)" "off_ok off"
    "zipped_part s (unat (zipped_layer (idx_mem st n)) * 6) off = 0"
  shows "insert_post st s n A f off st 0 n A n"
proof -
  let ?z = "unat (zipped_layer (idx_mem st n)) * 6"
  have A: "A = {n}" and s: "s + ?z = 36"
    using assms(1,2) by (auto elim: wft.cases)
  have "same_leaf s off off' \<longleftrightarrow> zipped_part s ?z off' = 0" for off'
    using same_leaf_split [of s ?z off off'] s assms(6) by auto
  moreover have "search_leaf_node (idx_mem st) n ino s off' =
      (if zipped_part s ?z off' = 0 then Inr (Some n) else Inr None)"
    if "\<not> neg64 ino" "off_ok off'" for ino off'
    using search_step [OF assms(1) that(2,1)] assms(2) by simp
  ultimately show ?thesis
    using assms A unfolding insert_post_def by simp
qed

section \<open>Descending into a son\<close>

text \<open>The state in which the recursive call on a son starts: the slot is filled.\<close>

definition descend_pre ::
  "libfs \<Rightarrow> nat \<Rightarrow> i64 \<Rightarrow> (nat \<Rightarrow> i64 set) \<Rightarrow> nat \<Rightarrow> nat \<Rightarrow> i64 \<Rightarrow> libfs \<Rightarrow> i64 \<Rightarrow> (nat \<Rightarrow> i64 set) \<Rightarrow> bool" where
  "descend_pre st s n B k s2 off st1 c B1 \<longleftrightarrow>
     wfn (idx_mem st1) s n B1 \<and> idx_mem st1 n = (idx_mem st n)(6 + k := c) \<and> c \<noteq> EMPTY_BLKID \<and>
     (\<forall>j. j \<noteq> k \<longrightarrow> B1 j = B j) \<and> B k \<subseteq> B1 k \<and> (B1 k - B k) \<inter> idx_ids st = {} \<and>
     idx_ids st \<union> node_set n B1 \<subseteq> idx_ids st1 \<and> space_wf (bmps st1) \<and>
     (\<forall>b. b \<notin> B1 k - B k \<longrightarrow> b \<noteq> n \<longrightarrow> idx_mem st1 b = idx_mem st b) \<and>
     (\<forall>b \<in> B1 k - B k. ndtype (idx_mem st1 b) = LEAF_NODE \<longrightarrow> empty_leaf (idx_mem st1 b)) \<and>
     (\<forall>ino off'. \<not> neg64 ino \<longrightarrow> off_ok off' \<longrightarrow> \<not> same_leaf s2 off off' \<longrightarrow>
        search_leaf_node (idx_mem st1) c ino s2 off' =
        search_leaf_node (idx_mem st) (son_blk_id (idx_mem st n) k) ino s2 off') \<and>
     (\<forall>ino. \<not> neg64 ino \<longrightarrow>
        search_leaf_node (idx_mem st) (son_blk_id (idx_mem st n) k) ino s2 off =
        (if B k = {} then Inr None else search_leaf_node (idx_mem st1) c ino s2 off)) \<and>
     (B k = {} \<or> B1 k = B k)"

lemma descend_existing:
  assumes "wfn (idx_mem st) s n B" "k < 64" "node_set n B \<subseteq> idx_ids st" "space_wf (bmps st)"
    and "son_blk_id (idx_mem st n) k \<noteq> EMPTY_BLKID"
  shows "descend_pre st s n B k s2 off st (son_blk_id (idx_mem st n) k) B"
proof -
  have "B k \<noteq> {}" using wft_root_in [OF wfn_son [OF assms(1,2,5)]] by blast
  then show ?thesis using assms unfolding descend_pre_def by simp
qed

lemma descend_new:
  fixes st :: libfs
  assumes w: "wfn (idx_mem st) s n B" and k: "k < 64" and sub: "node_set n B \<subseteq> idx_ids st"
    and sp: "space_wf (bmps st)" and e: "son_blk_id (idx_mem st n) k = EMPTY_BLKID"
    and a: "insert_add_son st n s (unat (zipped_layer (idx_mem st n)) * 6) k = (st1, Inr u)"
  defines "s2 \<equiv> s + unat (zipped_layer (idx_mem st n)) * 6 + 6"
  shows "\<exists>m. descend_pre st s n B k s2 off st1 m (B(k := {m}))"
proof -
  let ?ty = "if s2 = 36 then LEAF_NODE else NOT_LEAF_NODE"
  obtain m where m: "indexid_ok m" "m \<notin> idx_ids st" "idx_ids st1 = insert m (idx_ids st)"
    "space_wf (bmps st1)" and mem: "idx_mem st1 = set_word ((idx_mem st)(m :=
       node_init (idx_mem st m) 0 ?ty)) n (6 + k) m"
    using insert_add_son_ok [OF sp a] unfolding s2_def by metis
  have mn: "m \<noteq> n" "m \<notin> node_set n B" using m(2) sub by auto
  have mn1: "idx_mem st1 n = (idx_mem st n)(6 + k := m)"
    and mm: "idx_mem st1 m = node_init (idx_mem st m) 0 ?ty"
    using mn by (simp_all add: mem set_word_def)
  have fr: "idx_mem st1 b = idx_mem st b" if "b \<noteq> m" "b \<noteq> n" for b
    using that by (simp add: mem set_word_def)
  have Bk: "B k = {}" using wfn_no_son [OF w k e] .
  have s2: "s2 \<le> 36" "s2 mod 6 = 0"
    using wfnD(4,5) [OF w] by (simp_all add: s2_def mod_add_left_eq [symmetric] mod_eq_0_iff_dvd)
  have s26: "s2 + 6 \<le> 36" if "s2 \<noteq> 36"
    using s2 that by (auto elim!: dvdE)
  have wm: "wft (idx_mem st1) s2 m {m}"
  proof (cases "s2 = 36")
    case True
    then show ?thesis using wft_new_leaf [OF m(1)] mm by simp
  next
    case False
    then show ?thesis
      using wfn_wft [OF wfn_new_node [of m "idx_mem st1" _ s2]] m(1) mm s2(2) s26 by simp
  qed
  have "idx_mem st1 b = idx_mem st b \<and> b \<notin> {m}" if "j < 64" "b \<in> B j" for j b
  proof -
    have "b \<noteq> n" using wfn_notin [OF w that(1)] that(2) by metis
    moreover have "b \<noteq> m" using mn(2) that by auto
    ultimately show ?thesis using fr by simp
  qed
  then have "wfn (idx_mem st1) s n (B(k := {m}))"
    using mn(1) wm by (intro wfn_update [where mem' = "idx_mem st1", OF w k mn1]) (auto simp: s2_def)
  moreover have "search_leaf_node (idx_mem st1) m ino s2 off' = Inr None"
    if "\<not> neg64 ino" "off_ok off'" "\<not> same_leaf s2 off off'" for ino off'
    using that search_new_node [of m "idx_mem st1" _ s2] m(1) mm s2(2) s26 by (cases "s2 = 36") auto
  moreover have "empty_leaf (idx_mem st1 m)" if "ndtype (idx_mem st1 m) = LEAF_NODE"
    using that mm by (auto simp: empty_leaf_def)
  ultimately show ?thesis
    using m mn1 fr Bk e sub mn wft_not_bad [OF wm] unfolding descend_pre_def
    by (intro exI [of _ m]) auto
qed

text \<open>Search after one subtree changed.\<close>

lemma insert_node_search:
  assumes w: "wfn mem s n B" and w2: "wfn mem' s n B'" and o: "off_ok off'" and ino: "\<not> neg64 ino"
    and zp: "zipped_part s (unat (zipped_layer (mem n)) * 6) off = 0"
    and k: "k = unat (next_layer_key s (unat (zipped_layer (mem n)) * 6) off)"
    and mn2: "mem' n = (mem n)(6 + k := c')"
    and son: "search_leaf_node mem' c' ino (s + unat (zipped_layer (mem n)) * 6 + 6) off' =
      (if same_leaf (s + unat (zipped_layer (mem n)) * 6 + 6) off off' then Inr (Some l)
       else search_leaf_node mem (son_blk_id (mem n) k) ino (s + unat (zipped_layer (mem n)) * 6 + 6) off')"
    and out: "\<And>j b. j < 64 \<Longrightarrow> j \<noteq> k \<Longrightarrow> b \<in> B j \<Longrightarrow> mem' b = mem b"
  shows "search_leaf_node mem' n ino s off' =
      (if same_leaf s off off' then Inr (Some l) else search_leaf_node mem n ino s off')"
proof -
  define zl where "zl = unat (zipped_layer (mem n)) * 6"
  have z2: "unat (zipped_layer (mem' n)) * 6 = zl" by (simp add: mn2 zl_def)
  let ?k' = "unat (next_layer_key s zl off')"
  have k': "?k' < 64" using wfnD(5) [OF w] unfolding zl_def by (intro next_key_less) simp
  have sl: "same_leaf s off off' \<longleftrightarrow> zipped_part s zl off' = 0 \<and> k = ?k' \<and> same_leaf (s + zl + 6) off off'"
    using wfn_same_leaf [OF w, of off off'] zp unfolding k zl_def by (auto simp: word_unat_eq_iff)
  note s1 = wfn_search [OF w o ino, folded zl_def]
  note s2 = wfn_search [OF w2 o ino, unfolded z2]
  show ?thesis
  proof (cases "zipped_part s zl off' = 0")
    case False
    then show ?thesis using s1 s2 sl by simp
  next
    case zp': True
    show ?thesis
    proof (cases "?k' = k")
      case True
      then show ?thesis using s1 s2 sl zp' son by (simp add: mn2 flip: zl_def)
    next
      case False
      have "search_leaf_node mem' (son_blk_id (mem n) ?k') ino (s + zl + 6) off' =
          search_leaf_node mem (son_blk_id (mem n) ?k') ino (s + zl + 6) off'"
      proof (cases "son_blk_id (mem n) ?k' = EMPTY_BLKID")
        case ne: False
        show ?thesis
          using search_frame [where mem' = mem', OF wfn_son [OF w k' ne] o ino out [OF k' False]]
          by (simp only: zl_def)
      qed simp
      then show ?thesis using s1 s2 sl zp' False by (simp add: mn2)
    qed
  qed
qed

lemma insert_post_node:
  fixes st st1 st2 :: libfs and off :: i64
  assumes w: "wfn (idx_mem st) s n B"
  defines "zl \<equiv> unat (zipped_layer (idx_mem st n)) * 6"
  defines "k \<equiv> unat (next_layer_key s zl off)" and "s2 \<equiv> s + zl + 6"
  assumes zp: "zipped_part s zl off = 0" and o: "off_ok off"
    and pre: "descend_pre st s n B k s2 off st1 c B1"
    and post: "insert_post st1 s2 c (B1 k) (Son_slot n k) off st2 flag c' C l"
  shows "insert_post st s n (node_set n B) f off st2 0 n (node_set n (B1(k := C))) l"
proof -
  have k: "k < 64" using wfnD(5) [OF w] unfolding k_def zl_def by (intro next_key_less) simp
  have w1: "wfn (idx_mem st1) s n B1" and c: "idx_mem st1 n = (idx_mem st n)(6 + k := c)"
    and others: "\<forall>j. j \<noteq> k \<longrightarrow> B1 j = B j" and Bk: "B k \<subseteq> B1 k" "(B1 k - B k) \<inter> idx_ids st = {}"
    and ids1: "idx_ids st \<union> node_set n B1 \<subseteq> idx_ids st1"
    and fr1: "\<And>b. b \<notin> B1 k - B k \<Longrightarrow> b \<noteq> n \<Longrightarrow> idx_mem st1 b = idx_mem st b"
    using pre unfolding descend_pre_def by blast+
  have C: "wft (idx_mem st2) s2 c' C" "B1 k \<subseteq> C" "idx_ids st1 \<union> C \<subseteq> idx_ids st2"
    "(C - B1 k) \<inter> idx_ids st1 = {}" "space_wf (bmps st2)"
    and fr2: "\<And>b w. b \<notin> C \<Longrightarrow> \<not> (flag = 1 \<and> b = n \<and> w = 6 + k) \<Longrightarrow> idx_mem st2 b w = idx_mem st1 b w"
    and fl: "flag = 0 \<and> c' = c \<or> flag = 1 \<and> idx_mem st2 n (6 + k) = c'"
    and lC: "l \<in> C" "ndtype (idx_mem st2 l) = LEAF_NODE" "l \<notin> B1 k \<longrightarrow> empty_leaf (idx_mem st2 l)"
    using post unfolding insert_post_def by auto
  have nC: "n \<notin> C" using C(4) ids1 wfn_notin [OF w1 k] by blast
  have z1: "zipped_layer (idx_mem st1 n) = zipped_layer (idx_mem st n)" by (simp add: c)
  have mn2: "idx_mem st2 n = (idx_mem st1 n)(6 + k := c')"
    using fl fr2 [OF nC] c by (auto simp: fun_eq_iff)
  have out: "idx_mem st2 b = idx_mem st1 b \<and> b \<notin> C" if "j < 64" "j \<noteq> k" "b \<in> B1 j" for j b
  proof -
    have "b \<in> idx_ids st1" using ids1 that by auto
    moreover have "b \<notin> B1 k" using wfn_disjoint [OF w1 that(1) k that(2)] that(3) by blast
    ultimately have "b \<notin> C" using C(4) by blast
    moreover have "b \<noteq> n" using wfn_notin [OF w1 that(1)] that(3) by blast
    ultimately show ?thesis using fr2 by (auto simp: fun_eq_iff)
  qed
  have w2: "wfn (idx_mem st2) s n (B1(k := C))"
    using C(1) nC out by (intro wfn_update [where mem' = "idx_mem st2", OF w1 k mn2]) (auto simp: z1 s2_def zl_def)
  have wc: "wft (idx_mem st1) s2 c (B1 k)"
    using wfn_son [OF w1 k] pre z1 unfolding descend_pre_def by (simp add: s2_def zl_def)
  have out0: "idx_mem st2 b = idx_mem st b" if "j < 64" "j \<noteq> k" "b \<in> B j" for j b
  proof -
    have "b \<in> B1 j" using others that by simp
    then have "idx_mem st2 b = idx_mem st1 b" "b \<noteq> n" "b \<notin> B1 k"
      using out [OF that(1,2)] wfn_notin [OF w1 that(1)] C(2) by blast+
    then show ?thesis using fr1 [of b] by simp
  qed
  have mn0: "idx_mem st2 n = (idx_mem st n)(6 + k := c')" by (simp add: mn2 c)
  have keq: "k = unat (next_layer_key s (unat (zipped_layer (idx_mem st n)) * 6) off)"
    by (simp add: k_def zl_def)
  have search: "search_leaf_node (idx_mem st2) n ino s off' =
      (if same_leaf s off off' then Inr (Some l) else search_leaf_node (idx_mem st) n ino s off')"
    if ok: "\<not> neg64 ino" "off_ok off'" for ino off'
  proof -
    have "search_leaf_node (idx_mem st2) c' ino s2 off' =
        (if same_leaf s2 off off' then Inr (Some l)
         else search_leaf_node (idx_mem st) (son_blk_id (idx_mem st n) k) ino s2 off')"
      using post pre ok unfolding insert_post_def descend_pre_def by simp
    from insert_node_search [where mem = "idx_mem st" and mem' = "idx_mem st2",
        OF w w2 ok(2,1) zp [unfolded zl_def] keq mn0 this [unfolded s2_def zl_def]] out0
    show ?thesis by blast
  qed
  have lB: "l \<in> node_set n B \<longleftrightarrow> l \<in> B k"
  proof -
    have "l \<notin> B j" if "j < 64" "j \<noteq> k" for j using out [OF that] others that lC(1) by auto
    moreover have "l \<noteq> n" using lC(1) nC by blast
    ultimately show ?thesis using k by auto
  qed
  have son1: "search_leaf_node (idx_mem st1) c ino s2 off = (if l \<in> B1 k then Inr (Some l) else Inr None)"
    if "\<not> neg64 ino" for ino
    using post that unfolding insert_post_def by blast
  have old: "search_leaf_node (idx_mem st) n ino s off = (if l \<in> node_set n B then Inr (Some l) else Inr None)"
    if ino: "\<not> neg64 ino" for ino
  proof -
    have "search_leaf_node (idx_mem st) n ino s off =
        search_leaf_node (idx_mem st) (son_blk_id (idx_mem st n) k) ino s2 off"
      using wfn_search [OF w o ino] zp by (simp add: keq s2_def zl_def)
    also have "\<dots> = (if B k = {} then Inr None else search_leaf_node (idx_mem st1) c ino s2 off)"
      using pre ino unfolding descend_pre_def by blast
    also have "\<dots> = (if l \<in> B k then Inr (Some l) else Inr None)"
      using pre son1 [OF ino] unfolding descend_pre_def by auto
    finally show ?thesis using lB by simp
  qed
  have emp: "empty_leaf (idx_mem st2 l)" if "l \<notin> node_set n B"
  proof (cases "l \<in> B1 k")
    case True
    have "\<not> neg64 (0 :: i64)" by simp
    with son1 [of 0] True search_wft [OF wc o, of 0] have "ndtype (idx_mem st1 l) = LEAF_NODE" by auto
    moreover from this True that lB have "empty_leaf (idx_mem st1 l)"
      using pre unfolding descend_pre_def by blast
    moreover have "idx_mem st2 l w = idx_mem st1 l w" if "w \<noteq> 1" for w
      using post True that calculation(1) unfolding insert_post_def by blast
    ultimately show ?thesis by (simp add: empty_leaf_def)
  qed (use lC(3) in blast)
  have leaves: "idx_mem st2 b w = idx_mem st b w"
    if b: "b \<in> node_set n B" "ndtype (idx_mem st b) = LEAF_NODE" and wne: "w \<noteq> 1" for b w
  proof -
    have "b \<noteq> n" using b(2) wfnD(2) [OF w] by auto
    with b(1) obtain j where j: "j < 64" "b \<in> B j" by auto
    show ?thesis
    proof (cases "j = k")
      case False
      then show ?thesis using out0 [OF j(1) False j(2)] by simp
    next
      case True
      then have "b \<in> B1 k" "idx_mem st1 b = idx_mem st b" using Bk(1) fr1 [of b] j \<open>b \<noteq> n\<close> by auto
      then show ?thesis using post b(2) wne unfolding insert_post_def by metis
    qed
  qed
  have frame: "idx_mem st2 b w = idx_mem st b w" if "b \<notin> node_set n (B1(k := C))" for b w
  proof -
    have "b \<notin> C" "b \<noteq> n" using that k by (auto split: if_splits)
    moreover from this have "b \<notin> B1 k" using C(2) by blast
    ultimately show ?thesis using fr2 [of b w] fr1 [of b] by simp
  qed
  have sub: "node_set n B \<subseteq> node_set n (B1(k := C))"
    using others Bk(1) C(2) by (auto split: if_splits)
  have ids2: "node_set n (B1(k := C)) \<subseteq> idx_ids st2"
    using ids1 C(3) by (auto split: if_splits)
  have fresh: "(node_set n (B1(k := C)) - node_set n B) \<inter> idx_ids st = {}"
  proof -
    have "C \<inter> idx_ids st \<subseteq> B k" using Bk(2) C(4) ids1 by blast
    then show ?thesis using others k by (auto split: if_splits)
  qed
  show ?thesis
    using wfn_wft [OF w2] sub ids1 ids2 C(3,5) fresh frame leaves lC(1,2) emp search old k
    unfolding insert_post_def by (auto split: if_splits)
qed

section \<open>Splitting a node\<close>

lemma next_key_zipped: "next_layer_key s zl off = zipped_part (s + zl) 6 off"
  by (simp add: next_layer_key_def zipped_part_def Let_def)

lemma zipped_split:
  assumes "s + p + q \<le> 42"
  shows "zipped_part s (p + q) off = 0 \<longleftrightarrow> zipped_part s p off = 0 \<and> zipped_part (s + p) q off = 0"
proof -
  have e: "42 - s - p = (42 - s - (p + q)) + q" using assms by simp
  have "unat off div 2 ^ (42 - s - (p + q)) div 2 ^ q = unat off div 2 ^ (42 - s - p)"
    unfolding e by (simp add: power_add div_mult2_eq)
  moreover have "42 - (s + p) - q = 42 - s - (p + q)" by simp
  ultimately show ?thesis
    using mod_split_iff [of "unat off div 2 ^ (42 - s - (p + q))" p q 0] assms
    by (simp add: zipped_part_zero)
qed

lemma level_zipped_eq:
  assumes "1 \<le> i" "i \<le> z" "s + z * 6 \<le> 42"
  shows "level_zipped_part (zipped_part s (z * 6) off) z i = zipped_part (s + (i - 1) * 6) 6 off"
proof -
  define d where "d = 42 - s - z * 6"
  have b: "(z - i) * 6 + 6 \<le> 64" using assms by simp
  have "unat (level_zipped_part (zipped_part s (z * 6) off) z i) =
      unat off div 2 ^ d mod 2 ^ (z * 6) div 2 ^ ((z - i) * 6) mod 2 ^ 6"
    using assms(3) key_part_eq [OF b, of "zipped_part s (z * 6) off"]
    by (simp add: level_zipped_part_def Let_def and.commute unat_key_part unat_zipped_part d_def)
  also have "unat off div 2 ^ d mod 2 ^ (z * 6) div 2 ^ ((z - i) * 6)
      = unat off div 2 ^ d div 2 ^ ((z - i) * 6) mod 2 ^ (i * 6)"
  proof -
    have "z * 6 = i * 6 + (z - i) * 6" using assms(2) by simp
    then show ?thesis
      using mod_mult2_eq [of "unat off div 2 ^ d" "2 ^ ((z - i) * 6)" "2 ^ (i * 6)"]
      by (simp only: power_add mult.commute) simp
  qed
  also have "\<dots> = unat off div 2 ^ (d + (z - i) * 6) mod 2 ^ (i * 6)"
    by (simp add: power_add div_mult2_eq)
  also have "d + (z - i) * 6 = 42 - (s + (i - 1) * 6) - 6" using assms by (simp add: d_def)
  also have "unat off div 2 ^ (42 - (s + (i - 1) * 6) - 6) mod 2 ^ (i * 6) mod 2 ^ 6
      = unat off div 2 ^ (42 - (s + (i - 1) * 6) - 6) mod 2 ^ 6"
    using assms(1) by (intro mod_mod_cancel le_imp_power_dvd) simp
  also have "\<dots> = unat (zipped_part (s + (i - 1) * 6) 6 off)"
    using assms by (subst unat_zipped_part) simp_all
  finally show ?thesis by (simp only: word_unat_eq_iff)
qed

lemma zipped_layers:
  assumes "\<And>j. j < a \<Longrightarrow> zipped_part (s + j * 6) 6 off = 0" "s + a * 6 \<le> 42"
  shows "zipped_part s (a * 6) off = 0"
  using assms
proof (induction a)
  case (Suc a)
  then show ?case using zipped_split [of s "a * 6" 6 off] by (simp add: add.commute)
qed simp

lemma allow_spec:
  assumes "zipped_part s (z * 6) off \<noteq> 0" "s + z * 6 \<le> 42"
  defines "a \<equiv> allow_zipped_layer (zipped_part s (z * 6) off) z"
  shows "a < z" "zipped_part s (a * 6) off = 0" "zipped_part (s + a * 6) 6 off \<noteq> 0"
proof -
  let ?P = "\<lambda>i. level_zipped_part (zipped_part s (z * 6) off) z i \<noteq> 0"
  obtain i where i: "find ?P [1..<Suc z] = Some i"
  proof (cases "find ?P [1..<Suc z]")
    case None
    have "zipped_part (s + j * 6) 6 off = 0" if "j < z" for j
    proof -
      have "Suc j \<in> set [1..<Suc z]" using that by (auto simp del: upt_Suc)
      with None have "level_zipped_part (zipped_part s (z * 6) off) z (Suc j) = 0"
        by (simp add: find_None_iff del: upt_Suc set_upt)
      then show ?thesis using that level_zipped_eq [of "Suc j" z s off] assms(2) by simp
    qed
    with zipped_layers [of z s off] assms(1,2) show thesis by blast
  qed
  then obtain p where p: "p < z" "i = Suc p" "?P i" "\<And>j. j < p \<Longrightarrow> \<not> ?P (Suc j)"
    by (auto simp: find_Some_iff Suc_eq_plus1_left simp del: upt_Suc)
  have a: "a = p" using i p(2) by (simp add: a_def allow_zipped_layer_def)
  show "a < z" using a p by simp
  show "zipped_part s (a * 6) off = 0"
  proof (rule zipped_layers)
    show "zipped_part (s + j * 6) 6 off = 0" if "j < a" for j
      using that p(1,4) a level_zipped_eq [of "Suc j" z s off] assms(2) by auto
  qed (use a p assms(2) in simp)
  show "zipped_part (s + a * 6) 6 off \<noteq> 0"
    using p a level_zipped_eq [of i z s off] assms(2) by auto
qed

lemma split_mem_words:
  assumes "m \<noteq> n" "father_block f \<noteq> m" "father_block f \<noteq> n"
  shows "split_mem mem n f a m m = (node_init (mem m) (of_nat a) NOT_LEAF_NODE)(6 := n)"
    and "split_mem mem n f a m n = (mem n)(1 := of_nat (unat (zipped_layer (mem n)) - a - 1))"
    and "split_mem mem n f a m (father_block f) = (mem (father_block f))(father_word f := m)"
    and "b \<notin> {m, n, father_block f} \<Longrightarrow> split_mem mem n f a m b = mem b"
  using assms by (auto simp: split_mem_def set_word_def)

lemma wft_zipped_change:
  assumes "wft mem s n A" "mem' n = (mem n)(1 := of_nat z')" "s' mod 6 = 0"
    and "\<And>b. b \<in> A \<Longrightarrow> b \<noteq> n \<Longrightarrow> mem' b = mem b"
    and "s' + z' * 6 = s + unat (zipped_layer (mem n)) * 6" "z' \<le> 6"
  shows "wft mem' s' n A"
proof -
  have u: "unat (zipped_layer (mem' n)) = z'"
    using assms(2,6) by (simp add: unat_of_nat64)
  from assms(1) show ?thesis
  proof (cases rule: wft.cases)
    case leaf
    then show ?thesis using assms u by (auto intro!: wft.leaf)
  next
    case (node B)
    show ?thesis
    proof (rule wft.node [where B = B])
      show "wft mem' (s' + unat (zipped_layer (mem' n)) * 6 + 6) (son_blk_id (mem' n) k) (B k)"
        if k: "k < 64" "son_blk_id (mem' n) k \<noteq> EMPTY_BLKID" for k
      proof -
        have "son_blk_id (mem n) k \<noteq> EMPTY_BLKID" using k assms(2) by simp
        from node(6) [OF k(1) this] have "wft mem' (s + unat (zipped_layer (mem n)) * 6 + 6) (son_blk_id (mem n) k) (B k)"
          by (rule wft_frame) (use assms(4) node(9,10) k(1) in auto)
        then show ?thesis using assms(2,5) u by simp
      qed
      show "B k = {}" if "k < 64" "son_blk_id (mem' n) k = EMPTY_BLKID" for k
        using node(7) [OF that(1)] that(2) assms(2) by simp
    qed (use node(1-5,8-10) assms(2,3,5,6) u in simp_all)
  qed
qed

lemma split_wfn:
  fixes mem :: "i64 \<Rightarrow> blk" and off :: i64
  assumes w: "wft mem s n A" and s: "s mod 6 = 0"
  defines "z \<equiv> unat (zipped_layer (mem n))"
  assumes zp: "zipped_part s (z * 6) off \<noteq> 0"
    and m: "indexid_ok m" "m \<notin> A" and f: "father_block f \<notin> A" "father_block f \<noteq> m"
  defines "a \<equiv> allow_zipped_layer (zipped_part s (z * 6) off) z"
  defines "mem' \<equiv> split_mem mem n f a m"
  shows "wfn mem' s m (\<lambda>k. if k = 0 then A else {})"
    and "unat (zipped_layer (mem' m)) = a" and "a < z"
    and "zipped_part s (a * 6) off = 0" and "next_layer_key s (a * 6) off \<noteq> 0"
    and "wft mem' (s + a * 6 + 6) n A"
proof -
  have n: "n \<in> A" using wft_root_in [OF w] .
  have sz: "s + z * 6 \<le> 36" and z6: "z \<le> 6"
    using w by (auto simp: z_def elim: wft.cases)
  then have "s + z * 6 \<le> 42" by simp
  note al = allow_spec [OF zp this, folded a_def]
  show "a < z" "zipped_part s (a * 6) off = 0" using al by simp_all
  show "next_layer_key s (a * 6) off \<noteq> 0" using al(3) by (simp add: next_key_zipped)
  have ne: "m \<noteq> n" "father_block f \<noteq> m" "father_block f \<noteq> n" using m f n by auto
  note words = split_mem_words [OF ne, where mem = mem and a = a, folded mem'_def z_def]
  show ua: "unat (zipped_layer (mem' m)) = a"
    using al(1) z6 by (simp add: words(1) unat_of_nat64)
  have fr: "mem' b = mem b" if "b \<in> A" "b \<noteq> n" for b
    using that m f by (intro words(4)) auto
  show w': "wft mem' (s + a * 6 + 6) n A"
  proof (rule wft_zipped_change [where mem' = mem', OF w words(2)])
    show "(s + a * 6 + 6) mod 6 = 0" using s by (metis mod_mult_self1 mod_add_self2 mult.commute)
    show "s + a * 6 + 6 + (z - a - 1) * 6 = s + unat (zipped_layer (mem n)) * 6"
      using al(1) by (simp add: z_def algebra_simps)
  qed (use fr z6 in auto)
  have son: "son_blk_id (mem' m) k = (if k = 0 then n else EMPTY_BLKID)" if "k < 64" for k
    using that by (simp add: words(1))
  show "wfn mem' s m (\<lambda>k. if k = 0 then A else {})"
    unfolding wfn_def ua using son w' m s sz al(1) wft_not_bad [OF w] words(1)
    by (auto simp: add.assoc)
qed

lemma split_search:
  fixes mem :: "i64 \<Rightarrow> blk" and off :: i64
  assumes w: "wft mem s n A" and s: "s mod 6 = 0"
  defines "z \<equiv> unat (zipped_layer (mem n))"
  assumes zp: "zipped_part s (z * 6) off \<noteq> 0"
    and m: "indexid_ok m" "m \<notin> A" and f: "father_block f \<notin> A" "father_block f \<noteq> m"
  defines "a \<equiv> allow_zipped_layer (zipped_part s (z * 6) off) z"
  defines "mem' \<equiv> split_mem mem n f a m"
  assumes o: "off_ok off'" and ino: "\<not> neg64 ino"
  shows "search_leaf_node mem' m ino s off' = search_leaf_node mem n ino s off'"
proof -
  note sw = split_wfn [where f = f, OF w s zp [unfolded z_def] m f, folded z_def, folded a_def, folded mem'_def]
  have n: "n \<in> A" using wft_root_in [OF w] .
  have sz: "s + z * 6 \<le> 36" using w by (auto simp: z_def elim: wft.cases)
  have e: "a * 6 + (6 + (z - a - 1) * 6) = z * 6" "s + a * 6 + 6 + (z - a - 1) * 6 = s + z * 6"
    using sw(3) by simp_all
  have zsplit: "zipped_part s (z * 6) off' = 0 \<longleftrightarrow> zipped_part s (a * 6) off' = 0 \<and>
      zipped_part (s + a * 6) 6 off' = 0 \<and> zipped_part (s + a * 6 + 6) ((z - a - 1) * 6) off' = 0"
    using zipped_split [of s "a * 6" "6 + (z - a - 1) * 6" off']
      zipped_split [of "s + a * 6" 6 "(z - a - 1) * 6" off'] sz e by simp
  have ne: "m \<noteq> n" "father_block f \<noteq> m" "father_block f \<noteq> n" using m f n by auto
  note words = split_mem_words [OF ne, where mem = mem and a = a, folded mem'_def z_def]
  have fr: "mem' b = mem b" if "b \<in> A" "b \<noteq> n" for b
    using that m f by (intro words(4)) auto
  have uz: "unat (zipped_layer (mem' n)) = z - a - 1"
    using unat_of_nat64 [of "z - a - 1"] sz by (simp add: words(2) del: of_nat_diff)
  have nw: "ndtype (mem' n) = ndtype (mem n)" "son_blk_id (mem' n) k = son_blk_id (mem n) k" for k
    by (simp_all add: words(2))
  note step = search_step [OF sw(6) o ino, unfolded uz nw]
  have sons: "search_leaf_node mem' (son_blk_id (mem n) k) ino t off' =
      search_leaf_node mem (son_blk_id (mem n) k) ino t off'"
    if k: "k < 64" and nl: "ndtype (mem n) = NOT_LEAF_NODE" and t: "t = s + z * 6 + 6" for k t
  proof (cases "son_blk_id (mem n) k = EMPTY_BLKID")
    case False
    obtain B where B: "wfn mem s n B" "A = node_set n B" using wft_wfn [OF w nl] .
    have "mem' b = mem b" if "b \<in> B k" for b
      using that B k wfn_notin [OF B(1) k] fr [of b] by auto
    from search_frame [where mem' = mem', OF wfn_son [OF B(1) k False] o ino this]
    show ?thesis by (simp add: t z_def)
  qed simp
  have low: "search_leaf_node mem' n ino (s + a * 6 + 6) off' =
      (if zipped_part (s + a * 6 + 6) ((z - a - 1) * 6) off' \<noteq> 0 then Inr None
       else if ndtype (mem n) = LEAF_NODE then Inr (Some n)
       else search_leaf_node mem (son_blk_id (mem n) (unat (next_layer_key s (z * 6) off'))) ino (s + z * 6 + 6) off')"
  proof (cases "ndtype (mem n) = LEAF_NODE")
    case True
    then show ?thesis using step by simp
  next
    case False
    then have nl: "ndtype (mem n) = NOT_LEAF_NODE" and "s + z * 6 + 6 \<le> 42"
      using w by (auto simp: z_def elim: wft.cases)
    then have "unat (next_layer_key s (z * 6) off') < 64" by (intro next_key_less)
    from sons [OF this nl refl] show ?thesis
      using step False by (simp only: next_key_zipped e if_False)
  qed
  have up: "search_leaf_node mem' m ino s off' =
      (if zipped_part s (a * 6) off' \<noteq> 0 \<or> zipped_part (s + a * 6) 6 off' \<noteq> 0 then Inr None
       else search_leaf_node mem' n ino (s + a * 6 + 6) off')"
    using wfn_search [OF sw(1) o ino] sw(2) next_key_less [of s "a * 6" off'] wfnD(5) [OF sw(1)]
    by (simp add: words(1) next_key_zipped unat_eq_0)
  show ?thesis
    using search_step [OF w o ino] low up zsplit by (simp flip: z_def)
qed

lemma insert_post_split:
  fixes st st1 st2 :: libfs and off :: i64
  assumes w: "wft (idx_mem st) s n A" and s: "s mod 6 = 0"
  defines "z \<equiv> unat (zipped_layer (idx_mem st n))"
  assumes zp: "zipped_part s (z * 6) off \<noteq> 0" and o: "off_ok off"
    and A: "A \<subseteq> idx_ids st" and f: "father_block f \<in> idx_ids st" "father_block f \<notin> A"
    and m: "indexid_ok m" "m \<notin> idx_ids st" and ids1: "idx_ids st1 = insert m (idx_ids st)"
    and mem1: "idx_mem st1 = split_mem (idx_mem st) n f (allow_zipped_layer (zipped_part s (z * 6) off) z) m"
    and post: "insert_post st1 s m (insert m A) (Son_slot m 0) off st2 0 m A' l"
  shows "insert_post st s n A f off st2 1 m A' l"
proof -
  have mA: "m \<notin> A" and fm: "father_block f \<noteq> m" using m(2) A f(1) by auto
  note sw = split_wfn [where f = f, OF w s zp [unfolded z_def] m(1) mA f(2) fm, folded z_def, folded mem1]
  note ss = split_search [where f = f, OF w s zp [unfolded z_def] m(1) mA f(2) fm, folded z_def, folded mem1]
  have n: "n \<in> A" using wft_root_in [OF w] .
  have ne: "m \<noteq> n" "father_block f \<noteq> m" "father_block f \<noteq> n" using mA f n fm by auto
  note words = split_mem_words [OF ne, where mem = "idx_mem st" and
      a = "allow_zipped_layer (zipped_part s (z * 6) off) z", folded mem1 z_def]
  note D = insert_postD [OF post]
  have fr2: "idx_mem st2 b w = idx_mem st1 b w" if "b \<notin> A'" for b w
    using D(7) [OF that] by simp
  have se2: "search_leaf_node (idx_mem st2) m ino s off' =
      (if same_leaf s off off' then Inr (Some l) else search_leaf_node (idx_mem st) n ino s off')"
    if "\<not> neg64 ino" "off_ok off'" for ino off'
    using D(12) [OF that] ss [OF that(2,1)] by simp
  have od2: "search_leaf_node (idx_mem st) n ino s off = (if l \<in> insert m A then Inr (Some l) else Inr None)"
    if "\<not> neg64 ino" for ino
    using D(13) [OF that] ss [OF o that] by simp
  have lm: "l \<noteq> m"
    using od2 [of 0] search_wft [OF w o, of 0] mA by auto
  have fA': "father_block f \<notin> A'" using D(5) ids1 f fm by blast
  have fw: "idx_mem st2 (father_block f) (father_word f) = m"
    using fr2 [OF fA'] words(3) by simp
  have frame: "idx_mem st2 b w = idx_mem st b w"
    if "b \<notin> A'" "\<not> (b = father_block f \<and> w = father_word f)" for b w
  proof -
    have "b \<noteq> m" "b \<noteq> n" using that(1) D(3) n by auto
    then show ?thesis using fr2 [OF that(1)] words(3,4) that(2) by (cases "b = father_block f") auto
  qed
  have leaves: "idx_mem st2 b w = idx_mem st b w"
    if "b \<in> A" "ndtype (idx_mem st b) = LEAF_NODE" "w \<noteq> 1" for b w
  proof -
    have "b \<notin> {m, father_block f}" using that(1) mA f(2) by auto
    then have "idx_mem st1 b 0 = idx_mem st b 0 \<and> idx_mem st1 b w = idx_mem st b w"
      using that(3) words(2) words(4) [of b] by (cases "b = n") auto
    then show ?thesis using D(8) [of b w] that by simp
  qed
  have sets: "A \<subseteq> A'" "idx_ids st \<union> A' \<subseteq> idx_ids st2" "(A' - A) \<inter> idx_ids st = {}"
    using D(3-5) ids1 m(2) by blast+
  show ?thesis
    unfolding insert_post_def
    by (intro conjI allI impI ballI)
      (use D(2,6,9-11) sets lm fw frame leaves se2 od2 in \<open>simp_all\<close>)
qed

lemma insert_flag_0:
  assumes "insert_node_into_index st n ino f s off = (st', Inr flag)"
    and "zipped_part s (unat (zipped_layer (idx_mem st n)) * 6) off = 0"
  shows "flag = 0"
  using assms(1)
  by (subst (asm) insert_node_into_index.simps)
    (auto simp: Let_def assms(2) bad_node_def split: if_splits prod.splits sum.splits)

end
