(* ===== verification/Index_Insert.thy ===== *)
theory Index_Insert
  imports Index_Tree
begin

text \<open>
  The insertion of a leaf, \<open>insert_node_into_index\<close> (\<open>src/LibFS/index.c\<close>), establishes its
  contract \<^const>\<open>insert_post\<close> on every well-formed tree.
\<close>

lemma insert_post_log:
  "insert_post st s n A f off (write_change_log st' b t d p len) flag n' A' l =
   insert_post st s n A f off st' flag n' A' l"
  by (simp add: insert_post_def idx_ids_def frame_simps)

lemma insert_guards:
  assumes "insert_node_into_index st n ino f s off = (st', Inr flag)"
  shows "\<not> (neg64 n \<or> neg64 ino \<or> KEY_LEN < s \<or> push_bit KEY_LEN 1 \<le> off)"
    "\<not> \<not> indexid_ok n" "\<not> bad_node (idx_mem st n) s"
  using assms by (auto simp: insert_node_into_index.simps [of st n] split: if_splits)

text \<open>The two recursive branches, with the let-bound names of the code resolved.\<close>

lemma insert_descend_cases:
  fixes st :: libfs and off :: i64
  assumes c: "insert_node_into_index st n ino f s off = (st', Inr flag)"
    and nl: "ndtype (idx_mem st n) = NOT_LEAF_NODE"
    and zp: "zipped_part s (unat (zipped_layer (idx_mem st n)) * 6) off = 0"
  defines "k \<equiv> unat (next_layer_key s (unat (zipped_layer (idx_mem st n)) * 6) off)"
  obtains st1 st2 fl where
    "(st1, Inr ()) = (if son_blk_id (idx_mem st n) k = EMPTY_BLKID
        then insert_add_son st n s (unat (zipped_layer (idx_mem st n)) * 6) k else (st, Inr ()))"
    "insert_node_into_index st1 (son_blk_id (idx_mem st1 n) k) ino (Son_slot n k)
       (s + unat (zipped_layer (idx_mem st n)) * 6 + 6) off = (st2, Inr fl)"
    "flag = 0"
    "st' = st2 \<or> (\<exists>d p. st' = write_change_log st2 n IDXND_OP d p 8)"
proof -
  let ?zl = "unat (zipped_layer (idx_mem st n)) * 6"
  obtain st1 r1 where d: "(if son_blk_id (idx_mem st n) k = EMPTY_BLKID
      then insert_add_son st n s ?zl k else (st, Inr ())) = (st1, r1)" by fastforce
  obtain st2 r2 where r: "insert_node_into_index st1 (son_blk_id (idx_mem st1 n) k) ino (Son_slot n k)
      (s + ?zl + 6) off = (st2, r2)" by fastforce
  note u = c [unfolded insert_node_into_index.simps [of st n] Let_def, folded k_def, unfolded d]
  from u insert_guards [OF c] nl zp r obtain fl where fl: "r1 = Inr ()" "r2 = Inr fl" "flag = 0"
    "st' = (if fl = 1 then write_change_log st2 n IDXND_OP (idx_mem st2 n) (48 + k * 8) 8 else st2)"
    by (auto split: sum.splits)
  then have "st' = st2 \<or> (\<exists>d p. st' = write_change_log st2 n IDXND_OP d p 8)" by metis
  with d r fl show thesis by (intro that) simp_all
qed

lemma insert_split_cases:
  fixes st :: libfs and off :: i64
  assumes c: "insert_node_into_index st n ino f s off = (st', Inr flag)"
    and zp: "zipped_part s (unat (zipped_layer (idx_mem st n)) * 6) off \<noteq> 0"
  obtains st1 m st2 fl where
    "(st1, Inr m) = insert_split st n f (zipped_part s (unat (zipped_layer (idx_mem st n)) * 6) off)"
    "insert_node_into_index st1 m ino (Son_slot m 0) s off = (st2, Inr fl)"
    "flag = 1"
    "st' = st2 \<or> (\<exists>d. st' = write_change_log st2 m IDXND_OP d 48 8)"
proof -
  let ?zl = "unat (zipped_layer (idx_mem st n)) * 6"
  obtain st1 r1 where d: "insert_split st n f (zipped_part s ?zl off) = (st1, r1)" by fastforce
  note u = c [unfolded insert_node_into_index.simps [of st n] Let_def, unfolded d]
  from u insert_guards [OF c] zp obtain m where m: "r1 = Inr m" by (auto split: sum.splits)
  obtain st2 r2 where r: "insert_node_into_index st1 m ino (Son_slot m 0) s off = (st2, r2)" by fastforce
  from u insert_guards [OF c] zp m r obtain fl where fl: "r2 = Inr fl" "flag = 1"
    "st' = (if fl = 1 then write_change_log st2 m IDXND_OP (idx_mem st2 m) 48 8 else st2)"
    by (auto split: sum.splits)
  then have "st' = st2 \<or> (\<exists>d. st' = write_change_log st2 m IDXND_OP d 48 8)" by metis
  with d r m fl show thesis by (intro that) simp_all
qed

lemma insert_correct:
  assumes "insert_node_into_index st n ino f s off = (st', Inr flag)"
    and "wft (idx_mem st) s n A" "s mod 6 = 0" "A \<subseteq> idx_ids st" "father_block f \<in> idx_ids st"
    and "father_block f \<notin> A \<or> zipped_part s (unat (zipped_layer (idx_mem st n)) * 6) off = 0"
    and "off_ok off" "space_wf (bmps st)"
  shows "\<exists>n' A' l. insert_post st s n A f off st' flag n' A' l"
  using assms
proof (induction st n ino f s off arbitrary: st' flag A rule: insert_node_into_index.induct)
  case (1 st n ino f s off)
  note c = 1(3) and w = 1(4) and s = 1(5) and A = 1(6) and fa = 1(7,8) and o = 1(9) and sp = 1(10)
  note g = insert_guards [OF c]
  let ?zl = "unat (zipped_layer (idx_mem st n)) * 6"
  consider (leaf) "ndtype (idx_mem st n) = LEAF_NODE" "zipped_part s ?zl off = 0"
    | (inner) "ndtype (idx_mem st n) = NOT_LEAF_NODE" "zipped_part s ?zl off = 0"
    | (split) "zipped_part s ?zl off \<noteq> 0"
    using w by (auto elim: wft.cases)
  then show ?case
  proof cases
    case leaf
    with c g have "st' = st" "flag = 0"
      by (auto simp: insert_node_into_index.simps [of st n])
    with insert_post_leaf [OF w leaf(1) A sp o leaf(2)] show ?thesis by blast
  next
    case inner
    let ?k = "unat (next_layer_key s ?zl off)" and ?s2 = "s + ?zl + 6"
    obtain B where B: "wfn (idx_mem st) s n B" "A = node_set n B" using wft_wfn [OF w inner(1)] .
    have k: "?k < 64" using wfnD(5) [OF B(1)] by (intro next_key_less) simp
    obtain st1 st2 fl where d: "(st1, Inr ()) = (if son_blk_id (idx_mem st n) ?k = EMPTY_BLKID
        then insert_add_son st n s ?zl ?k else (st, Inr ()))"
      and r: "insert_node_into_index st1 (son_blk_id (idx_mem st1 n) ?k) ino (Son_slot n ?k) ?s2 off = (st2, Inr fl)"
      and f0: "flag = 0" and st': "st' = st2 \<or> (\<exists>d p. st' = write_change_log st2 n IDXND_OP d p 8)"
      using insert_descend_cases [OF c inner] .
    have "\<exists>c1 B1. descend_pre st s n B ?k ?s2 off st1 c1 B1"
      using descend_existing [where ?s2.0 = ?s2, OF B(1) k A [unfolded B(2)] sp]
        descend_new [OF B(1) k A [unfolded B(2)] sp, of st1 "()" off] d
      by (auto split: if_splits)
    then obtain c1 B1 where pre: "descend_pre st s n B ?k ?s2 off st1 c1 B1" by blast
    then have w1: "wfn (idx_mem st1) s n B1" and c1: "idx_mem st1 n = (idx_mem st n)(6 + ?k := c1)"
      "c1 \<noteq> EMPTY_BLKID" and ids: "node_set n B1 \<subseteq> idx_ids st1" and sp1: "space_wf (bmps st1)"
      by (auto simp: descend_pre_def)
    have z1: "zipped_layer (idx_mem st1 n) = zipped_layer (idx_mem st n)" by (simp add: c1)
    have son: "son_blk_id (idx_mem st1 n) ?k = c1" by (simp add: c1)
    have wc: "wft (idx_mem st1) ?s2 c1 (B1 ?k)"
      using wfn_son [OF w1 k] c1(2) unfolding son z1 by blast
    have "?s2 mod 6 = 0" using s by (metis mod_mult_self1 mod_add_self2 mult.commute)
    moreover have "B1 ?k \<subseteq> idx_ids st1" using ids k by auto
    moreover have "n \<in> idx_ids st1" "n \<notin> B1 ?k" using ids wfn_notin [OF w1 k] by auto
    ultimately obtain n' C l where "insert_post st1 ?s2 c1 (B1 ?k) (Son_slot n ?k) off st2 fl n' C l"
      using 1(1) [OF g refl refl refl _ _ refl d refl r, of "B1 ?k"] inner wc o sp1
      unfolding son by auto
    from insert_post_node [OF B(1) inner(2) o pre this, of f]
    show ?thesis using st' insert_post_log unfolding f0 B(2) by blast
  next
    case split
    then have f: "father_block f \<in> idx_ids st" "father_block f \<notin> A" using fa by auto
    let ?zp = "zipped_part s ?zl off"
    obtain st1 m st2 fl where d: "(st1, Inr m) = insert_split st n f ?zp"
      and r: "insert_node_into_index st1 m ino (Son_slot m 0) s off = (st2, Inr fl)"
      and f1: "flag = 1" and st': "st' = st2 \<or> (\<exists>d. st' = write_change_log st2 m IDXND_OP d 48 8)"
      using insert_split_cases [OF c split] .
    obtain s0 where s0: "require_index_node_id st = (s0, Inr m)" "indexid_ok m" "bmps st1 = bmps s0"
      "idx_mem st1 = split_mem (idx_mem st) n f (allow_zipped_layer ?zp (unat (zipped_layer (idx_mem st n)))) m"
      using insert_split_ok [OF d [symmetric]] by metis
    note rq = require_index_ok [OF sp s0(1)]
    have ids1: "idx_ids st1 = insert m (idx_ids st)" using rq(3) s0(3) by (simp add: idx_ids_def)
    have sp1: "space_wf (bmps st1)" using rq(1) s0(3) by simp
    have m: "m \<notin> A" "father_block f \<noteq> m" using rq(2) A f by auto
    note sw = split_wfn [where f = f, OF w s split s0(2) m(1) f(2) m(2), folded s0(4)]
    have A1: "node_set m (\<lambda>k. if k = 0 then A else {}) = insert m A" by auto
    have wm: "wft (idx_mem st1) s m (insert m A)" using wfn_wft [OF sw(1)] unfolding A1 .
    have zm: "zipped_part s (unat (zipped_layer (idx_mem st1 m)) * 6) off = 0"
      using sw(4) unfolding sw(2) .
    have "insert m A \<subseteq> idx_ids st1" "m \<in> idx_ids st1" using ids1 A by auto
    then obtain n' A' l where p: "insert_post st1 s m (insert m A) (Son_slot m 0) off st2 fl n' A' l"
      using 1(2) [OF g refl refl refl _ _ d refl r wm s] split zm o sp1 by auto
    have "fl = 0" "n' = m" using insert_flag_0 [OF r zm] insert_postD(1) [OF p] by auto
    with p insert_post_split [OF w s split o A f s0(2) rq(2) ids1 s0(4)]
    have "insert_post st s n A f off st2 1 m A' l" by simp
    then show ?thesis using st' insert_post_log unfolding f1 by blast
  qed
qed

end
