(* ===== verification/Index_Ops.thy ===== *)
theory Index_Ops
  imports Index_Insert Meta_Cache
begin

text \<open>
  The operations on a file's index (\<open>src/LibFS/index.c\<close>): the root block, the son type bits of
  a leaf, appending SSD blocks and NVM pages, querying and changing the entry of a block
  offset, inserting cache pages over an SSD block, and deleting an index.

  A pointer to a node is its block id.  A function that returns an error number returns it
  next to the new state, 0 for success.  The arrays of block ids the callers pass are
  functions from positions.  \<open>delete_all_index_operation\<close> follows the sons of a node
  without a bound of its own; it takes fuel, and seven steps are enough on every well-formed
  tree (theory \<open>Index_Delete\<close>).
\<close>

declare One_nat_def [simp del]

section \<open>Roots and leaves\<close>

definition check_root_id :: "libfs \<Rightarrow> i64 \<Rightarrow> i64 \<Rightarrow> libfs \<times> (errno + unit)" where
  "check_root_id st root_id inode_id =
     (if neg64 root_id \<or> neg64 inode_id then (st, Inl EINVAL)
      else if \<not> indexid_ok root_id then (st, Inl EIO)
      else if ndtype (idx_mem st root_id) \<noteq> IDX_ROOT \<or> idx_inode_id (idx_mem st root_id) \<noteq> inode_id
      then (st, Inl EIO)
      else if idx_entry_blkid (idx_mem st root_id) = EMPTY_BLKID
      then case require_index_node_id st of
             (st, Inl err) \<Rightarrow> (st\<lparr>idx_mem := set_word (idx_mem st) root_id 2 (- 1)\<rparr>, Inl ENOSPC)
           | (st, Inr entry) \<Rightarrow>
               let st = st\<lparr>idx_mem := set_word (idx_mem st) root_id 2 entry\<rparr>;
                   st = write_change_log st root_id IDXND_OP (idx_mem st root_id) 16 8;
                   st = write_create_log st entry IDXND_OP
               in if \<not> indexid_ok entry then (st, Inl EIO)
                  else let st = st\<lparr>idx_mem := (idx_mem st)(entry :=
                              node_init (idx_mem st entry) (of_nat MAX_ZIPPED_LAYER) LEAF_NODE)\<rparr>;
                           st = write_change_log st entry IDXND_OP (idx_mem st entry) 0 (unat ORCH_IDX_SIZE)
                       in (st, Inr ())
      else (st, Inr ()))"

definition get_idxson_type :: "blk \<Rightarrow> nat \<Rightarrow> i64" where
  "get_idxson_type b pos =
     (if virnd_flag b (pos div 64) AND push_bit (pos mod 64) 1 \<noteq> 0 then VIR_LEAF_NODE else SSD_BLOCK)"

definition change_idxson_type :: "blk \<Rightarrow> nat \<Rightarrow> i64 \<Rightarrow> blk" where
  "change_idxson_type b pos type =
     (let foff = pos div 64; fpos = pos mod 64
      in if type = VIR_LEAF_NODE then b(2 + foff := virnd_flag b foff OR push_bit fpos 1)
         else b(2 + foff := virnd_flag b foff AND NOT (push_bit fpos 1)))"

definition get_and_add_leafnode_id :: "libfs \<Rightarrow> i64 \<Rightarrow> i64 \<Rightarrow> i64 \<Rightarrow> libfs \<times> (errno + i64)" where
  "get_and_add_leafnode_id st root_id inode_id off =
     (case search_leaf_node (idx_mem st) (idx_entry_blkid (idx_mem st root_id)) inode_id 0 off of
        Inl err \<Rightarrow> (st, Inl err)
      | Inr (Some leaf_node_id) \<Rightarrow> (st, Inr leaf_node_id)
      | Inr None \<Rightarrow>
          (case insert_node_into_index st (idx_entry_blkid (idx_mem st root_id)) inode_id (Root_entry root_id) 0 off of
             (st, Inl err) \<Rightarrow> (st, Inl err)
           | (st, Inr modified) \<Rightarrow>
               let st = (if modified = 1
                         then write_change_log st root_id IDXND_OP (idx_mem st root_id) 16 8 else st)
               in case search_leaf_node (idx_mem st) (idx_entry_blkid (idx_mem st root_id)) inode_id 0 off of
                    Inl err \<Rightarrow> (st, Inl err)
                  | Inr None \<Rightarrow> (st, Inl EIO)
                  | Inr (Some leaf_node_id) \<Rightarrow> (st, Inr leaf_node_id)))"

definition get_and_add_leafnode_pt :: "libfs \<Rightarrow> i64 \<Rightarrow> i64 \<Rightarrow> i64 \<Rightarrow> libfs \<times> (errno + i64)" where
  "get_and_add_leafnode_pt st root_id inode_id off =
     (case get_and_add_leafnode_id st root_id inode_id off of
        (st, Inl err) \<Rightarrow> (st, Inl err)
      | (st, Inr leaf_node_id) \<Rightarrow> if indexid_ok leaf_node_id then (st, Inr leaf_node_id) else (st, Inl EIO))"

definition get_leafnode_id :: "libfs \<Rightarrow> i64 \<Rightarrow> i64 \<Rightarrow> i64 \<Rightarrow> errno + i64 option" where
  "get_leafnode_id st root_id inode_id off =
     search_leaf_node (idx_mem st) (idx_entry_blkid (idx_mem st root_id)) inode_id 0 off"

definition get_leafnode_pt :: "libfs \<Rightarrow> i64 \<Rightarrow> i64 \<Rightarrow> i64 \<Rightarrow> errno + i64 option" where
  "get_leafnode_pt st root_id inode_id off =
     (case search_leaf_node (idx_mem st) (idx_entry_blkid (idx_mem st root_id)) inode_id 0 off of
        Inr (Some leaf_node_id) \<Rightarrow> if indexid_ok leaf_node_id then Inr (Some leaf_node_id) else Inl EIO
      | r \<Rightarrow> r)"

definition leaf_pos :: "i64 \<Rightarrow> nat" where
  "leaf_pos off = unat (off AND (push_bit LAYER_BITWIDTH 1 - 1))"

definition create_index :: "libfs \<Rightarrow> i64 \<Rightarrow> libfs \<times> (errno + i64)" where
  "create_index st inode_id =
     (case require_index_node_id st of
        (st, Inl err) \<Rightarrow> (st, Inl ENOSPC)
      | (st, Inr root_blk_id) \<Rightarrow>
          let st = write_create_log st root_blk_id IDXND_OP in
          if \<not> indexid_ok root_blk_id then (st, Inl EIO)
          else let st = st\<lparr>idx_mem := (idx_mem st)(root_blk_id :=
                      (idx_mem st root_blk_id)(0 := IDX_ROOT, 1 := inode_id, 2 := EMPTY_BLKID, 3 := - 1))\<rparr>;
                   st = write_change_log st root_blk_id IDXND_OP (idx_mem st root_blk_id) 0 32
               in (st, Inr root_blk_id))"

section \<open>Appending\<close>

text \<open>The inner loop of \<open>append_ssd_blocks\<close> fills the slots of one leaf from position \<open>i\<close>; its
  result counts the blocks placed.\<close>

function append_leaf ::
  "(i64 \<Rightarrow> blk) \<Rightarrow> i64 \<Rightarrow> nat \<Rightarrow> (nat \<Rightarrow> i64) \<Rightarrow> nat \<Rightarrow> nat \<Rightarrow> (i64 \<Rightarrow> blk) \<times> (errno + nat)" where
  "append_leaf mem leaf i arr app_cur need =
     (if NODE_SON_CAPACITY \<le> i then (mem, Inr 0)
      else if son_blk_id (mem leaf) i \<noteq> EMPTY_BLKID then (mem, Inl EIO)
      else let mem = set_word mem leaf (6 + i) (arr app_cur) in
           if need - 1 = 0 then (mem, Inr 1)
           else case append_leaf mem leaf (i + 1) arr (app_cur + 1) (need - 1) of
                  (mem, Inl err) \<Rightarrow> (mem, Inl err)
                | (mem, Inr n) \<Rightarrow> (mem, Inr (Suc n)))"
  by pat_completeness auto
termination by (relation "measure (\<lambda>(mem, leaf, i, arr, cur, need). NODE_SON_CAPACITY - i)") auto

declare append_leaf.simps [simp del]

lemma append_leaf_count:
  "append_leaf mem leaf i arr cur need = (mem', Inr n) \<Longrightarrow> i < NODE_SON_CAPACITY \<Longrightarrow> 0 < n"
  by (subst (asm) append_leaf.simps) (auto simp: Let_def split: if_splits prod.splits sum.splits)

lemma leaf_pos_less: "leaf_pos off < 64"
proof -
  have "push_bit 6 1 - 1 = (mask 6 :: u64)" by (simp add: mask_eq_exp_minus_1)
  then have "leaf_pos off = unat (take_bit 6 off)" by (simp add: leaf_pos_def take_bit_eq_mask)
  also have "\<dots> < 64" using take_bit_nat_less_exp [of 6 "unat off"] by (simp add: unsigned_take_bit_eq)
  finally show ?thesis .
qed

function append_ssd_loop ::
  "libfs \<Rightarrow> i64 \<Rightarrow> i64 \<Rightarrow> i64 \<Rightarrow> (nat \<Rightarrow> i64) \<Rightarrow> nat \<Rightarrow> nat \<Rightarrow> libfs \<times> errno" where
  "append_ssd_loop st root_id inode_id off arr app_cur need =
     (if need = 0 then (st, 0)
      else case get_and_add_leafnode_id st root_id inode_id off of
             (st, Inl err) \<Rightarrow> (st, err)
           | (st, Inr leaf) \<Rightarrow>
               if \<not> indexid_ok leaf then (st, EIO)
               else let leaf_offset = leaf_pos off in
                    case append_leaf (idx_mem st) leaf leaf_offset arr app_cur need of
                      (mem, Inl err) \<Rightarrow> (st\<lparr>idx_mem := mem\<rparr>, err)
                    | (mem, Inr this_app_blk) \<Rightarrow>
                        let st = st\<lparr>idx_mem := mem\<rparr>;
                            st = write_change_log st leaf IDXND_OP (idx_mem st leaf) (48 + leaf_offset * 8) (this_app_blk * 8)
                        in append_ssd_loop st root_id inode_id (off + of_nat this_app_blk) arr
                             (app_cur + this_app_blk) (need - this_app_blk))"
  by pat_completeness auto
termination
  by (relation "measure (\<lambda>(st, root, ino, off, arr, cur, need). need)")
    (auto dest: append_leaf_count [OF sym leaf_pos_less])

declare append_ssd_loop.simps [simp del]

text \<open>The loop counter is a 32-bit copy of the number of blocks.\<close>

definition append_ssd_blocks :: "libfs \<Rightarrow> i64 \<Rightarrow> i64 \<Rightarrow> i64 \<Rightarrow> (nat \<Rightarrow> i64) \<Rightarrow> libfs \<times> errno" where
  "append_ssd_blocks st root_id inode_id app_blk_num arr =
     (case check_root_id st root_id inode_id of
        (st, Inl err) \<Rightarrow> (st, err)
      | (st, Inr _) \<Rightarrow>
          let app_blk_off = max_blk_offset (idx_mem st root_id) + 1 in
          if sint app_blk_num \<le> 0 \<or> neg64 app_blk_off \<or> 2 ^ KEY_LEN - sint app_blk_off < sint app_blk_num
          then (st, EFBIG)
          else let need_app_blk_num = sint (ucast app_blk_num :: u32) in
               case append_ssd_loop st root_id inode_id app_blk_off arr 0 (nat need_app_blk_num) of
                 (st, err) \<Rightarrow>
                   if err \<noteq> 0 then (st, err)
                   else let st = st\<lparr>idx_mem := set_word (idx_mem st) root_id 3
                                 (max_blk_offset (idx_mem st root_id) + app_blk_num)\<rparr>;
                            st = write_change_log st root_id IDXND_OP (idx_mem st root_id) 24 8
                        in (st, 0))"

definition append_single_ssd_block where
  "append_single_ssd_block st root_id inode_id ssd_blk_id = append_ssd_blocks st root_id inode_id 1 (\<lambda>_. ssd_blk_id)"

text \<open>\<open>append_nvm_pages\<close>: the copy loop into one virtual node, one round of the outer loop (which
  yields the next block offset and the number of pages placed), and the outer loop.\<close>

function fill_pages ::
  "(i64 \<Rightarrow> blk) \<Rightarrow> i64 \<Rightarrow> nat \<Rightarrow> (nat \<Rightarrow> i64) \<Rightarrow> nat \<Rightarrow> nat \<Rightarrow> (i64 \<Rightarrow> blk) \<times> nat" where
  "fill_pages vmem v i arr cur num =
     (if VLN_SLOT_SUM \<le> i then (vmem, 0)
      else let vmem = set_word vmem v (3 + i) (arr cur);
               vmem = set_word vmem v 2 (vn_max_pos (vmem v) + 1)
           in if num - 1 = 0 then (vmem, 1)
              else case fill_pages vmem v (i + 1) arr (cur + 1) (num - 1) of (vmem, n) \<Rightarrow> (vmem, Suc n))"
  by pat_completeness auto
termination by (relation "measure (\<lambda>(vmem, v, i, arr, cur, num). VLN_SLOT_SUM - i)") auto

declare fill_pages.simps [simp del]

definition append_pages_to ::
  "libfs \<Rightarrow> i64 \<Rightarrow> i64 \<Rightarrow> (nat \<Rightarrow> i64) \<Rightarrow> nat \<Rightarrow> nat \<Rightarrow> libfs \<times> (i64 \<times> nat)" where
  "append_pages_to st v off arr cur num =
     (case fill_pages (vir_mem st) v (unat (vn_max_pos (vir_mem st v))) arr cur num of
        (vmem, n) \<Rightarrow>
          let st = st\<lparr>vir_mem := vmem\<rparr>;
              st = write_change_log st v VIRND_OP (vir_mem st v) 0 (unat ORCH_VIRND_SIZE)
          in (st, (if vn_max_pos (vir_mem st v) = of_nat VLN_SLOT_SUM \<and> n < num then off + 1 else off, n)))"

definition append_nvm_step ::
  "libfs \<Rightarrow> i64 \<Rightarrow> i64 \<Rightarrow> i64 \<Rightarrow> (nat \<Rightarrow> i64) \<Rightarrow> nat \<Rightarrow> nat \<Rightarrow> libfs \<times> (errno + i64 \<times> nat)" where
  "append_nvm_step st root_id inode_id off arr cur num =
     (case get_and_add_leafnode_id st root_id inode_id off of
        (st, Inl err) \<Rightarrow> (st, Inl err)
      | (st, Inr leaf) \<Rightarrow>
          let pos = leaf_pos off; son = son_blk_id (idx_mem st leaf) pos in
          if \<not> indexid_ok leaf then (st, Inl EIO)
          else if son \<noteq> EMPTY_BLKID then
            if get_idxson_type (idx_mem st leaf) pos = SSD_BLOCK then (st, Inl EIO)
            else if \<not> virnodeid_ok son then (st, Inl EIO)
            else let max_pos = vn_max_pos (vir_mem st son) in
                 if neg64 max_pos \<or> int VLN_SLOT_SUM < sint max_pos then (st, Inl EIO)
                 else if ndtype (vir_mem st son) = STRATA_NODE then (st, Inl EIO)
                 else if ndtype (vir_mem st son) \<noteq> VIR_LEAF_NODE then (st, Inl EIO)
                 else (case append_pages_to st son off arr cur num of (st, r) \<Rightarrow> (st, Inr r))
          else
            (case require_virindex_node_id st of
               (st, Inl err) \<Rightarrow> (st, Inl ENOSPC)
             | (st, Inr virnd_id) \<Rightarrow>
                 let st = write_create_log st virnd_id VIRND_OP in
                 if \<not> virnodeid_ok virnd_id then (st, Inl EIO)
                 else
                   let st = st\<lparr>vir_mem := (vir_mem st)(virnd_id := vir_node_init (vir_mem st virnd_id) VIR_LEAF_NODE)\<rparr>;
                       st = st\<lparr>idx_mem := set_word (idx_mem st) leaf (6 + pos) virnd_id\<rparr>;
                       st = st\<lparr>idx_mem := (idx_mem st)(leaf := change_idxson_type (idx_mem st leaf) pos VIR_LEAF_NODE)\<rparr>;
                       st = write_change_log st leaf IDXND_OP (idx_mem st leaf) 16 16;
                       st = write_change_log st leaf IDXND_OP (idx_mem st leaf) (48 + pos * 8) 8
                   in (case append_pages_to st virnd_id off arr cur num of (st, r) \<Rightarrow> (st, Inr r))))"

lemma search_Some_offset:
  "search_leaf_node mem n ino s off = Inr (Some l) \<Longrightarrow> unat off < 2 ^ 42"
  by (subst (asm) search_leaf_node.simps) (auto simp: word_le_nat_alt split: if_splits)

lemma leafnode_offset:
  "get_and_add_leafnode_id st root ino off = (st', Inr l) \<Longrightarrow> unat off < 2 ^ 42"
  by (auto simp: get_and_add_leafnode_id_def Let_def dest: search_Some_offset
      split: sum.splits option.splits prod.splits)

lemma fill_pages_count:
  "fill_pages vmem v i arr cur num = (vmem', n) \<Longrightarrow> n = 0 \<longleftrightarrow> VLN_SLOT_SUM \<le> i"
  by (subst (asm) fill_pages.simps) (auto simp: Let_def split: if_splits prod.splits)

lemma fill_pages_max_pos_end:
  "fill_pages vmem v i arr cur num = (vmem', 0) \<Longrightarrow> vmem' = vmem"
  by (subst (asm) fill_pages.simps) (auto simp: Let_def split: if_splits prod.splits)

text \<open>A round places at least one page or moves on past a full node.\<close>

lemma small_max_pos:
  "\<not> neg64 x \<Longrightarrow> \<not> 8 < sint x \<Longrightarrow> unat x \<le> 8"
  using nonneg64_sint [of x] by (metis not_less of_nat_le_iff of_nat_numeral)

lemma append_pages_progress:
  assumes "append_pages_to st v off arr cur num = (st', off', n)" "unat (vn_max_pos (vir_mem st v)) \<le> 8" "0 < num"
  shows "0 < n \<or> off' = off + 1"
proof (cases "n = 0")
  case True
  obtain vmem m where f: "fill_pages (vir_mem st) v (unat (vn_max_pos (vir_mem st v))) arr cur num = (vmem, m)"
    by fastforce
  with assms(1) True have m: "m = 0" by (simp add: append_pages_to_def Let_def)
  then have vmem: "vmem = vir_mem st" using fill_pages_max_pos_end f by blast
  have "vn_max_pos (vir_mem st v) = 8"
    using fill_pages_count [OF f] m assms(2) by (simp add: word_unat_eq_iff)
  then show ?thesis
    using assms(1,3) f m vmem by (auto simp: append_pages_to_def Let_def frame_simps)
qed simp

lemma append_nvm_progress:
  assumes "append_nvm_step st root ino off arr cur num = (st', Inr (off', n))" "0 < num"
  shows "0 < n \<or> off' = off + 1" "unat off < 2 ^ 42"
proof -
  show "unat off < 2 ^ 42"
    using assms(1) by (auto simp: append_nvm_step_def dest: leafnode_offset split: prod.splits sum.splits)
  show "0 < n \<or> off' = off + 1"
    using assms
    by (auto simp: append_nvm_step_def Let_def vir_node_init_def frame_simps split: prod.splits sum.splits if_splits
        dest!: append_pages_progress intro: small_max_pos)
qed

function append_nvm_loop ::
  "libfs \<Rightarrow> i64 \<Rightarrow> i64 \<Rightarrow> i64 \<Rightarrow> (nat \<Rightarrow> i64) \<Rightarrow> nat \<Rightarrow> nat \<Rightarrow> libfs \<times> (errno + i64)" where
  "append_nvm_loop st root_id inode_id off arr cur num =
     (if num = 0 then (st, Inr off)
      else case append_nvm_step st root_id inode_id off arr cur num of
             (st, Inl err) \<Rightarrow> (st, Inl err)
           | (st, Inr (off', n)) \<Rightarrow> append_nvm_loop st root_id inode_id off' arr (cur + n) (num - n))"
  by pat_completeness auto
termination
proof (relation "measures [\<lambda>(st, root, ino, off, arr, cur, num). num,
                          \<lambda>(st, root, ino, off, arr, cur, num). 2 ^ 42 - unat off]", goal_cases)
  case (2 st root ino off arr cur num st1 r p off' n)
  then have step: "append_nvm_step st root ino off arr cur num = (st1, Inr (off', n))" "0 < num" by simp_all
  have "unat (off + 1) = unat off + 1"
    using append_nvm_progress(2) [OF step] by (intro trans [OF unat_add64]) simp_all
  with append_nvm_progress [OF step] step(2) show ?case by auto
qed simp

declare append_nvm_loop.simps [simp del]

definition append_nvm_pages :: "libfs \<Rightarrow> i64 \<Rightarrow> i64 \<Rightarrow> int \<Rightarrow> (nat \<Rightarrow> i64) \<Rightarrow> libfs \<times> errno" where
  "append_nvm_pages st root_id inode_id app_blk_num arr =
     (case check_root_id st root_id inode_id of
        (st, Inl err) \<Rightarrow> (st, err)
      | (st, Inr _) \<Rightarrow>
          if app_blk_num \<le> 0 then (st, EINVAL)
          else
            (case (if max_blk_offset (idx_mem st root_id) = - 1 then (st, Inr 0)
                   else let off = max_blk_offset (idx_mem st root_id) in
                        case get_and_add_leafnode_pt st root_id inode_id off of
                          (st, Inl err) \<Rightarrow> (st, Inl err)
                        | (st, Inr leaf) \<Rightarrow>
                            (st, Inr (if son_blk_id (idx_mem st leaf) (leaf_pos off) \<noteq> EMPTY_BLKID \<and>
                                         get_idxson_type (idx_mem st leaf) (leaf_pos off) = SSD_BLOCK
                                      then off + 1 else off))) of
               (st, Inl err) \<Rightarrow> (st, err)
             | (st, Inr off) \<Rightarrow>
                 (case append_nvm_loop st root_id inode_id off arr 0 (nat app_blk_num) of
                    (st, Inl err) \<Rightarrow> (st, err)
                  | (st, Inr off) \<Rightarrow>
                      let st = st\<lparr>idx_mem := set_word (idx_mem st) root_id 3 off\<rparr>;
                          st = write_change_log st root_id IDXND_OP (idx_mem st root_id) 24 8
                      in (st, 0))))"

definition append_single_nvm_page where
  "append_single_nvm_page st root_id inode_id nvm_page_id = append_nvm_pages st root_id inode_id 1 (\<lambda>_. nvm_page_id)"

section \<open>Queries\<close>

record off_info =
  oi_ndtype :: i64
  oi_ssd_dev_addr :: i64
  oi_nvm_page_id :: "nat \<Rightarrow> i64"
  oi_buf_meta_id :: "nat \<Rightarrow> i64"
  oi_offset_ans :: i64

definition empty_off_info :: "i64 \<Rightarrow> off_info" where
  "empty_off_info blk_offset =
     \<lparr>oi_ndtype = EMPTY_BLK_TYPE, oi_ssd_dev_addr = EMPTY_BLKID, oi_nvm_page_id = (\<lambda>_. EMPTY_BLKID),
      oi_buf_meta_id = (\<lambda>_. EMPTY_BLKID), oi_offset_ans = blk_offset\<rparr>"

definition query_offset_info :: "libfs \<Rightarrow> i64 \<Rightarrow> i64 \<Rightarrow> i64 \<Rightarrow> off_info" where
  "query_offset_info st root_id inode_id blk_offset =
     (let ret = empty_off_info blk_offset in
      if \<not> indexid_ok root_id \<or> idx_entry_blkid (idx_mem st root_id) = EMPTY_BLKID then ret
      else case get_leafnode_pt st root_id inode_id blk_offset of
             Inl _ \<Rightarrow> ret
           | Inr None \<Rightarrow> ret
           | Inr (Some leaf) \<Rightarrow>
               let pos = leaf_pos blk_offset;
                   son_type = get_idxson_type (idx_mem st leaf) pos;
                   son = son_blk_id (idx_mem st leaf) pos
               in if son_type = SSD_BLOCK \<and> son \<noteq> EMPTY_BLKID
                  then ret\<lparr>oi_ndtype := SSD_BLOCK,
                           oi_ssd_dev_addr := (if son = EMPTY_BLK_TYPE then - 1 else ssdblk_to_devaddr son)\<rparr>
                  else if son_type = VIR_LEAF_NODE \<and> son \<noteq> EMPTY_BLKID
                  then if \<not> virnodeid_ok son then ret
                       else let v = vir_mem st son;
                                ret = ret\<lparr>oi_nvm_page_id := (\<lambda>i. if vn_nvm_page_id v i = EMPTY_BLK_TYPE then - 1
                                            else nvmpage_to_devaddr (vn_nvm_page_id v i))\<rparr>
                            in if ndtype v = VIR_LEAF_NODE then ret\<lparr>oi_ndtype := VIR_LEAF_NODE\<rparr>
                               else if ndtype v = STRATA_NODE
                               then ret\<lparr>oi_ndtype := STRATA_NODE,
                                        oi_ssd_dev_addr := (if vn_ssd_dev_addr v = EMPTY_BLK_TYPE then - 1
                                          else ssdblk_to_devaddr (vn_ssd_dev_addr v)),
                                        oi_buf_meta_id := (\<lambda>i. if vn_buf_meta_id v i = EMPTY_BLK_TYPE then - 1
                                          else bufmetaid_to_devaddr (vn_buf_meta_id v i))\<rparr>
                               else ret
                  else ret)"

section \<open>Changing entries\<close>

definition bad_offset :: "i64 \<Rightarrow> bool" where
  "bad_offset blk_offset \<longleftrightarrow> neg64 blk_offset \<or> 2 ^ KEY_LEN \<le> sint blk_offset"

definition change_ssd_blk_info :: "libfs \<Rightarrow> i64 \<Rightarrow> i64 \<Rightarrow> i64 \<Rightarrow> i64 \<Rightarrow> libfs \<times> errno" where
  "change_ssd_blk_info st root_id inode_id blk_offset changed_blkid =
     (if bad_offset blk_offset then (st, EINVAL)
      else case check_root_id st root_id inode_id of
             (st, Inl err) \<Rightarrow> (st, err)
           | (st, Inr _) \<Rightarrow>
               (case get_leafnode_id st root_id inode_id blk_offset of
                  Inr (Some leaf) \<Rightarrow>
                    if \<not> indexid_ok leaf then (st, EIO)
                    else let pos = leaf_pos blk_offset;
                             st = st\<lparr>idx_mem := set_word (idx_mem st) leaf (6 + pos) changed_blkid\<rparr>;
                             st = write_change_log st leaf IDXND_OP (idx_mem st leaf) (48 + pos * 8) 8
                         in (st, 0)
                | _ \<Rightarrow> (st, ENOENT)))"

definition change_nvm_page_info :: "libfs \<Rightarrow> i64 \<Rightarrow> i64 \<Rightarrow> i64 \<Rightarrow> int \<Rightarrow> i64 \<Rightarrow> libfs \<times> errno" where
  "change_nvm_page_info st root_id inode_id blk_offset pos changed_pageid =
     (if bad_offset blk_offset then (st, EINVAL)
      else case check_root_id st root_id inode_id of
             (st, Inl err) \<Rightarrow> (st, err)
           | (st, Inr _) \<Rightarrow>
               (case get_leafnode_pt st root_id inode_id blk_offset of
                  Inr (Some leaf) \<Rightarrow>
                    let lpos = leaf_pos blk_offset in
                    if get_idxson_type (idx_mem st leaf) lpos \<noteq> VIR_LEAF_NODE then (st, EINVAL)
                    else let vir_node_id = son_blk_id (idx_mem st leaf) lpos in
                         if \<not> virnodeid_ok vir_node_id then (st, EIO)
                         else if sint (vn_max_pos (vir_mem st vir_node_id)) \<le> pos \<or> pos < 0 then (st, EINVAL)
                         else let st = st\<lparr>vir_mem := set_word (vir_mem st) vir_node_id (3 + nat pos) changed_pageid\<rparr>;
                                  st = write_change_log st vir_node_id VIRND_OP (vir_mem st vir_node_id) (24 + nat pos * 8) 8
                              in (st, 0)
                | _ \<Rightarrow> (st, ENOENT)))"

definition release_pages :: "libfs \<Rightarrow> blk \<Rightarrow> libfs" where
  "release_pages st v =
     fold (\<lambda>j st. if vn_nvm_page_id v j \<noteq> EMPTY_BLKID then release_nvm_page st (vn_nvm_page_id v j) else st)
       [0..<VLN_SLOT_SUM] st"

definition change_virnd_to_ssdblk :: "libfs \<Rightarrow> i64 \<Rightarrow> i64 \<Rightarrow> i64 \<Rightarrow> i64 \<Rightarrow> libfs \<times> errno" where
  "change_virnd_to_ssdblk st root_id inode_id blk_offset changed_blkid =
     (if bad_offset blk_offset then (st, EINVAL)
      else case check_root_id st root_id inode_id of
             (st, Inl err) \<Rightarrow> (st, err)
           | (st, Inr _) \<Rightarrow>
               (case get_leafnode_id st root_id inode_id blk_offset of
                  Inr (Some leaf) \<Rightarrow>
                    if \<not> indexid_ok leaf then (st, EIO)
                    else let pos = leaf_pos blk_offset in
                    if get_idxson_type (idx_mem st leaf) pos \<noteq> VIR_LEAF_NODE then (st, EINVAL)
                    else let vir_node_id = son_blk_id (idx_mem st leaf) pos in
                         if \<not> virnodeid_ok vir_node_id then (st, EIO)
                         else if ndtype (vir_mem st vir_node_id) \<noteq> VIR_LEAF_NODE then (st, EINVAL)
                         else let st = st\<lparr>idx_mem := set_word (idx_mem st) leaf (6 + pos) changed_blkid\<rparr>;
                                  st = st\<lparr>idx_mem := (idx_mem st)(leaf := change_idxson_type (idx_mem st leaf) pos SSD_BLOCK)\<rparr>;
                                  st = write_change_log st leaf IDXND_OP (idx_mem st leaf) 16 16;
                                  st = write_change_log st leaf IDXND_OP (idx_mem st leaf) (48 + pos * 8) 8;
                                  st = release_pages st (vir_mem st vir_node_id);
                                  st = release_virindex_node st vir_node_id
                              in (st, 0)
                | _ \<Rightarrow> (st, ENOENT)))"

section \<open>Cache pages over an SSD block\<close>

definition insert_strata_node :: "libfs \<Rightarrow> i64 \<Rightarrow> nat \<Rightarrow> libfs \<times> errno" where
  "insert_strata_node st leaf pos =
     (if NODE_SON_CAPACITY \<le> pos then (st, EINVAL)
      else if get_idxson_type (idx_mem st leaf) pos \<noteq> SSD_BLOCK then (st, EINVAL)
      else case require_virindex_node_id st of
             (st, Inl err) \<Rightarrow> (st, ENOSPC)
           | (st, Inr virnd_id) \<Rightarrow>
               let st = write_create_log st virnd_id VIRND_OP in
               if \<not> virnodeid_ok virnd_id then (st, EIO)
               else let st = st\<lparr>vir_mem := (vir_mem st)(virnd_id := vir_node_init (vir_mem st virnd_id) STRATA_NODE)\<rparr>;
                        st = st\<lparr>vir_mem := set_word (vir_mem st) virnd_id 1 (son_blk_id (idx_mem st leaf) pos)\<rparr>;
                        st = write_change_log st virnd_id VIRND_OP (vir_mem st virnd_id) 0 (unat ORCH_VIRND_SIZE);
                        st = st\<lparr>idx_mem := set_word (idx_mem st) leaf (6 + pos) virnd_id\<rparr>;
                        st = st\<lparr>idx_mem := (idx_mem st)(leaf := change_idxson_type (idx_mem st leaf) pos VIR_LEAF_NODE)\<rparr>
                    in (st, 0))"

definition insert_strata_slot :: "libfs \<Rightarrow> i64 \<Rightarrow> int \<Rightarrow> i64 \<Rightarrow> i64 \<Rightarrow> libfs \<times> errno" where
  "insert_strata_slot st vir_node_id pos nvm_page_id buf_id =
     (if \<not> virnodeid_ok vir_node_id then (st, EIO)
      else let v = vir_mem st vir_node_id in
           if ndtype v = VIR_LEAF_NODE then (st, ENOENT)
           else if ndtype v = STRATA_NODE
           then if pos < 0 \<or> int VLN_SLOT_SUM \<le> pos then (st, EINVAL)
                else if vn_nvm_page_id v (nat pos) \<noteq> EMPTY_BLKID \<or> vn_buf_meta_id v (nat pos) \<noteq> EMPTY_BLKID
                then (st, EEXIST)
                else let st = st\<lparr>vir_mem := set_word (set_word (vir_mem st) vir_node_id (3 + nat pos) nvm_page_id)
                                  vir_node_id (11 + nat pos) buf_id\<rparr>;
                         st = write_change_log st vir_node_id VIRND_OP (vir_mem st vir_node_id) (24 + nat pos * 8) 8;
                         st = write_change_log st vir_node_id VIRND_OP (vir_mem st vir_node_id) (88 + nat pos * 8) 8
                     in (st, 0)
           else (st, ENOENT))"

definition insert_strata_page_and_metabuf ::
  "libfs \<Rightarrow> i64 \<Rightarrow> i64 \<Rightarrow> i64 \<Rightarrow> int \<Rightarrow> i64 \<Rightarrow> i64 \<Rightarrow> libfs \<times> errno" where
  "insert_strata_page_and_metabuf st root_id inode_id blk_offset pos nvm_page_id buf_id =
     (if bad_offset blk_offset then (st, EINVAL)
      else case check_root_id st root_id inode_id of
             (st, Inl err) \<Rightarrow> (st, err)
           | (st, Inr _) \<Rightarrow>
               (case get_leafnode_id st root_id inode_id blk_offset of
                  Inr (Some leaf) \<Rightarrow>
                    if \<not> indexid_ok leaf then (st, EIO)
                    else let lpos = leaf_pos blk_offset in
                    if son_blk_id (idx_mem st leaf) lpos = EMPTY_BLKID then (st, ENOENT)
                    else if get_idxson_type (idx_mem st leaf) lpos = SSD_BLOCK
                    then (case insert_strata_node st leaf lpos of
                            (st, err) \<Rightarrow>
                              if err \<noteq> 0 then (st, err)
                              else let st = write_change_log st leaf IDXND_OP (idx_mem st leaf) 16 16;
                                       st = write_change_log st leaf IDXND_OP (idx_mem st leaf) (48 + lpos * 8) 8
                                   in insert_strata_slot st (son_blk_id (idx_mem st leaf) lpos) pos nvm_page_id buf_id)
                    else insert_strata_slot st (son_blk_id (idx_mem st leaf) lpos) pos nvm_page_id buf_id
                | _ \<Rightarrow> (st, ENOENT)))"

section \<open>Deleting\<close>

definition release_leaf_son :: "libfs \<Rightarrow> blk \<Rightarrow> nat \<Rightarrow> libfs \<times> errno" where
  "release_leaf_son st nd i =
     (let son = son_blk_id nd i in
      if son = EMPTY_BLKID then (st, 0)
      else if get_idxson_type nd i = SSD_BLOCK then (release_ssd_block st son, 0)
      else if \<not> virnodeid_ok son then (st, EIO)
      else let v = vir_mem st son;
               st = release_pages st v;
               st = (if ndtype v = STRATA_NODE
                     then release_ssd_block
                            (fold (\<lambda>j st. if vn_buf_meta_id v j \<noteq> EMPTY_BLKID
                                     then release_buffer_metadata st (vn_buf_meta_id v j) else st)
                               [0..<VLN_SLOT_SUM] st)
                            (vn_ssd_dev_addr v)
                     else st)
           in (release_virindex_node st son, 0))"

fun each_son :: "(libfs \<Rightarrow> nat \<Rightarrow> (libfs \<times> errno) option) \<Rightarrow> libfs \<Rightarrow> nat list \<Rightarrow> (libfs \<times> errno) option" where
  "each_son f st [] = Some (st, 0)"
| "each_son f st (i # is) =
     (case f st i of
        None \<Rightarrow> None
      | Some (st, err) \<Rightarrow> if err \<noteq> 0 then Some (st, err) else each_son f st is)"

primrec delete_all_index_operation :: "nat \<Rightarrow> libfs \<Rightarrow> i64 \<Rightarrow> (libfs \<times> errno) option" where
  "delete_all_index_operation 0 st now_idx = None"
| "delete_all_index_operation (Suc fuel) st now_idx =
     (if \<not> indexid_ok now_idx then Some (st, EIO)
      else let nd = idx_mem st now_idx in
           if ndtype nd = LEAF_NODE
           then each_son (\<lambda>st i. Some (release_leaf_son st nd i)) st [0..<NODE_SON_CAPACITY]
           else if ndtype nd = NOT_LEAF_NODE
           then each_son (\<lambda>st i.
                    if son_blk_id nd i = EMPTY_BLKID then Some (st, 0)
                    else case delete_all_index_operation fuel st (son_blk_id nd i) of
                           None \<Rightarrow> None
                         | Some (st, err) \<Rightarrow>
                             if err \<noteq> 0 then Some (st, err)
                             else Some (release_index_node st (son_blk_id nd i), 0))
                  st [0..<NODE_SON_CAPACITY]
           else Some (st, EIO))"

definition delete_all_index :: "nat \<Rightarrow> libfs \<Rightarrow> i64 \<Rightarrow> i64 \<Rightarrow> (libfs \<times> errno) option" where
  "delete_all_index fuel st root_id inode_id =
     (if neg64 root_id then Some (st, EINVAL)
      else if \<not> indexid_ok root_id \<or> ndtype (idx_mem st root_id) \<noteq> IDX_ROOT then Some (st, EIO)
      else let entry = idx_entry_blkid (idx_mem st root_id) in
           if \<not> neg64 entry
           then case delete_all_index_operation fuel st entry of
                  None \<Rightarrow> None
                | Some (st, err) \<Rightarrow>
                    if err \<noteq> 0 then Some (st, err)
                    else Some (release_index_node (release_index_node st entry) root_id, 0)
           else Some (release_index_node st root_id, 0))"

end
