(* ===== verification/Index_View.thy ===== *)
theory Index_View
  imports Index_Ops
begin

text \<open>
  What an index represents: a map from block offsets to the entry of the block, a pair of
  the son type (SSD block or virtual node) and the id, where the entry of an unmapped block
  is an SSD block with the empty id.  This theory relates the
  tree to that map: each leaf belongs to one aligned group of 64 offsets, a write to a leaf
  slot changes the map at one offset, and looking up or adding a leaf does not change it.
\<close>

section \<open>Leaves and offsets\<close>

lemma search_inode:
  "\<not> neg64 ino \<Longrightarrow> \<not> neg64 ino' \<Longrightarrow>
    search_leaf_node mem n ino s off = search_leaf_node mem n ino' s off"
proof (induction mem n ino s off rule: search_leaf_node.induct)
  case (1 mem n ino s off)
  show ?case
    using 1 by (subst (1 2) search_leaf_node.simps) (auto simp: Let_def)
qed

text \<open>A leaf is reached only by the offsets of one group.\<close>

lemma search_inj:
  "wft mem s n A \<Longrightarrow> off_ok off \<Longrightarrow> off_ok off' \<Longrightarrow> \<not> neg64 ino \<Longrightarrow>
    search_leaf_node mem n ino s off = Inr (Some l) \<Longrightarrow>
    search_leaf_node mem n ino s off' = Inr (Some l) \<Longrightarrow> same_leaf s off off'"
proof (induction rule: wft.induct)
  case (leaf n s)
  have w: "wft mem s n {n}" using leaf(1-4) by (rule wft.leaf)
  show ?case
    using leaf search_step [OF w leaf(5,7)] search_step [OF w leaf(6,7)]
      same_leaf_split [of s "unat (zipped_layer (mem n)) * 6" off off']
    by (auto split: if_splits)
next
  case (node n s B A)
  have w: "wft mem s n A" using node(1-10) by (rule wft.node)
  let ?zl = "unat (zipped_layer (mem n)) * 6"
  let ?k = "\<lambda>off. unat (next_layer_key s ?zl off)"
  have k: "?k x < 64" for x using node(5) by (intro next_key_less) simp
  have son: "zipped_part s ?zl x = 0 \<and> search_leaf_node mem (son_blk_id (mem n) (?k x)) ino (s + ?zl + 6) x = Inr (Some l)
      \<and> son_blk_id (mem n) (?k x) \<noteq> EMPTY_BLKID"
    if "off_ok x" "search_leaf_node mem n ino s x = Inr (Some l)" for x
    using search_step [OF w that(1) node.prems(3)] that(2) node(2) by (auto split: if_splits)
  note a = son [OF node.prems(1,4)] and b = son [OF node.prems(2,5)]
  have mem: "l \<in> B (?k x)" if "off_ok x" "search_leaf_node mem n ino s x = Inr (Some l)" for x
    using search_wft [OF node(6) [OF k [of x]] that(1) node.prems(3)] son [OF that] by auto
  have "?k off = ?k off'"
    using node(8) [OF k k, of off off'] mem [OF node.prems(1,4)] mem [OF node.prems(2,5)] by auto
  then have "next_layer_key s ?zl off = next_layer_key s ?zl off'" by (simp add: word_unat_eq_iff)
  moreover have "same_leaf (s + ?zl + 6) off off'"
    using node.IH [OF k, of off] a b \<open>?k off = ?k off'\<close> node.prems by metis
  ultimately show ?case
    using a b same_leaf_split [of s ?zl off off'] same_leaf_key [of s ?zl off off'] node(5) by simp
qed

lemma unat_leaf_pos: "leaf_pos off = unat off mod 64"
proof -
  have "push_bit 6 1 - 1 = (mask 6 :: u64)" by (simp add: mask_eq_exp_minus_1)
  then have "leaf_pos off = unat (take_bit 6 off)" by (simp add: leaf_pos_def take_bit_eq_mask)
  then show ?thesis by (simp add: take_bit_eq_mod unat_mod_distrib)
qed

lemma offset_unique:
  assumes "off_ok off" "off_ok off'" "same_leaf 0 off off'" "leaf_pos off = leaf_pos off'"
  shows "off = off'"
proof -
  have small: "unat x div 64 mod 2 ^ 36 = unat x div 64" if "off_ok x" for x
    using that by (simp add: off_ok_def div_less_iff_less_mult)
  have "unat off div 64 = unat off' div 64"
    using assms(3) small [OF assms(1)] small [OF assms(2)] by (simp add: same_leaf_def)
  then have "unat off = unat off'" using assms(4) unfolding unat_leaf_pos by (metis div_mult_mod_eq)
  then show ?thesis by (simp add: word_unat_eq_iff)
qed

section \<open>Writing to leaves\<close>

definition payload_only :: "(i64 \<Rightarrow> blk) \<Rightarrow> (i64 \<Rightarrow> blk) \<Rightarrow> i64 set \<Rightarrow> bool" where
  "payload_only mem mem' A \<longleftrightarrow>
     (\<forall>b \<in> A. ndtype (mem' b) = ndtype (mem b) \<and> zipped_layer (mem' b) = zipped_layer (mem b) \<and>
        (ndtype (mem b) = NOT_LEAF_NODE \<longrightarrow> mem' b = mem b))"

lemma payload_only_subset: "payload_only mem mem' A \<Longrightarrow> B \<subseteq> A \<Longrightarrow> payload_only mem mem' B"
  by (auto simp: payload_only_def)

lemma wft_payload: "wft mem s n A \<Longrightarrow> payload_only mem mem' A \<Longrightarrow> wft mem' s n A"
proof (induction rule: wft.induct)
  case (leaf n s)
  then show ?case by (intro wft.leaf) (auto simp: payload_only_def)
next
  case (node n s B A)
  have n: "mem' n = mem n" using node by (auto simp: payload_only_def)
  show ?case
  proof (rule wft.node [where B = B])
    fix k :: nat assume k: "k < 64" "son_blk_id (mem' n) k \<noteq> EMPTY_BLKID"
    have "B k \<subseteq> A" using k(1) node(10) by auto
    then show "wft mem' (s + unat (zipped_layer (mem' n)) * 6 + 6) (son_blk_id (mem' n) k) (B k)"
      using node.IH [OF k(1)] k(2) payload_only_subset [OF node.prems] n by simp
  qed (use node(1-5,7-10) n in simp_all)
qed

lemma search_payload:
  "wft mem s n A \<Longrightarrow> payload_only mem mem' A \<Longrightarrow> off_ok off \<Longrightarrow> \<not> neg64 ino \<Longrightarrow>
    search_leaf_node mem' n ino s off = search_leaf_node mem n ino s off"
proof (induction rule: wft.induct)
  case (leaf n s)
  have w: "wft mem s n {n}" using leaf(1-4) by (rule wft.leaf)
  have w': "wft mem' s n {n}" using wft_payload [OF w leaf(5)] .
  show ?case
    using search_step [OF w leaf(6,7)] search_step [OF w' leaf(6,7)] leaf(2,5) by (simp add: payload_only_def)
next
  case (node n s B A)
  have w: "wft mem s n A" using node(1-10) by (rule wft.node)
  have w': "wft mem' s n A" using wft_payload [OF w node.prems(1)] .
  have n: "mem' n = mem n" using node by (auto simp: payload_only_def)
  let ?k = "unat (next_layer_key s (unat (zipped_layer (mem n)) * 6) off)"
  have k: "?k < 64" using node(5) by (intro next_key_less) simp
  have "search_leaf_node mem' (son_blk_id (mem n) ?k) ino (s + unat (zipped_layer (mem n)) * 6 + 6) off
      = search_leaf_node mem (son_blk_id (mem n) ?k) ino (s + unat (zipped_layer (mem n)) * 6 + 6) off"
  proof (cases "son_blk_id (mem n) ?k = EMPTY_BLKID")
    case False
    have "B ?k \<subseteq> A" using k node(10) by auto
    from node.IH [OF k False payload_only_subset [OF node.prems(1) this] node.prems(2,3)]
    show ?thesis .
  qed simp
  then show ?case
    using search_step [OF w node.prems(2,3)] search_step [OF w' node.prems(2,3)] n by simp
qed

section \<open>The map of an index\<close>

definition idx_wf :: "libfs \<Rightarrow> i64 \<Rightarrow> i64 \<Rightarrow> i64 set \<Rightarrow> bool" where
  "idx_wf st root ino A \<longleftrightarrow>
     indexid_ok root \<and> \<not> neg64 ino \<and> ndtype (idx_mem st root) = IDX_ROOT \<and> idx_inode_id (idx_mem st root) = ino \<and>
     root \<in> idx_ids st \<and> root \<notin> A \<and> A \<subseteq> idx_ids st \<and> space_wf (bmps st) \<and>
     (if idx_entry_blkid (idx_mem st root) = EMPTY_BLKID then A = {}
      else wft (idx_mem st) 0 (idx_entry_blkid (idx_mem st root)) A)"

definition leaf_of :: "libfs \<Rightarrow> i64 \<Rightarrow> i64 \<Rightarrow> i64 option" where
  "leaf_of st root off =
     (case search_leaf_node (idx_mem st) (idx_entry_blkid (idx_mem st root)) 0 0 off of Inr r \<Rightarrow> r | Inl _ \<Rightarrow> None)"

definition slot_of :: "blk \<Rightarrow> nat \<Rightarrow> i64 \<times> i64" where
  "slot_of b pos = (get_idxson_type b pos, son_blk_id b pos)"

abbreviation no_entry :: "i64 \<times> i64" where
  "no_entry \<equiv> (SSD_BLOCK, EMPTY_BLKID)"

definition idx_map :: "libfs \<Rightarrow> i64 \<Rightarrow> i64 \<Rightarrow> i64 \<times> i64" where
  "idx_map st root off =
     (case leaf_of st root off of None \<Rightarrow> no_entry | Some l \<Rightarrow> slot_of (idx_mem st l) (leaf_pos off))"

lemma slot_of_empty: "virnd_flag b 0 = 0 \<Longrightarrow> son_blk_id b pos = EMPTY_BLKID \<Longrightarrow> pos < 64 \<Longrightarrow> slot_of b pos = no_entry"
  by (simp add: slot_of_def get_idxson_type_def)

lemma idx_wf_search:
  assumes "idx_wf st root ino A" "off_ok off"
  shows "search_leaf_node (idx_mem st) (idx_entry_blkid (idx_mem st root)) ino 0 off = Inr (leaf_of st root off)"
    and "leaf_of st root off = Some l \<Longrightarrow> l \<in> A \<and> ndtype (idx_mem st l) = LEAF_NODE \<and> indexid_ok l"
proof -
  let ?e = "idx_entry_blkid (idx_mem st root)"
  have ino: "search_leaf_node (idx_mem st) ?e ino 0 off = search_leaf_node (idx_mem st) ?e 0 0 off"
    using assms(1) by (intro search_inode) (auto simp: idx_wf_def)
  have r: "search_leaf_node (idx_mem st) ?e 0 0 off = Inr None \<or>
      (\<exists>l \<in> A. search_leaf_node (idx_mem st) ?e 0 0 off = Inr (Some l) \<and> ndtype (idx_mem st l) = LEAF_NODE \<and> indexid_ok l)"
  proof (cases "?e = EMPTY_BLKID")
    case False
    then have w: "wft (idx_mem st) 0 ?e A" using assms(1) by (simp add: idx_wf_def)
    from search_wft [OF w assms(2), of 0] wft_members [OF w] show ?thesis by auto
  qed simp
  then show "search_leaf_node (idx_mem st) ?e ino 0 off = Inr (leaf_of st root off)"
    using ino by (auto simp: leaf_of_def)
  show "l \<in> A \<and> ndtype (idx_mem st l) = LEAF_NODE \<and> indexid_ok l" if "leaf_of st root off = Some l"
    using that r by (auto simp: leaf_of_def)
qed

lemma leaf_of_inj:
  assumes "idx_wf st root ino A" "off_ok off" "off_ok off'" "leaf_of st root off = Some l" "leaf_of st root off' = Some l"
  shows "same_leaf 0 off off'"
proof -
  let ?e = "idx_entry_blkid (idx_mem st root)"
  have ne: "?e \<noteq> EMPTY_BLKID" using assms(4) by (auto simp: leaf_of_def)
  then have w: "wft (idx_mem st) 0 ?e A" using assms(1) by (simp add: idx_wf_def)
  have "\<not> neg64 ino" using assms(1) by (simp add: idx_wf_def)
  then show ?thesis
    using search_inj [OF w assms(2,3), of ino l] idx_wf_search(1) [OF assms(1)] assms by simp
qed

lemma idx_view_cong:
  assumes "idx_mem st' = idx_mem st"
  shows "leaf_of st' root off = leaf_of st root off" "idx_map st' root off = idx_map st root off"
  unfolding leaf_of_def idx_map_def assms by (rule refl)+

lemma idx_wf_cong:
  assumes "idx_mem st' = idx_mem st" "bmps st' = bmps st"
  shows "idx_wf st' root ino A = idx_wf st root ino A"
  using assms by (simp add: idx_wf_def idx_ids_def)

lemma search_same_leaf:
  "wft mem s n A \<Longrightarrow> off_ok off \<Longrightarrow> off_ok off' \<Longrightarrow> \<not> neg64 ino \<Longrightarrow> same_leaf s off off' \<Longrightarrow>
    search_leaf_node mem n ino s off = search_leaf_node mem n ino s off'"
proof (induction rule: wft.induct)
  case (leaf n s)
  have w: "wft mem s n {n}" using leaf(1-4) by (rule wft.leaf)
  show ?case
    using leaf search_step [OF w leaf(5,7)] search_step [OF w leaf(6,7)]
      same_leaf_split [of s "unat (zipped_layer (mem n)) * 6" off off'] by simp
next
  case (node n s B A)
  have w: "wft mem s n A" using node(1-10) by (rule wft.node)
  let ?zl = "unat (zipped_layer (mem n)) * 6"
  let ?k = "\<lambda>off. unat (next_layer_key s ?zl off)"
  have k: "?k x < 64" for x using node(5) by (intro next_key_less) simp
  have eq: "zipped_part s ?zl off = zipped_part s ?zl off'" "?k off = ?k off'" "same_leaf (s + ?zl + 6) off off'"
    using node.prems(4) same_leaf_split [of s ?zl off off'] same_leaf_key [of s ?zl off off'] node(5) by auto
  have "search_leaf_node mem (son_blk_id (mem n) (?k off)) ino (s + ?zl + 6) off =
      search_leaf_node mem (son_blk_id (mem n) (?k off)) ino (s + ?zl + 6) off'"
    using node.IH [OF k, of off] node.prems(1-3) eq(3) by (cases "son_blk_id (mem n) (?k off) = EMPTY_BLKID") auto
  then show ?case
    using search_step [OF w node.prems(1,3)] search_step [OF w node.prems(2,3)] eq(1,2) by simp
qed

lemma leaf_of_same_leaf:
  assumes "idx_wf st root ino A" "off_ok off" "off_ok off'" "same_leaf 0 off off'"
  shows "leaf_of st root off = leaf_of st root off'"
proof (cases "idx_entry_blkid (idx_mem st root) = EMPTY_BLKID")
  case True
  then show ?thesis by (simp add: leaf_of_def)
next
  case False
  then have "wft (idx_mem st) 0 (idx_entry_blkid (idx_mem st root)) A" using assms(1) by (simp add: idx_wf_def)
  from search_same_leaf [OF this assms(2,3) _ assms(4), of 0] show ?thesis by (simp add: leaf_of_def)
qed

text \<open>Replacing the content of one leaf, its type and compression fields kept.\<close>

lemma leaf_update:
  fixes st st' :: libfs
  assumes wf: "idx_wf st root ino A" and l: "leaf_of st root off = Some l" and o: "off_ok off"
    and mem: "idx_mem st' = (idx_mem st)(l := b)" and bm: "bmps st' = bmps st"
    and b: "ndtype b = ndtype (idx_mem st l)" "zipped_layer b = zipped_layer (idx_mem st l)"
  shows "idx_wf st' root ino A" and "idx_mem st' root = idx_mem st root"
    and "off_ok off' \<Longrightarrow> leaf_of st' root off' = leaf_of st root off'"
    and "off_ok off' \<Longrightarrow> idx_map st' root off' =
      (if leaf_of st root off' = Some l then slot_of b (leaf_pos off') else idx_map st root off')"
proof -
  have lA: "l \<in> A" "ndtype (idx_mem st l) = LEAF_NODE" using idx_wf_search(2) [OF wf o l] by auto
  have rl: "l \<noteq> root" using wf lA by (auto simp: idx_wf_def)
  show root: "idx_mem st' root = idx_mem st root" using rl by (simp add: mem)
  have p: "payload_only (idx_mem st) (idx_mem st') A" using lA b by (simp add: payload_only_def mem)
  have "idx_entry_blkid (idx_mem st root) \<noteq> EMPTY_BLKID" using l by (auto simp: leaf_of_def)
  then have w: "wft (idx_mem st) 0 (idx_entry_blkid (idx_mem st root)) A" using wf by (simp add: idx_wf_def)
  have "idx_ids st' = idx_ids st" by (simp add: idx_ids_def bm)
  then show "idx_wf st' root ino A"
    using wf wft_payload [OF w p] root bm by (auto simp: idx_wf_def)
  show lf: "leaf_of st' root off' = leaf_of st root off'" if "off_ok off'" for off'
    using search_payload [OF w p that, of 0] by (simp add: leaf_of_def root)
  show "idx_map st' root off' =
      (if leaf_of st root off' = Some l then slot_of b (leaf_pos off') else idx_map st root off')"
    if "off_ok off'" for off'
    using lf [OF that] by (auto simp: idx_map_def mem split: option.splits)
qed

lemma leaf_update_slot:
  fixes st st' :: libfs
  assumes wf: "idx_wf st root ino A" and l: "leaf_of st root off = Some l" and o: "off_ok off"
    and mem: "idx_mem st' = (idx_mem st)(l := b)" and bm: "bmps st' = bmps st"
    and b: "ndtype b = ndtype (idx_mem st l)" "zipped_layer b = zipped_layer (idx_mem st l)"
    and other: "\<And>pos. pos < 64 \<Longrightarrow> pos \<noteq> leaf_pos off \<Longrightarrow> slot_of b pos = slot_of (idx_mem st l) pos"
    and o': "off_ok off'"
  shows "idx_map st' root off' = (if off' = off then slot_of b (leaf_pos off) else idx_map st root off')"
proof (cases "leaf_of st root off' = Some l \<and> leaf_pos off' = leaf_pos off")
  case True
  then have "off' = off"
    using leaf_of_inj [OF wf o' o _ l] offset_unique [OF o' o] by simp
  with leaf_update(4) [OF wf l o mem bm b o'] l show ?thesis by simp
next
  case False
  then have ne: "off' \<noteq> off" using l by auto
  from leaf_update(4) [OF wf l o mem bm b o'] other [OF leaf_pos_less, of off'] False ne
  show ?thesis by (auto simp: idx_map_def)
qed

section \<open>The root\<close>

text \<open>What the index code does not touch outside its own blocks.\<close>

definition same_others :: "libfs \<Rightarrow> libfs \<Rightarrow> bool" where
  "same_others st st' \<longleftrightarrow> vir_mem st' = vir_mem st \<and> inode_mem st' = inode_mem st \<and> nvm st' = nvm st \<and>
     worker st' = worker st"

lemma same_others_refl [simp]: "same_others st st"
  by (simp add: same_others_def)

lemma same_others_trans: "same_others st st1 \<Longrightarrow> same_others st1 st2 \<Longrightarrow> same_others st st2"
  by (simp add: same_others_def)

lemma same_others_log [simp]:
  "same_others st (write_change_log st' b t d p n) = same_others st st'"
  "same_others st (write_create_log st' b t) = same_others st st'"
  "same_others st (st'\<lparr>idx_mem := m\<rparr>) = same_others st st'"
  by (simp_all add: same_others_def frame_simps)

lemma require_index_others: "require_index_node_id st = (st', r) \<Longrightarrow> same_others st st'"
  by (auto simp: require_index_node_id_def same_others_def dest: reserve_frame)

definition same_rest :: "libfs \<Rightarrow> libfs \<Rightarrow> i64 \<Rightarrow> bool" where
  "same_rest st st' root \<longleftrightarrow> same_others st st' \<and>
     max_blk_offset (idx_mem st' root) = max_blk_offset (idx_mem st root)"

lemma same_rest_trans: "same_rest st st1 root \<Longrightarrow> same_rest st1 st2 root \<Longrightarrow> same_rest st st2 root"
  by (auto simp: same_rest_def intro: same_others_trans)

lemma check_root_ok:
  assumes wf: "idx_wf st root ino A" and c: "check_root_id st root ino = (st', Inr u)"
  obtains A' where "idx_wf st' root ino A'" "idx_entry_blkid (idx_mem st' root) \<noteq> EMPTY_BLKID"
    "\<And>off. off_ok off \<Longrightarrow> idx_map st' root off = idx_map st root off" "same_rest st st' root"
proof (cases "idx_entry_blkid (idx_mem st root) = EMPTY_BLKID")
  case False
  then have "st' = st" using c by (auto simp: check_root_id_def split: if_splits)
  with False wf show ?thesis by (intro that [of A]) (auto simp: same_rest_def)
next
  case True
  then have A: "A = {}" and sp: "space_wf (bmps st)" using wf by (simp_all add: idx_wf_def)
  from c True obtain s0 e where e: "require_index_node_id st = (s0, Inr e)" "indexid_ok e"
    by (auto simp: check_root_id_def Let_def split: if_splits prod.splits sum.splits)
  note r = require_index_ok [OF sp e(1)]
  note fr = require_index_others [OF e(1)]
  have er: "e \<noteq> root" using r(2) wf by (auto simp: idx_wf_def)
  have b: "bmps st' = bmps s0" and mem: "idx_mem st' = (set_word (idx_mem st) root 2 e)(e := node_init (idx_mem st e) 6 LEAF_NODE)"
    and rest: "same_others s0 st'"
    using c True e er r(4) by (auto simp: check_root_id_def Let_def frame_simps set_word_def split: if_splits)
  have root: "idx_mem st' root = (idx_mem st root)(2 := e)" using er by (simp add: mem set_word_def)
  have "unat (6 :: i64) = 6" by simp
  then have w: "wft (idx_mem st') 0 e {e}" using e(2) by (intro wft.leaf) (simp_all add: mem)
  have "idx_ids st' = insert e (idx_ids st)" using r(3) b by (simp add: idx_ids_def)
  then have wf': "idx_wf st' root ino {e}"
    using wf w r(1) b root er e(2) wft_not_bad [OF w] unfolding idx_wf_def by auto
  have "idx_map st' root off = idx_map st root off" if o: "off_ok off" for off
  proof -
    have "idx_map st root off = no_entry" using True by (simp add: idx_map_def leaf_of_def)
    moreover have "slot_of (idx_mem st' e) (leaf_pos off) = no_entry"
      using leaf_pos_less by (intro slot_of_empty) (simp_all add: mem)
    moreover have "leaf_of st' root off = None \<or> leaf_of st' root off = Some e"
      using idx_wf_search(2) [OF wf' o] by (cases "leaf_of st' root off") auto
    ultimately show ?thesis by (auto simp: idx_map_def)
  qed
  with wf' root e(2) wft_not_bad [OF w] same_others_trans [OF fr rest] show ?thesis
    by (intro that [of "{e}"]) (auto simp: same_rest_def)
qed

lemma check_root_err: "check_root_id st root ino = (st', Inl err) \<Longrightarrow> err \<noteq> 0"
  by (auto simp: check_root_id_def Let_def split: if_splits prod.splits sum.splits)

lemma root_update:
  fixes st st' :: libfs
  assumes wf: "idx_wf st root ino A" and mem: "idx_mem st' = set_word (idx_mem st) root 3 v" and bm: "bmps st' = bmps st"
  shows "idx_wf st' root ino A" "off_ok off \<Longrightarrow> idx_map st' root off = idx_map st root off"
    "max_blk_offset (idx_mem st' root) = v"
proof -
  let ?e = "idx_entry_blkid (idx_mem st root)"
  have r: "root \<notin> A" using wf by (simp add: idx_wf_def)
  have root: "idx_mem st' root = (idx_mem st root)(3 := v)" by (simp add: mem set_word_def)
  have fr: "idx_mem st' b = idx_mem st b" if "b \<in> A" for b using that r by (auto simp: mem set_word_def)
  have "wft (idx_mem st') 0 ?e A" if "?e \<noteq> EMPTY_BLKID"
    by (rule wft_frame [of "idx_mem st"]) (use that wf fr in \<open>simp_all add: idx_wf_def\<close>)
  moreover have "idx_ids st' = idx_ids st" by (simp add: idx_ids_def bm)
  ultimately show "idx_wf st' root ino A" using wf root bm by (auto simp: idx_wf_def)
  show "max_blk_offset (idx_mem st' root) = v" by (simp add: root)
  assume o: "off_ok off"
  have "search_leaf_node (idx_mem st') ?e 0 0 off = search_leaf_node (idx_mem st) ?e 0 0 off"
  proof (cases "?e = EMPTY_BLKID")
    case False
    then have w: "wft (idx_mem st) 0 ?e A" using wf by (simp add: idx_wf_def)
    show ?thesis using search_frame [where mem' = "idx_mem st'", OF w o _ fr] by simp
  qed simp
  then have lf: "leaf_of st' root off = leaf_of st root off" by (simp add: leaf_of_def root)
  show "idx_map st' root off = idx_map st root off"
    using lf fr idx_wf_search(2) [OF wf o] by (auto simp: idx_map_def split: option.splits)
qed

section \<open>Finding or adding a leaf\<close>

lemma insert_add_son_others: "insert_add_son st n s zl k = (st', r) \<Longrightarrow> same_others st st'"
  by (auto simp: insert_add_son_def Let_def dest!: require_index_others split: prod.splits sum.splits if_splits)

lemma insert_split_others: "insert_split st n f zp = (st', r) \<Longrightarrow> same_others st st'"
  by (auto simp: insert_split_def Let_def dest!: require_index_others split: prod.splits sum.splits if_splits)

lemma insert_others: "insert_node_into_index st n ino f s off = (st', r) \<Longrightarrow> same_others st st'"
proof (induction st n ino f s off arbitrary: st' r rule: insert_node_into_index.induct)
  case (1 st n ino f s off)
  show ?case
    using 1(3) 1(1,2) [OF _ _ _ refl refl refl]
    by (subst (asm) insert_node_into_index.simps)
      (auto simp: Let_def split: if_splits prod.splits sum.splits;
        blast intro: same_others_trans dest: insert_add_son_others insert_split_others)
qed

lemma get_and_add_leaf_ok:
  assumes wf: "idx_wf st root ino A" and e: "idx_entry_blkid (idx_mem st root) \<noteq> EMPTY_BLKID" and o: "off_ok off"
    and g: "get_and_add_leafnode_id st root ino off = (st', Inr l)"
  obtains A' where "idx_wf st' root ino A'" "idx_entry_blkid (idx_mem st' root) \<noteq> EMPTY_BLKID"
    "leaf_of st' root off = Some l" "\<And>off'. off_ok off' \<Longrightarrow> idx_map st' root off' = idx_map st root off'"
    "same_rest st st' root"
proof (cases "leaf_of st root off")
  case (Some l')
  then have "st' = st" "l' = l" using g idx_wf_search(1) [OF wf o] by (simp_all add: get_and_add_leafnode_id_def)
  with Some wf e show ?thesis by (intro that [of A]) (auto simp: same_rest_def)
next
  case None
  let ?e = "idx_entry_blkid (idx_mem st root)"
  have w: "wft (idx_mem st) 0 ?e A" and ino: "\<not> neg64 ino" and ids: "A \<subseteq> idx_ids st" "root \<in> idx_ids st" "root \<notin> A"
    and sp: "space_wf (bmps st)" using wf e by (simp_all add: idx_wf_def)
  from None g idx_wf_search(1) [OF wf o] obtain st1 flag where
    ins: "insert_node_into_index st ?e ino (Root_entry root) 0 off = (st1, Inr flag)"
    and st': "idx_mem st' = idx_mem st1" "bmps st' = bmps st1" "same_others st1 st'"
    and l: "search_leaf_node (idx_mem st1) (idx_entry_blkid (idx_mem st1 root)) ino 0 off = Inr (Some l)"
    by (auto simp: get_and_add_leafnode_id_def Let_def frame_simps same_others_def split: prod.splits sum.splits option.splits if_splits)
  obtain n' A' l' where p: "insert_post st 0 ?e A (Root_entry root) off st1 flag n' A' l'"
    using insert_correct [OF ins w _ ids(1)] ids(2,3) o sp by auto
  note D = insert_postD [OF p]
  have rA': "root \<notin> A'" using D(5) ids(2,3) by blast
  have rw: "idx_mem st1 root k = idx_mem st root k" if "k \<noteq> 2" for k using D(7) [OF rA'] that by auto
  have ent: "idx_entry_blkid (idx_mem st1 root) = n'" using D(1) D(7) [OF rA', of 2] by auto
  have w1: "wft (idx_mem st1) 0 n' A'" using D(2) .
  have l': "l = l'" using l D(12) [OF ino o] unfolding ent by simp
  have wf1: "idx_wf st1 root ino A'"
    using wf D(2,4,6) rA' rw ent wft_not_bad [OF w1] by (auto simp: idx_wf_def)
  have lf: "leaf_of st1 root off' = (if same_leaf 0 off off' then Some l' else leaf_of st root off')"
    if "off_ok off'" for off'
    using D(12) [OF ino that] idx_wf_search(1) [OF wf that] idx_wf_search(1) [OF wf1 that] unfolding ent by (auto split: if_splits)
  have lA: "l' \<notin> A" using D(13) [OF ino] idx_wf_search(1) [OF wf o] None by (auto split: if_splits)
  have map: "idx_map st1 root off' = idx_map st root off'" if o': "off_ok off'" for off'
  proof (cases "same_leaf 0 off off'")
    case True
    then have "leaf_of st root off' = None" using leaf_of_same_leaf [OF wf o o' True] None by simp
    then show ?thesis
      using lf [OF o'] True D(11) lA leaf_pos_less [of off'] by (simp add: idx_map_def slot_of_empty empty_leaf_def)
  next
    case False
    show ?thesis
    proof (cases "leaf_of st root off'")
      case (Some k)
      then have k: "k \<in> A" "ndtype (idx_mem st k) = LEAF_NODE" using idx_wf_search(2) [OF wf o'] by auto
      have "slot_of (idx_mem st1 k) (leaf_pos off') = slot_of (idx_mem st k) (leaf_pos off')"
        using D(8) [OF k] by (simp add: slot_of_def get_idxson_type_def)
      then show ?thesis using lf [OF o'] False Some by (simp add: idx_map_def)
    qed (use lf [OF o'] False in \<open>simp add: idx_map_def\<close>)
  qed
  have "same_rest st st' root"
    using same_others_trans [OF insert_others [OF ins] st'(3)] rw [of 3] st'(1) by (simp add: same_rest_def)
  moreover have "idx_wf st' root ino A'" using wf1 idx_wf_cong [OF st'(1,2)] by simp
  moreover have "leaf_of st' root off = Some l" using lf [OF o] l' idx_view_cong(1) [OF st'(1)] by simp
  moreover have "idx_map st' root off' = idx_map st root off'" if "off_ok off'" for off'
    using map [OF that] idx_view_cong(2) [OF st'(1)] by simp
  moreover have "idx_entry_blkid (idx_mem st' root) \<noteq> EMPTY_BLKID" using ent st'(1) wft_not_bad [OF w1] by simp
  ultimately show ?thesis by (intro that [of A'])
qed

section \<open>A small concrete state\<close>

text \<open>Index block 0 is the root of inode 7, whose entry is the empty leaf 1.\<close>

definition demo_fs :: libfs where
  "demo_fs = \<lparr>bmps = (\<lambda>_. demo_bmp), worker = 0, nvm = (\<lambda>_. 0), inode_mem = (\<lambda>_ _. 0),
     idx_mem = (\<lambda>b. if b = 0 then (\<lambda>w. if w = 1 then 7 else if w = 2 then 1 else if w = 3 then - 1 else 0)
        else node_init (\<lambda>_. 0) 6 LEAF_NODE), vir_mem = (\<lambda>_ _. 0),
     cur_tx = Some empty_txn, next_txid = 1, checkpoint_generation = 1, initialized = True, aborted = False\<rparr>"

lemma demo_idx_wf: "idx_wf demo_fs 0 7 {1}"
proof -
  have m: "(0 :: i64) < MAX_INDEX_NUM" "(1 :: i64) < MAX_INDEX_NUM" by (simp_all add: layout_values)
  have ok: "indexid_ok 0" "indexid_ok 1" using m by (simp_all add: indexid_ok_def neg64_def)
  have u: "unat (6 :: i64) = 6" "unat (1 :: i64) = 1" by simp_all
  have w: "wft (idx_mem demo_fs) 0 1 {1}" by (rule wft.leaf) (use ok u in \<open>simp_all add: demo_fs_def\<close>)
  have "bit (192 :: u8) 7" "bit (192 :: u8) 6" by (simp_all add: bit_numeral_rec One_nat_def)
  then have "{0, 1} \<subseteq> idx_ids demo_fs"
    by (simp add: idx_ids_def demo_fs_def demo_bmp_def used_ids_def bmp_bits_def bmp_bit_def u)
  moreover have "space_wf (bmps demo_fs)" by (simp add: space_wf_def demo_fs_def demo_bmp_def bmp_wf_def)
  ultimately show ?thesis using w ok unfolding idx_wf_def by (simp add: demo_fs_def neg64_def)
qed

end
