(* ===== verification/Index_Append.thy ===== *)
theory Index_Append
  imports Index_View
begin

text \<open>
  Appending SSD blocks (\<open>append_ssd_blocks\<close> of \<open>LibFS/index.c\<close>): the new blocks get the
  offsets that follow the last one, in order, and no other entry changes.
\<close>

section \<open>One leaf\<close>

lemma append_leaf_spec:
  "append_leaf mem leaf i arr cur need = (mem', Inr n) \<Longrightarrow> 0 < need \<Longrightarrow> i \<le> 64 \<Longrightarrow>
    n = min need (64 - i) \<and>
    mem' = mem(leaf := (\<lambda>w. if 6 + i \<le> w \<and> w < 6 + i + n then arr (cur + (w - (6 + i))) else mem leaf w))"
proof (induction mem leaf i arr cur need arbitrary: mem' n rule: append_leaf.induct)
  case (1 mem leaf i arr cur need)
  show ?case
  proof (cases "64 \<le> i")
    case True
    then show ?thesis using 1(2) by (auto simp: append_leaf.simps [of mem] fun_eq_iff)
  next
    case False
    then have e: "son_blk_id (mem leaf) i = EMPTY_BLKID"
      using 1(2) by (auto simp: append_leaf.simps [of mem] split: if_splits)
    let ?m = "set_word mem leaf (6 + i) (arr cur)"
    show ?thesis
    proof (cases "need - 1 = 0")
      case True
      then have "mem' = ?m" "n = 1" using 1(2) False e by (simp_all add: append_leaf.simps [of mem])
      moreover have "need = 1" using True 1(3) by simp
      ultimately show ?thesis using False by (auto simp: set_word_def fun_eq_iff)
    next
      case more: False
      obtain mem1 r where r: "append_leaf ?m leaf (i + 1) arr (cur + 1) (need - 1) = (mem1, r)" by fastforce
      then obtain k where k: "r = Inr k" "mem' = mem1" "n = Suc k"
        using 1(2) False e more by (auto simp: append_leaf.simps [of mem] split: sum.splits)
      have "k = min (need - 1) (64 - (i + 1)) \<and>
          mem1 = ?m(leaf := (\<lambda>w. if 6 + (i + 1) \<le> w \<and> w < 6 + (i + 1) + k then arr (cur + 1 + (w - (6 + (i + 1)))) else ?m leaf w))"
        by (rule 1(1)) (use False e more r k 1(3) in auto)
      then show ?thesis
        using k False more by (auto simp: set_word_def fun_eq_iff Suc_diff_le less_Suc_eq_le dest: le_antisym)
    qed
  qed
qed

section \<open>Errors are not zero\<close>

lemma search_err: "search_leaf_node mem n ino s off = Inl err \<Longrightarrow> err \<noteq> 0"
proof (induction mem n ino s off rule: search_leaf_node.induct)
  case (1 mem n ino s off)
  then show ?case by (subst (asm) (2) search_leaf_node.simps) (auto simp: Let_def split: if_splits)
qed

lemma insert_add_son_err: "insert_add_son st n s zl k = (st', Inl err) \<Longrightarrow> err \<noteq> 0"
  by (auto simp: insert_add_son_def Let_def split: prod.splits sum.splits if_splits)

lemma insert_split_err: "insert_split st n f zp = (st', Inl err) \<Longrightarrow> err \<noteq> 0"
  by (auto simp: insert_split_def Let_def split: prod.splits sum.splits if_splits)

lemma insert_err: "insert_node_into_index st n ino f s off = (st', Inl err) \<Longrightarrow> err \<noteq> 0"
proof (induction st n ino f s off arbitrary: st' rule: insert_node_into_index.induct)
  case (1 st n ino f s off)
  show ?case
    using 1(3) 1(1,2) [OF _ _ _ refl refl refl]
    by (subst (asm) insert_node_into_index.simps)
      (auto simp: Let_def split: if_splits prod.splits sum.splits dest: insert_add_son_err insert_split_err)
qed

lemma get_and_add_err: "get_and_add_leafnode_id st root ino off = (st', Inl err) \<Longrightarrow> err \<noteq> 0"
  by (auto simp: get_and_add_leafnode_id_def Let_def split: prod.splits sum.splits option.splits
      dest: search_err insert_err)

lemma append_leaf_err: "append_leaf mem leaf i arr cur need = (mem', Inl err) \<Longrightarrow> err = EIO"
proof (induction mem leaf i arr cur need arbitrary: mem' rule: append_leaf.induct)
  case (1 mem leaf i arr cur need)
  show ?case
    using 1(2) 1(1) [OF _ _ refl]
    by (subst (asm) append_leaf.simps) (auto simp: Let_def split: if_splits prod.splits sum.splits)
qed

section \<open>The loop\<close>

lemma same_group:
  assumes "off_ok off" "off_ok off'"
  shows "same_leaf 0 off off' \<longleftrightarrow> unat off div 64 = unat off' div 64"
proof -
  have "unat x div 64 mod 2 ^ 36 = unat x div 64" if "off_ok x" for x
    using that by (simp add: off_ok_def div_less_iff_less_mult)
  then show ?thesis using assms by (simp add: same_leaf_def)
qed

lemma group_range:
  fixes x y n :: nat
  assumes "x mod 64 + n \<le> 64"
  shows "x \<le> y \<and> y < x + n \<longleftrightarrow> y div 64 = x div 64 \<and> x mod 64 \<le> y mod 64 \<and> y mod 64 < x mod 64 + n"
proof
  assume *: "x \<le> y \<and> y < x + n"
  then have "x div 64 \<le> y div 64" by (simp add: div_le_mono)
  moreover have "y < x div 64 * 64 + 64" using * assms div_mult_mod_eq [of x 64] by linarith
  then have "y div 64 < x div 64 + 1" by (simp add: div_less_iff_less_mult)
  ultimately have "y div 64 = x div 64" by simp
  with * show "y div 64 = x div 64 \<and> x mod 64 \<le> y mod 64 \<and> y mod 64 < x mod 64 + n"
    using div_mult_mod_eq [of x 64] div_mult_mod_eq [of y 64] by linarith
next
  assume "y div 64 = x div 64 \<and> x mod 64 \<le> y mod 64 \<and> y mod 64 < x mod 64 + n"
  then show "x \<le> y \<and> y < x + n"
    using div_mult_mod_eq [of x 64] div_mult_mod_eq [of y 64] by linarith
qed

lemma append_leaf_map:
  fixes st st' :: libfs and n :: nat
  assumes wf: "idx_wf st root ino A" and l: "leaf_of st root off = Some l" and o: "off_ok off"
    and n: "leaf_pos off + n \<le> 64"
    and mem: "idx_mem st' = (idx_mem st)(l := (\<lambda>w. if 6 + leaf_pos off \<le> w \<and> w < 6 + leaf_pos off + n
        then arr (cur + (w - (6 + leaf_pos off))) else idx_mem st l w))" and bm: "bmps st' = bmps st"
    and ssd: "\<And>k. k < n \<Longrightarrow> fst (idx_map st root (off + of_nat k)) = SSD_BLOCK"
    and o': "off_ok off'"
  shows "idx_map st' root off' = (if unat off \<le> unat off' \<and> unat off' < unat off + n
      then (SSD_BLOCK, arr (cur + (unat off' - unat off))) else idx_map st root off')"
proof -
  let ?b = "\<lambda>w. if 6 + leaf_pos off \<le> w \<and> w < 6 + leaf_pos off + n
        then arr (cur + (w - (6 + leaf_pos off))) else idx_mem st l w"
  have up: "idx_map st' root off' = (if leaf_of st root off' = Some l then slot_of ?b (leaf_pos off') else idx_map st root off')"
    by (rule leaf_update(4) [OF wf l o mem bm _ _ o']) simp_all
  note rng = group_range [OF n [unfolded unat_leaf_pos], of "unat off'", folded unat_leaf_pos]
  have grp: "leaf_of st root off' = Some l" if "unat off' div 64 = unat off div 64"
    using leaf_of_same_leaf [OF wf o' o] same_group [OF o' o] that l by simp
  have grp': "unat off' div 64 = unat off div 64" if "leaf_of st root off' = Some l"
    using leaf_of_inj [OF wf o' o that l] same_group [OF o' o] by simp
  have ty: "get_idxson_type ?b (leaf_pos off') = get_idxson_type (idx_mem st l) (leaf_pos off')"
    using leaf_pos_less [of off'] by (simp add: get_idxson_type_def)
  show ?thesis
  proof (cases "unat off \<le> unat off' \<and> unat off' < unat off + n")
    case True
    then have g: "unat off' div 64 = unat off div 64" and p: "leaf_pos off \<le> leaf_pos off'" "leaf_pos off' < leaf_pos off + n"
      using rng by auto
    have "off' = off + of_nat (unat off' - unat off)" using True by simp
    then have "fst (idx_map st root off') = SSD_BLOCK" using ssd [of "unat off' - unat off"] True by auto
    then have "get_idxson_type ?b (leaf_pos off') = SSD_BLOCK"
      using grp [OF g] ty by (simp add: idx_map_def slot_of_def)
    moreover have "unat off' - unat off = leaf_pos off' - leaf_pos off"
      using g div_mult_mod_eq [of "unat off'" 64] div_mult_mod_eq [of "unat off" 64] unfolding unat_leaf_pos by linarith
    ultimately show ?thesis using up grp [OF g] p True by (simp add: slot_of_def)
  next
    case False
    show ?thesis
    proof (cases "leaf_of st root off' = Some l")
      case True
      then have "\<not> (leaf_pos off \<le> leaf_pos off' \<and> leaf_pos off' < leaf_pos off + n)"
        using False rng grp' by blast
      then show ?thesis using up True False ty by (auto simp: slot_of_def idx_map_def)
    qed (use up False in auto)
  qed
qed

lemma off_add:
  fixes off :: i64
  assumes "unat off + n \<le> 2 ^ 42"
  shows "unat (off + of_nat n) = unat off + n"
  using assms by (subst unat_add64) (simp_all add: unat_of_nat64)

lemma append_ssd_loop_ok:
  "append_ssd_loop st root ino off arr cur need = (st', 0) \<Longrightarrow> idx_wf st root ino A \<Longrightarrow>
   idx_entry_blkid (idx_mem st root) \<noteq> EMPTY_BLKID \<Longrightarrow> unat off + need \<le> 2 ^ 42 \<Longrightarrow>
   (\<forall>k < need. fst (idx_map st root (off + of_nat k)) = SSD_BLOCK) \<Longrightarrow>
   \<exists>A'. idx_wf st' root ino A' \<and> same_rest st st' root \<and>
     (\<forall>off'. off_ok off' \<longrightarrow> idx_map st' root off' =
        (if unat off \<le> unat off' \<and> unat off' < unat off + need
         then (SSD_BLOCK, arr (cur + (unat off' - unat off))) else idx_map st root off'))"
proof (induction st root ino off arr cur need arbitrary: A rule: append_ssd_loop.induct)
  case (1 st root ino off arr cur need)
  show ?case
  proof (cases "need = 0")
    case True
    then have "st' = st" using 1(2) by (simp add: append_ssd_loop.simps)
    then show ?thesis using 1(3) True by (auto simp: same_rest_def)
  next
    case False
    then have o: "off_ok off" using 1(5) by (simp add: off_ok_def)
    obtain st1 r where g: "get_and_add_leafnode_id st root ino off = (st1, r)" by fastforce
    from 1(2) False g obtain l where r: "r = Inr l"
      by (auto simp: append_ssd_loop.simps [of st] dest: get_and_add_err split: sum.splits)
    obtain A1 where A1: "idx_wf st1 root ino A1" "idx_entry_blkid (idx_mem st1 root) \<noteq> EMPTY_BLKID"
      "leaf_of st1 root off = Some l" "\<forall>off'. off_ok off' \<longrightarrow> idx_map st1 root off' = idx_map st root off'"
      "same_rest st st1 root"
      using get_and_add_leaf_ok [OF 1(3,4) o g [unfolded r]] by metis
    have l: "indexid_ok l" using idx_wf_search(2) [OF A1(1) o A1(3)] by simp
    obtain mem r2 where ap: "append_leaf (idx_mem st1) l (leaf_pos off) arr cur need = (mem, r2)" by fastforce
    from 1(2) False g r l ap obtain n where r2: "r2 = Inr n"
      by (auto simp: append_ssd_loop.simps [of st] Let_def dest: append_leaf_err split: sum.splits)
    define st2 where "st2 = write_change_log (st1\<lparr>idx_mem := mem\<rparr>) l IDXND_OP (mem l) (48 + leaf_pos off * 8) (n * 8)"
    have st2: "st2 = write_change_log (st1\<lparr>idx_mem := mem\<rparr>) l IDXND_OP (idx_mem (st1\<lparr>idx_mem := mem\<rparr>) l)
        (48 + leaf_pos off * 8) (n * 8)" by (simp add: st2_def)
    have rec: "append_ssd_loop st2 root ino (off + of_nat n) arr (cur + n) (need - n) = (st', 0)"
      using 1(2) False g r l ap r2 by (simp add: append_ssd_loop.simps [of st] Let_def st2_def)
    note sp = append_leaf_spec [OF ap [unfolded r2]]
    have n: "n = min need (64 - leaf_pos off)" and mem: "idx_mem st2 = (idx_mem st1)(l := (\<lambda>w. if 6 + leaf_pos off \<le> w \<and>
        w < 6 + leaf_pos off + n then arr (cur + (w - (6 + leaf_pos off))) else idx_mem st1 l w))"
      and bm: "bmps st2 = bmps st1"
      using sp False leaf_pos_less [of off] by (simp_all add: st2_def frame_simps)
    have nn: "leaf_pos off + n \<le> 64" "n \<le> need" using n leaf_pos_less [of off] by auto
    have okk: "off_ok (off + of_nat k)" "unat (off + of_nat k) = unat off + k" if "k < need" for k
      using that 1(5) off_add [of off k] by (simp_all add: off_ok_def)
    have map2: "idx_map st2 root off' = (if unat off \<le> unat off' \<and> unat off' < unat off + n
        then (SSD_BLOCK, arr (cur + (unat off' - unat off))) else idx_map st root off')" if "off_ok off'" for off'
      using append_leaf_map [OF A1(1,3) o nn(1) mem bm _ that] A1(4) 1(6) okk nn(2) that by simp
    have upd: "idx_wf st2 root ino A1" "idx_mem st2 root = idx_mem st1 root"
      using leaf_update(1,2) [OF A1(1,3) o mem bm] by simp_all
    have un: "unat (off + of_nat n) = unat off + n" using off_add 1(5) nn(2) by simp
    have ih3: "\<forall>k < need - n. fst (idx_map st2 root (off + of_nat n + of_nat k)) = SSD_BLOCK"
    proof (intro allI impI)
      fix k assume k: "k < need - n"
      then have kn: "n + k < need" by simp
      have e: "off + of_nat n + of_nat k = off + of_nat (n + k)" by simp
      show "fst (idx_map st2 root (off + of_nat n + of_nat k)) = SSD_BLOCK"
        unfolding e using map2 [OF okk(1) [OF kn]] 1(6) kn okk(2) [OF kn] by (simp del: of_nat_add)
    qed
    have "\<exists>A'. idx_wf st' root ino A' \<and> same_rest st2 st' root \<and>
       (\<forall>off'. off_ok off' \<longrightarrow> idx_map st' root off' =
          (if unat (off + of_nat n) \<le> unat off' \<and> unat off' < unat (off + of_nat n) + (need - n)
           then (SSD_BLOCK, arr (cur + n + (unat off' - unat (off + of_nat n)))) else idx_map st2 root off'))"
      by (rule 1(1) [OF False g [symmetric] r _ refl ap [symmetric] r2 refl st2])
        (use l rec upd A1(2) un 1(5) nn(2) ih3 in simp_all)
    then obtain A' where A': "idx_wf st' root ino A'" "same_rest st2 st' root"
      "\<And>off'. off_ok off' \<Longrightarrow> idx_map st' root off' =
          (if unat off + n \<le> unat off' \<and> unat off' < unat off + need
           then (SSD_BLOCK, arr (cur + n + (unat off' - (unat off + n)))) else idx_map st2 root off')"
      unfolding un using nn(2) by auto
    have "same_rest st1 st2 root" using upd(2) by (simp add: same_rest_def) (simp add: st2_def)
    from same_rest_trans [OF same_rest_trans [OF A1(5) this] A'(2)]
    have "same_rest st st' root" .
    moreover have "idx_map st' root off' = (if unat off \<le> unat off' \<and> unat off' < unat off + need
         then (SSD_BLOCK, arr (cur + (unat off' - unat off))) else idx_map st root off')" if "off_ok off'" for off'
      using A'(3) [OF that] map2 [OF that] nn(2) by (auto simp: add.commute)
    ultimately show ?thesis using A'(1) by blast
  qed
qed

section \<open>The operation\<close>

lemma sint_ucast32:
  assumes "unat (n :: u64) < 2 ^ 31"
  shows "sint (ucast n :: u32) = int (unat n)"
proof -
  have u: "uint n = int (unat n)" by simp
  have "uint n < 2 ^ 31" unfolding u using assms by (metis of_nat_less_iff of_nat_numeral of_nat_power)
  then have "uint (ucast n :: u32) = uint n" by (simp add: unsigned_ucast_eq take_bit_int_eq_self)
  moreover have "signed_take_bit 31 (uint n) = uint n"
    using \<open>uint n < 2 ^ 31\<close> by (intro signed_take_bit_int_eq_self)
      (simp_all add: order_trans [OF _ unsigned_greater_eq])
  ultimately show ?thesis by (simp add: sint_uint)
qed

lemma append_ssd_guards:
  fixes st st' :: libfs and n :: i64
  assumes wf: "idx_wf st root ino A" and ap: "append_ssd_blocks st root ino n arr = (st', 0)"
  defines "first \<equiv> max_blk_offset (idx_mem st root) + 1"
  obtains st1 A1 where "check_root_id st root ino = (st1, Inr ())"
    "idx_wf st1 root ino A1" "idx_entry_blkid (idx_mem st1 root) \<noteq> EMPTY_BLKID"
    "\<forall>off. off_ok off \<longrightarrow> idx_map st1 root off = idx_map st root off" "same_rest st st1 root"
    "max_blk_offset (idx_mem st1 root) + 1 = first" "\<not> (sint n \<le> 0 \<or> neg64 first \<or> 2 ^ 42 - sint first < sint n)"
    "unat first + unat n \<le> 2 ^ 42"
proof -
  obtain st1 r where c: "check_root_id st root ino = (st1, r)" by fastforce
  with ap have r: "r = Inr ()" by (auto simp: append_ssd_blocks_def dest: check_root_err split: sum.splits)
  obtain A1 where A1: "idx_wf st1 root ino A1" "idx_entry_blkid (idx_mem st1 root) \<noteq> EMPTY_BLKID"
    "\<forall>off. off_ok off \<longrightarrow> idx_map st1 root off = idx_map st root off" "same_rest st st1 root"
    using check_root_ok [OF wf c [unfolded r]] by metis
  have first: "max_blk_offset (idx_mem st1 root) + 1 = first" using A1(4) by (simp add: first_def same_rest_def)
  have g: "\<not> (sint n \<le> 0 \<or> neg64 first \<or> 2 ^ 42 - sint first < sint n)"
    using ap c r first by (auto simp: append_ssd_blocks_def Let_def split: if_splits)
  have "sint n = int (unat n)" using g by (intro nonneg64_sint) (simp add: neg64_def)
  moreover have "sint first = int (unat first)" using g by (intro nonneg64_sint) simp
  ultimately have "int (unat first + unat n) \<le> int (2 ^ 42)" using g by simp
  then have "unat first + unat n \<le> 2 ^ 42" by (simp only: of_nat_le_iff)
  with c r A1 first g show thesis by (intro that) simp_all
qed

lemma append_ssd_correct:
  fixes st st' :: libfs and n :: i64
  assumes wf: "idx_wf st root ino A" and ap: "append_ssd_blocks st root ino n arr = (st', 0)"
    and n: "unat n < 2 ^ 31"
  defines "first \<equiv> max_blk_offset (idx_mem st root) + 1"
  assumes ssd: "\<And>k. k < unat n \<Longrightarrow> fst (idx_map st root (first + of_nat k)) = SSD_BLOCK"
  obtains A' where "idx_wf st' root ino A'" "same_others st st'"
    "max_blk_offset (idx_mem st' root) = max_blk_offset (idx_mem st root) + n"
    "unat first + unat n \<le> 2 ^ 42"
    "\<And>off. off_ok off \<Longrightarrow> idx_map st' root off =
      (if unat first \<le> unat off \<and> unat off < unat first + unat n
       then (SSD_BLOCK, arr (unat off - unat first)) else idx_map st root off)"
proof -
  obtain st1 A1 where c: "check_root_id st root ino = (st1, Inr ())"
    and A1: "idx_wf st1 root ino A1" "idx_entry_blkid (idx_mem st1 root) \<noteq> EMPTY_BLKID"
      "\<forall>off. off_ok off \<longrightarrow> idx_map st1 root off = idx_map st root off" "same_rest st st1 root"
    and first: "max_blk_offset (idx_mem st1 root) + 1 = first"
    and g: "\<not> (sint n \<le> 0 \<or> neg64 first \<or> 2 ^ 42 - sint first < sint n)"
    and rng: "unat first + unat n \<le> 2 ^ 42"
    using append_ssd_guards [OF wf ap] unfolding first_def by metis
  have need: "nat (sint (ucast n :: u32)) = unat n" using sint_ucast32 [OF n] by simp
  obtain st2 e where lp: "append_ssd_loop st1 root ino first arr 0 (unat n) = (st2, e)" by fastforce
  with ap c first g need have e: "e = 0" and st': "st' = write_change_log (st2\<lparr>idx_mem := set_word (idx_mem st2) root 3
      (max_blk_offset (idx_mem st2 root) + n)\<rparr>) root IDXND_OP
      (set_word (idx_mem st2) root 3 (max_blk_offset (idx_mem st2 root) + n) root) 24 8"
    by (auto simp: append_ssd_blocks_def Let_def split: if_splits)
  have ssd1: "\<forall>k < unat n. fst (idx_map st1 root (first + of_nat k)) = SSD_BLOCK"
    using ssd A1(3) rng off_add [of first] by (simp add: off_ok_def)
  obtain A' where A': "idx_wf st2 root ino A'" "same_rest st1 st2 root" "\<And>off. off_ok off \<Longrightarrow> idx_map st2 root off =
        (if unat first \<le> unat off \<and> unat off < unat first + unat n
         then (SSD_BLOCK, arr (0 + (unat off - unat first))) else idx_map st1 root off)"
    using append_ssd_loop_ok [OF lp [unfolded e] A1(1,2) rng ssd1] by blast
  have mem: "idx_mem st' = set_word (idx_mem st2) root 3 (max_blk_offset (idx_mem st2 root) + n)" "bmps st' = bmps st2"
    by (simp_all add: st' frame_simps)
  note ru = root_update [OF A'(1) mem]
  have "same_others st st'"
    using same_rest_trans [OF A1(4) A'(2)] by (simp add: same_rest_def st')
  moreover have "max_blk_offset (idx_mem st' root) = max_blk_offset (idx_mem st root) + n"
    using ru(3) A1(4) A'(2) by (simp add: same_rest_def)
  ultimately show thesis
    using that [OF ru(1)] rng ru(2) A'(3) A1(3) by simp
qed

lemma demo_append: "snd (append_ssd_blocks demo_fs 0 7 2 (\<lambda>i. if i = 0 then 11 else 12)) = 0"
proof -
  have u: "unat (6 :: i64) = 6" by simp
  have ok: "indexid_ok 0" "indexid_ok 1" by (simp_all add: indexid_ok_def neg64_def layout_values)
  have o: "off_ok 0" by (simp add: off_ok_def)
  have "leaf_of demo_fs 0 0 = Some 1"
    using ok u by (simp add: leaf_of_def demo_fs_def search_leaf_node.simps bad_node_def neg64_def zipped_part_def node_init_def)
  then have g: "get_and_add_leafnode_id demo_fs 0 7 0 = (demo_fs, Inr 1)"
    using idx_wf_search(1) [OF demo_idx_wf o] by (simp add: get_and_add_leafnode_id_def)
  have c: "check_root_id demo_fs 0 7 = (demo_fs, Inr ())"
    using ok by (simp add: check_root_id_def demo_fs_def neg64_def)
  have lp: "leaf_pos 0 = 0" by (simp add: leaf_pos_def)
  obtain mem where a: "append_leaf (idx_mem demo_fs) 1 0 (\<lambda>i. if i = 0 then 11 else 12) 0 2 = (mem, Inr 2)"
    by (simp add: append_leaf.simps [of _ _ 0] append_leaf.simps [of _ _ "Suc 0"] append_leaf.simps [of _ _ 1] demo_fs_def node_init_def set_word_def)
  have "snd (append_ssd_loop demo_fs 0 7 0 (\<lambda>i. if i = 0 then 11 else 12) 0 2) = 0"
    using g a lp ok by (simp add: append_ssd_loop.simps [of demo_fs] append_ssd_loop.simps [of _ _ _ _ _ _ 0])
  moreover have "max_blk_offset (idx_mem demo_fs 0) + 1 = 0" by (simp add: demo_fs_def)
  moreover have "sint (ucast (2 :: u64) :: u32) = 2" by simp
  ultimately show ?thesis
    using c by (auto simp: append_ssd_blocks_def Let_def neg64_def split: prod.splits)
qed

lemma append_ssd_map:
  fixes st st' :: libfs
  assumes "idx_wf st root ino A" and "append_ssd_blocks st root ino n arr = (st', 0)" and "unat n < 2 ^ 31"
    and "\<forall>off. off_ok off \<longrightarrow> unat (max_blk_offset (idx_mem st root) + 1) \<le> unat off \<longrightarrow> idx_map st root off = no_entry"
  shows "(\<exists>A'. idx_wf st' root ino A') \<and> vir_mem st' = vir_mem st \<and>
    max_blk_offset (idx_mem st' root) = max_blk_offset (idx_mem st root) + n \<and>
    (\<forall>off. off_ok off \<longrightarrow> idx_map st' root off =
      (let first = unat (max_blk_offset (idx_mem st root) + 1)
       in if first \<le> unat off \<and> unat off < first + unat n
          then (SSD_BLOCK, arr (unat off - first)) else idx_map st root off))"
proof -
  have ssd: "fst (idx_map st root (max_blk_offset (idx_mem st root) + 1 + of_nat k)) = SSD_BLOCK" if "k < unat n" for k
  proof -
    have rng: "unat (max_blk_offset (idx_mem st root) + 1) + unat n \<le> 2 ^ 42"
      by (rule append_ssd_guards [OF assms(1,2)]) blast
    then have "unat (max_blk_offset (idx_mem st root) + 1 + of_nat k) = unat (max_blk_offset (idx_mem st root) + 1) + k"
      using that by (intro off_add) simp
    then show ?thesis using assms(4) rng that by (simp add: off_ok_def)
  qed
  show ?thesis
    by (rule append_ssd_correct [OF assms(1-3) ssd]) (auto simp: same_others_def Let_def)
qed

lemma demo_none:
  assumes o: "off_ok off"
  shows "idx_map demo_fs 0 off = no_entry"
proof -
  have "leaf_of demo_fs 0 off = None \<or> leaf_of demo_fs 0 off = Some 1"
    using idx_wf_search(2) [OF demo_idx_wf o] by (cases "leaf_of demo_fs 0 off") auto
  moreover have "slot_of (idx_mem demo_fs 1) (leaf_pos off) = no_entry"
    using leaf_pos_less by (intro slot_of_empty) (simp_all add: demo_fs_def)
  ultimately show ?thesis by (auto simp: idx_map_def)
qed

section \<open>Properties\<close>

text \<open>C13. Appending SSD blocks: when \<open>append_ssd_blocks\<close> succeeds on a well-formed index with
  no entries past its end, the blocks appear in order at the offsets that follow the last
  one, every other entry is unchanged, the last offset grows by the number of blocks, the
  index is well-formed again, and no virtual node is touched.\<close>
theorem append_ssd_blocks_extends:
  fixes st st' :: libfs
  assumes "idx_wf st root ino A" and "append_ssd_blocks st root ino n arr = (st', 0)" and "unat n < 2 ^ 31"
    and "\<forall>off. off_ok off \<longrightarrow> unat (max_blk_offset (idx_mem st root) + 1) \<le> unat off \<longrightarrow> idx_map st root off = no_entry"
  shows "(\<exists>A'. idx_wf st' root ino A') \<and> vir_mem st' = vir_mem st \<and>
    max_blk_offset (idx_mem st' root) = max_blk_offset (idx_mem st root) + n \<and>
    (\<forall>off. off_ok off \<longrightarrow> idx_map st' root off =
      (let first = unat (max_blk_offset (idx_mem st root) + 1)
       in if first \<le> unat off \<and> unat off < first + unat n
          then (SSD_BLOCK, arr (unat off - first)) else idx_map st root off))"
  by (rule append_ssd_map [OF assms])

theorem append_ssd_blocks_extends_witness:
  "\<exists>st'. append_ssd_blocks demo_fs 0 7 2 (\<lambda>i. if i = 0 then 11 else 12) = (st', 0) \<and>
    idx_map st' 0 0 = (SSD_BLOCK, 11) \<and> idx_map st' 0 1 = (SSD_BLOCK, 12)"
proof -
  obtain st' where st': "append_ssd_blocks demo_fs 0 7 2 (\<lambda>i. if i = 0 then 11 else 12) = (st', 0)"
    using demo_append by (metis prod.collapse)
  have f: "max_blk_offset (idx_mem demo_fs 0) + 1 = 0" by (simp add: demo_fs_def)
  have "off_ok 0" "off_ok 1" by (simp_all add: off_ok_def)
  then show ?thesis
    using append_ssd_blocks_extends [OF demo_idx_wf st'] demo_none st' unfolding f by (auto simp: Let_def)
qed

end
