(* ===== verification/Index_Change.thy ===== *)
theory Index_Change
  imports Index_View
begin

text \<open>
  Changing the entry of one block offset (\<open>LibFS/index.c\<close>): replacing an SSD block, turning a
  virtual node back into an SSD block, and inserting cache pages over an SSD block.  Each
  operation changes the map of the index at that offset only.
\<close>

section \<open>Son types\<close>

lemma bit_at_mask: "x AND push_bit p 1 \<noteq> 0 \<longleftrightarrow> bit x p" for x :: u64
  by (simp add: push_bit_of_1 and_exp_eq_0_iff_not_bit)

lemma get_type_bit: "pos < 64 \<Longrightarrow> get_idxson_type b pos = (if bit (b 2) pos then VIR_LEAF_NODE else SSD_BLOCK)"
  using bit_at_mask [of "b 2" pos] by (simp add: get_idxson_type_def)

lemma change_type_same:
  assumes "pos < 64"
  shows "get_idxson_type (change_idxson_type b pos VIR_LEAF_NODE) pos = VIR_LEAF_NODE"
    "get_idxson_type (change_idxson_type b pos SSD_BLOCK) pos = SSD_BLOCK"
  using assms by (auto simp: get_type_bit change_idxson_type_def Let_def bit_or_iff bit_and_iff bit_not_iff push_bit_of_1 bit_exp_iff possible_bit_word)

lemma change_type_other:
  assumes "pos < 64" "p < 64" "p \<noteq> pos"
  shows "get_idxson_type (change_idxson_type b pos t) p = get_idxson_type b p"
  using assms by (auto simp: get_type_bit change_idxson_type_def Let_def bit_or_iff bit_and_iff bit_not_iff push_bit_of_1 bit_exp_iff possible_bit_word)

lemma change_type_words: "pos < 64 \<Longrightarrow> w \<noteq> 2 \<Longrightarrow> change_idxson_type b pos t w = b w"
  by (simp add: change_idxson_type_def Let_def)

text \<open>A leaf block after one slot was set to a typed son.\<close>

lemma slot_set:
  assumes "pos < 64" "t = VIR_LEAF_NODE \<or> t = SSD_BLOCK"
  shows "slot_of (change_idxson_type (b(6 + pos := v)) pos t) pos = (t, v)"
    and "p < 64 \<Longrightarrow> p \<noteq> pos \<Longrightarrow> slot_of (change_idxson_type (b(6 + pos := v)) pos t) p = slot_of b p"
proof -
  have ty: "get_idxson_type (b(6 + pos := v)) p = get_idxson_type b p" if "p < 64" for p
    using that by (simp add: get_type_bit)
  show "slot_of (change_idxson_type (b(6 + pos := v)) pos t) pos = (t, v)"
    using assms change_type_same [OF assms(1)] by (auto simp: slot_of_def change_type_words)
  show "slot_of (change_idxson_type (b(6 + pos := v)) pos t) p = slot_of b p" if "p < 64" "p \<noteq> pos"
    using that assms(1) ty by (simp add: slot_of_def change_type_words change_type_other)
qed

lemma slot_son:
  assumes "pos < 64"
  shows "slot_of (b(6 + pos := v)) pos = (fst (slot_of b pos), v)"
    and "p < 64 \<Longrightarrow> p \<noteq> pos \<Longrightarrow> slot_of (b(6 + pos := v)) p = slot_of b p"
  using assms by (simp_all add: slot_of_def get_type_bit)

section \<open>Releases inside a transaction\<close>

lemmas release_defs = release_inode_def release_index_node_def release_virindex_node_def
  release_buffer_metadata_def release_nvm_page_def release_ssd_block_def

text \<open>The pages of a virtual node, in slot order.\<close>

definition page_list :: "blk \<Rightarrow> i64 list" where
  "page_list v = filter (\<lambda>p. p \<noteq> EMPTY_BLKID) (map (vn_nvm_page_id v) [0..<VLN_SLOT_SUM])"

lemma release_pages_fold:
  assumes "cur_tx s = Some tx" "\<And>j. j \<in> set js \<Longrightarrow> vn_nvm_page_id v j = EMPTY_BLKID \<or> \<not> neg64 (vn_nvm_page_id v j)"
  shows "fold (\<lambda>j st. if vn_nvm_page_id v j \<noteq> EMPTY_BLKID then release_nvm_page st (vn_nvm_page_id v j) else st) js s =
    s\<lparr>cur_tx := Some (tx\<lparr>tx_deallocations :=
      rev (map (Pair PAGE_EXT) (filter (\<lambda>p. p \<noteq> EMPTY_BLKID) (map (vn_nvm_page_id v) js))) @ tx_deallocations tx\<rparr>)\<rparr>"
  using assms
proof (induction js arbitrary: s tx)
  case (Cons j js)
  show ?case
  proof (cases "vn_nvm_page_id v j = EMPTY_BLKID")
    case True
    then show ?thesis using Cons by simp
  next
    case False
    then have r: "release_nvm_page s (vn_nvm_page_id v j) = s\<lparr>cur_tx := Some (tx_dealloc PAGE_EXT (vn_nvm_page_id v j) tx)\<rparr>"
      using Cons.prems(2) [of j] release_in_tx [OF Cons.prems(1), of PAGE_EXT "vn_nvm_page_id v j"]
      by (simp add: release_nvm_page_def)
    have "cur_tx (s\<lparr>cur_tx := Some (tx_dealloc PAGE_EXT (vn_nvm_page_id v j) tx)\<rparr>) =
        Some (tx_dealloc PAGE_EXT (vn_nvm_page_id v j) tx)" by simp
    from Cons.IH [OF this] Cons.prems(2) False r show ?thesis by (simp add: tx_dealloc_def)
  qed
qed simp

lemma release_pages_tx:
  assumes "cur_tx s = Some tx" "\<And>j. j < 8 \<Longrightarrow> vn_nvm_page_id v j = EMPTY_BLKID \<or> \<not> neg64 (vn_nvm_page_id v j)"
  shows "release_pages s v =
    s\<lparr>cur_tx := Some (tx\<lparr>tx_deallocations := rev (map (Pair PAGE_EXT) (page_list v)) @ tx_deallocations tx\<rparr>)\<rparr>"
  unfolding release_pages_def page_list_def using assms by (intro release_pages_fold) auto

section \<open>Changing one entry\<close>

lemma not_bad_offset: "\<not> bad_offset off \<longleftrightarrow> off_ok off"
proof (cases "neg64 off")
  case True
  then show ?thesis by (auto simp: bad_offset_def off_ok_def neg64_iff)
next
  case False
  then have "sint off = int (unat off)" by (rule nonneg64_sint)
  then have "2 ^ 42 \<le> sint off \<longleftrightarrow> 2 ^ 42 \<le> unat off" by (metis of_nat_le_iff of_nat_numeral of_nat_power)
  then show ?thesis using False by (auto simp: bad_offset_def off_ok_def)
qed

lemma entry_start:
  assumes wf: "idx_wf st root ino A" and ch: "check_root_id st root ino = (st1, Inr u)" and o: "off_ok off"
  obtains A1 where "idx_wf st1 root ino A1" "\<forall>off'. off_ok off' \<longrightarrow> idx_map st1 root off' = idx_map st root off'"
    "same_rest st st1 root" "get_leafnode_id st1 root ino off = Inr (leaf_of st1 root off)"
    "get_leafnode_pt st1 root ino off = Inr (leaf_of st1 root off)"
    "\<forall>l. leaf_of st1 root off = Some l \<longrightarrow> indexid_ok l \<and> idx_map st root off = slot_of (idx_mem st1 l) (leaf_pos off)"
proof -
  obtain A1 where A1: "idx_wf st1 root ino A1" "\<forall>off. off_ok off \<longrightarrow> idx_map st1 root off = idx_map st root off"
    "same_rest st st1 root"
    using check_root_ok [OF wf ch] by metis
  have g: "get_leafnode_id st1 root ino off = Inr (leaf_of st1 root off)"
    using idx_wf_search(1) [OF A1(1) o] by (simp add: get_leafnode_id_def)
  have l: "indexid_ok l \<and> idx_map st root off = slot_of (idx_mem st1 l) (leaf_pos off)"
    if l: "leaf_of st1 root off = Some l" for l
    using idx_wf_search(2) [OF A1(1) o l] A1(2) [rule_format, OF o] l by (simp add: idx_map_def)
  then have "get_leafnode_pt st1 root ino off = Inr (leaf_of st1 root off)"
    using idx_wf_search(1) [OF A1(1) o] by (auto simp: get_leafnode_pt_def split: option.splits)
  with A1 g l show thesis by (intro that) blast+
qed

lemma entry_write:
  fixes st st' :: libfs
  assumes wf: "idx_wf st root ino A" and l: "leaf_of st root off = Some l" and o: "off_ok off"
    and mem: "idx_mem st' = (idx_mem st)(l := b)" and bm: "bmps st' = bmps st"
    and b: "ndtype b = ndtype (idx_mem st l)" "zipped_layer b = zipped_layer (idx_mem st l)"
    and other: "\<And>pos. pos < 64 \<Longrightarrow> pos \<noteq> leaf_pos off \<Longrightarrow> slot_of b pos = slot_of (idx_mem st l) pos"
  shows "idx_wf st' root ino A" "max_blk_offset (idx_mem st' root) = max_blk_offset (idx_mem st root)"
    "\<forall>off'. off_ok off' \<longrightarrow>
      idx_map st' root off' = (if off' = off then slot_of b (leaf_pos off) else idx_map st root off')"
  using leaf_update [OF wf l o mem bm b] leaf_update_slot [OF wf l o mem bm b other] by simp_all

lemma change_ssd_correct:
  fixes st st' :: libfs
  assumes wf: "idx_wf st root ino A" and c: "change_ssd_blk_info st root ino off blk = (st', 0)"
  obtains A' where "idx_wf st' root ino A'" "same_rest st st' root" "off_ok off"
    "\<And>off'. off_ok off' \<Longrightarrow> idx_map st' root off' =
      (if off' = off then (fst (idx_map st root off), blk) else idx_map st root off')"
proof -
  from c have o: "off_ok off" by (auto simp: change_ssd_blk_info_def simp flip: not_bad_offset split: if_splits)
  then have nb: "\<not> bad_offset off" by (simp add: not_bad_offset)
  obtain st1 r where ch: "check_root_id st root ino = (st1, r)" by fastforce
  with c nb have r: "r = Inr ()" by (auto simp: change_ssd_blk_info_def dest: check_root_err split: sum.splits)
  obtain A1 where A1: "idx_wf st1 root ino A1" "\<forall>off. off_ok off \<longrightarrow> idx_map st1 root off = idx_map st root off"
    "same_rest st st1 root" and g: "get_leafnode_id st1 root ino off = Inr (leaf_of st1 root off)"
    and leaf: "\<forall>l. leaf_of st1 root off = Some l \<longrightarrow>
      indexid_ok l \<and> idx_map st root off = slot_of (idx_mem st1 l) (leaf_pos off)"
    by (rule entry_start [OF wf ch [unfolded r] o])
  from g c ch r nb obtain l where l: "leaf_of st1 root off = Some l"
    by (auto simp: change_ssd_blk_info_def split: option.splits)
  let ?b = "(idx_mem st1 l)(6 + leaf_pos off := blk)"
  have st': "st' = write_change_log (st1\<lparr>idx_mem := (idx_mem st1)(l := ?b)\<rparr>) l IDXND_OP ?b (48 + leaf_pos off * 8) 8"
    using c ch r nb g l leaf by (simp add: change_ssd_blk_info_def Let_def set_word_def)
  then have mem: "idx_mem st' = (idx_mem st1)(l := ?b)" "bmps st' = bmps st1" by (simp_all add: frame_simps)
  note w = entry_write [OF A1(1) l o mem]
  have "same_rest st1 st' root" using w(2) slot_son [OF leaf_pos_less] by (simp add: same_rest_def) (simp add: st')
  with A1 w(1,3) o leaf l slot_son [OF leaf_pos_less] same_rest_trans [OF A1(3)] show thesis
    by (intro that [of A1]) simp_all
qed

section \<open>A virtual node becomes an SSD block again\<close>

lemma log_tx:
  "\<exists>tx'. cur_tx st = Some tx' \<and> tx_deallocations tx' = ds \<Longrightarrow>
    \<exists>tx'. cur_tx (write_change_log st b t d p n) = Some tx' \<and> tx_deallocations tx' = ds"
  by (auto simp: write_change_log_def add_record_def tx_add_record_def)

lemma change_virnd_correct:
  fixes st st' :: libfs
  assumes wf: "idx_wf st root ino A" and tx: "cur_tx st = Some tx"
    and c: "change_virnd_to_ssdblk st root ino off blk = (st', 0)"
    and pages: "\<forall>v j. j < 8 \<longrightarrow> vn_nvm_page_id (vir_mem st v) j = EMPTY_BLKID \<or> \<not> neg64 (vn_nvm_page_id (vir_mem st v) j)"
  obtains v tx' where "idx_wf st' root ino A" "same_rest st st' root" "off_ok off"
    "idx_map st root off = (VIR_LEAF_NODE, v)" "ndtype (vir_mem st v) = VIR_LEAF_NODE"
    "\<forall>off'. off_ok off' \<longrightarrow> idx_map st' root off' = (if off' = off then (SSD_BLOCK, blk) else idx_map st root off')"
    "cur_tx st' = Some tx'"
    "tx_deallocations tx' = (VIRND_EXT, v) # rev (map (Pair PAGE_EXT) (page_list (vir_mem st v))) @ tx_deallocations tx"
proof -
  from c have o: "off_ok off" by (auto simp: change_virnd_to_ssdblk_def simp flip: not_bad_offset split: if_splits)
  then have nb: "\<not> bad_offset off" by (simp add: not_bad_offset)
  obtain st1 r where ch: "check_root_id st root ino = (st1, r)" by fastforce
  with c nb have r: "r = Inr ()" by (auto simp: change_virnd_to_ssdblk_def dest: check_root_err split: sum.splits)
  obtain A1 where A1: "idx_wf st1 root ino A1" and g: "get_leafnode_id st1 root ino off = Inr (leaf_of st1 root off)"
    and leaf: "\<forall>l. leaf_of st1 root off = Some l \<longrightarrow>
      indexid_ok l \<and> idx_map st root off = slot_of (idx_mem st1 l) (leaf_pos off)"
    by (rule entry_start [OF wf ch [unfolded r] o])
  from g c ch r nb obtain l where l: "leaf_of st1 root off = Some l"
    by (auto simp: change_virnd_to_ssdblk_def split: option.splits)
  define v where "v = son_blk_id (idx_mem st1 l) (leaf_pos off)"
  from g c ch r nb l leaf have ty: "get_idxson_type (idx_mem st1 l) (leaf_pos off) = VIR_LEAF_NODE"
    and vok: "virnodeid_ok v" and vt: "ndtype (vir_mem st1 v) = VIR_LEAF_NODE"
    by (auto simp: change_virnd_to_ssdblk_def Let_def v_def split: if_splits)
  have mv: "idx_map st root off = (VIR_LEAF_NODE, v)" using leaf l ty by (simp add: slot_of_def v_def)
  then have "idx_entry_blkid (idx_mem st root) \<noteq> EMPTY_BLKID" by (auto simp: idx_map_def leaf_of_def)
  then have s1: "st1 = st" using ch r by (auto simp: check_root_id_def split: if_splits)
  let ?b = "change_idxson_type ((idx_mem st l)(6 + leaf_pos off := blk)) (leaf_pos off) SSD_BLOCK"
  define s2 where "s2 = write_change_log (write_change_log (st\<lparr>idx_mem := (idx_mem st)(l := ?b)\<rparr>) l IDXND_OP ?b 16 16)
    l IDXND_OP ?b (48 + leaf_pos off * 8) 8"
  have m2: "idx_mem s2 = (idx_mem st)(l := ?b)" "bmps s2 = bmps st" "vir_mem s2 = vir_mem st" by (simp_all add: s2_def frame_simps)
  have "\<exists>tx2. cur_tx s2 = Some tx2 \<and> tx_deallocations tx2 = tx_deallocations tx"
    unfolding s2_def using tx by (intro log_tx) simp
  then obtain tx2 where t2: "cur_tx s2 = Some tx2" "tx_deallocations tx2 = tx_deallocations tx" by blast
  have st': "st' = release_virindex_node (release_pages s2 (vir_mem st v)) v"
    using c ch r nb g l leaf ty vok vt s1
    by (simp add: change_virnd_to_ssdblk_def Let_def v_def s2_def set_word_def frame_simps)
  have "cur_tx (release_pages s2 (vir_mem st v)) =
      Some (tx2\<lparr>tx_deallocations := rev (map (Pair PAGE_EXT) (page_list (vir_mem st v))) @ tx_deallocations tx2\<rparr>)"
    and rp: "idx_mem (release_pages s2 (vir_mem st v)) = idx_mem s2" "bmps (release_pages s2 (vir_mem st v)) = bmps s2"
      "same_others s2 (release_pages s2 (vir_mem st v))"
    using release_pages_tx [OF t2(1)] pages by (simp_all add: same_others_def)
  from release_in_tx [OF this(1), of VIRND_EXT v] vok
  have fin: "st' = (release_pages s2 (vir_mem st v))\<lparr>cur_tx := Some (tx_dealloc VIRND_EXT v (tx2\<lparr>tx_deallocations :=
      rev (map (Pair PAGE_EXT) (page_list (vir_mem st v))) @ tx_deallocations tx2\<rparr>))\<rparr>"
    by (simp add: st' release_virindex_node_def virnodeid_ok_def)
  have mem: "idx_mem st' = (idx_mem st)(l := ?b)" "bmps st' = bmps st" using fin rp m2 by simp_all
  have bt: "ndtype ?b = ndtype (idx_mem st l)" "zipped_layer ?b = zipped_layer (idx_mem st l)"
    using leaf_pos_less [of off] by (simp_all add: change_type_words)
  note w = entry_write [OF wf l [unfolded s1] o mem bt slot_set(2) [OF leaf_pos_less]]
  have "same_others st st'" using rp(3) m2 by (simp add: fin same_others_def) (simp add: s2_def frame_simps)
  then show thesis
    using fin t2(2) w mv vt s1 o slot_set(1) [OF leaf_pos_less [of off], of SSD_BLOCK "idx_mem st l" blk]
    by (intro that [of v "the (cur_tx st')"]) (simp_all add: same_rest_def tx_dealloc_def)
qed

section \<open>Cache pages over an SSD block\<close>

lemma require_vir_ok:
  assumes "idx_wf st root ino A" "require_virindex_node_id st = (s0, Inr v)"
  shows "idx_wf s0 root ino A" "idx_mem s0 = idx_mem st" "vir_mem s0 = vir_mem st" "inode_mem s0 = inode_mem st"
    "nvm s0 = nvm st" "worker s0 = worker st" "unat v \<notin> used_ids (bmps st) VIRND_EXT"
proof -
  have sp: "space_wf (bmps st)" using assms(1) by (simp add: idx_wf_def)
  note r = reserve_ok [OF sp assms(2) [unfolded require_virindex_node_id_def]]
  show fr: "idx_mem s0 = idx_mem st" "vir_mem s0 = vir_mem st" "inode_mem s0 = inode_mem st"
    "nvm s0 = nvm st" "worker s0 = worker st"
    using reserve_frame [OF assms(2) [unfolded require_virindex_node_id_def]] by simp_all
  have "idx_ids s0 = idx_ids st" using r(6) by (simp add: idx_ids_def)
  then show "idx_wf s0 root ino A" using assms(1) fr(1) r(2) by (simp add: idx_wf_def)
  show "unat v \<notin> used_ids (bmps st) VIRND_EXT" by (rule r(5))
qed

text \<open>The node that \<open>insert_strata_node\<close> puts over the SSD block \<open>blk\<close>.\<close>

definition strata_over :: "i64 \<Rightarrow> blk \<Rightarrow> bool" where
  "strata_over blk v \<longleftrightarrow> ndtype v = STRATA_NODE \<and> vn_ssd_dev_addr v = blk \<and>
     (\<forall>j < 8. vn_nvm_page_id v j = EMPTY_BLKID \<and> vn_buf_meta_id v j = EMPTY_BLKID)"

lemma insert_strata_node_correct:
  fixes st st' :: libfs
  assumes wf: "idx_wf st root ino A" and l: "leaf_of st root off = Some l" and o: "off_ok off"
    and c: "insert_strata_node st l (leaf_pos off) = (st', 0)"
  obtains v where "idx_wf st' root ino A" "unat v \<notin> used_ids (bmps st) VIRND_EXT" "virnodeid_ok v"
    "vir_mem st' = (vir_mem st)(v := vir_mem st' v)" "strata_over (snd (idx_map st root off)) (vir_mem st' v)"
    "son_blk_id (idx_mem st' l) (leaf_pos off) = v"
    "max_blk_offset (idx_mem st' root) = max_blk_offset (idx_mem st root)"
    "\<forall>off'. off_ok off' \<longrightarrow> idx_map st' root off' = (if off' = off then (VIR_LEAF_NODE, v) else idx_map st root off')"
proof -
  have p: "leaf_pos off < 64" by (rule leaf_pos_less)
  from c obtain s0 v where rq: "require_virindex_node_id st = (s0, Inr v)" and vok: "virnodeid_ok v"
    by (auto simp: insert_strata_node_def Let_def split: if_splits prod.splits sum.splits)
  note r = require_vir_ok [OF wf rq]
  let ?b = "change_idxson_type ((idx_mem st l)(6 + leaf_pos off := v)) (leaf_pos off) VIR_LEAF_NODE"
  have mem: "idx_mem st' = (idx_mem s0)(l := ?b)" "bmps st' = bmps s0"
    "vir_mem st' = (vir_mem st)(v := (vir_node_init (vir_mem st v) STRATA_NODE)(1 := son_blk_id (idx_mem st l) (leaf_pos off)))"
    using c rq vok r(2,3) p by (auto simp: insert_strata_node_def Let_def frame_simps set_word_def split: if_splits)
  have bt: "ndtype ?b = ndtype (idx_mem s0 l)" "zipped_layer ?b = zipped_layer (idx_mem s0 l)"
    using p by (simp_all add: change_type_words r(2))
  have l0: "leaf_of s0 root off = Some l" using l idx_view_cong(1) [OF r(2)] by simp
  have other: "\<And>q. q < 64 \<Longrightarrow> q \<noteq> leaf_pos off \<Longrightarrow> slot_of ?b q = slot_of (idx_mem s0 l) q"
    using slot_set(2) [OF p] by (simp add: r(2))
  note w = entry_write [OF r(1) l0 o mem(1,2) bt other]
  have son: "son_blk_id (idx_mem st' l) (leaf_pos off) = v"
    using slot_set(1) [OF p, of VIR_LEAF_NODE "idx_mem st l" v] by (simp add: mem slot_of_def)
  have st: "strata_over (snd (idx_map st root off)) (vir_mem st' v)"
    using l by (simp add: mem strata_over_def vir_node_init_def idx_map_def slot_of_def)
  have map: "\<forall>off'. off_ok off' \<longrightarrow> idx_map st' root off' = (if off' = off then (VIR_LEAF_NODE, v) else idx_map st root off')"
    using w(3) slot_set(1) [OF p, of VIR_LEAF_NODE "idx_mem st l" v] idx_view_cong(2) [OF r(2)] by simp
  show thesis
    by (rule that [of v, OF w(1) r(7) vok _ st son _ map]) (use w(2) r(2) in \<open>simp_all add: mem(3)\<close>)
qed

text \<open>What \<open>insert_strata_slot\<close> does to the node.\<close>

lemma insert_strata_slot_correct:
  fixes st st' :: libfs
  assumes "insert_strata_slot st v pos page buf = (st', 0)"
  shows "virnodeid_ok v" "0 \<le> pos" "pos < 8" "ndtype (vir_mem st v) = STRATA_NODE"
    "vn_nvm_page_id (vir_mem st v) (nat pos) = EMPTY_BLKID" "vn_buf_meta_id (vir_mem st v) (nat pos) = EMPTY_BLKID"
    "vir_mem st' = (vir_mem st)(v := (vir_mem st v)(3 + nat pos := page, 11 + nat pos := buf))"
    "idx_mem st' = idx_mem st" "bmps st' = bmps st"
  using assms by (auto simp: insert_strata_slot_def Let_def set_word_def frame_simps split: if_splits)

lemma insert_strata_correct:
  fixes st st' :: libfs
  assumes wf: "idx_wf st root ino A" and c: "insert_strata_page_and_metabuf st root ino off pos page buf = (st', 0)"
  obtains v where "idx_wf st' root ino A" "off_ok off" "0 \<le> pos" "pos < 8"
    "max_blk_offset (idx_mem st' root) = max_blk_offset (idx_mem st root)"
    "\<forall>off'. off_ok off' \<longrightarrow> idx_map st' root off' = (if off' = off then (VIR_LEAF_NODE, v) else idx_map st root off')"
    "\<forall>u. u \<noteq> v \<longrightarrow> vir_mem st' u = vir_mem st u"
    "if fst (idx_map st root off) = SSD_BLOCK
     then unat v \<notin> used_ids (bmps st) VIRND_EXT \<and>
       (\<exists>nd. strata_over (snd (idx_map st root off)) nd \<and> vir_mem st' v = nd(3 + nat pos := page, 11 + nat pos := buf))
     else idx_map st root off = (VIR_LEAF_NODE, v) \<and> ndtype (vir_mem st v) = STRATA_NODE \<and>
       vn_nvm_page_id (vir_mem st v) (nat pos) = EMPTY_BLKID \<and>
       vir_mem st' v = (vir_mem st v)(3 + nat pos := page, 11 + nat pos := buf)"
proof -
  from c have o: "off_ok off" by (auto simp: insert_strata_page_and_metabuf_def simp flip: not_bad_offset split: if_splits)
  then have nb: "\<not> bad_offset off" by (simp add: not_bad_offset)
  obtain st1 r where ch: "check_root_id st root ino = (st1, r)" by fastforce
  with c nb have r: "r = Inr ()" by (auto simp: insert_strata_page_and_metabuf_def dest: check_root_err split: sum.splits)
  obtain A1 where A1: "idx_wf st1 root ino A1" and g: "get_leafnode_id st1 root ino off = Inr (leaf_of st1 root off)"
    and leaf: "\<forall>l. leaf_of st1 root off = Some l \<longrightarrow>
      indexid_ok l \<and> idx_map st root off = slot_of (idx_mem st1 l) (leaf_pos off)"
    by (rule entry_start [OF wf ch [unfolded r] o])
  from g c ch r nb leaf obtain l where l: "leaf_of st1 root off = Some l"
    and son: "son_blk_id (idx_mem st1 l) (leaf_pos off) \<noteq> EMPTY_BLKID"
    by (auto simp: insert_strata_page_and_metabuf_def Let_def split: option.splits if_splits)
  then have mv: "idx_map st root off = slot_of (idx_mem st1 l) (leaf_pos off)" "snd (idx_map st root off) \<noteq> EMPTY_BLKID"
    using leaf by (simp_all add: slot_of_def)
  from mv(2) have "idx_entry_blkid (idx_mem st root) \<noteq> EMPTY_BLKID" by (auto simp: idx_map_def leaf_of_def)
  then have s1: "st1 = st" using ch r by (auto simp: check_root_id_def split: if_splits)
  note run = c [unfolded insert_strata_page_and_metabuf_def] nb ch [unfolded s1] r g [unfolded s1] l [unfolded s1]
    son [unfolded s1] leaf [unfolded s1]
  show thesis
  proof (cases "fst (idx_map st root off) = SSD_BLOCK")
    case True
    then have ty: "get_idxson_type (idx_mem st l) (leaf_pos off) = SSD_BLOCK" using mv s1 by (simp add: slot_of_def)
    obtain s2 where s2: "insert_strata_node st l (leaf_pos off) = (s2, 0)"
      using run ty by (auto simp: Let_def split: prod.splits if_splits)
    obtain v where v: "idx_wf s2 root ino A" "unat v \<notin> used_ids (bmps st) VIRND_EXT"
      "vir_mem s2 = (vir_mem st)(v := vir_mem s2 v)" "strata_over (snd (idx_map st root off)) (vir_mem s2 v)"
      "son_blk_id (idx_mem s2 l) (leaf_pos off) = v"
      "max_blk_offset (idx_mem s2 root) = max_blk_offset (idx_mem st root)"
      "\<forall>off'. off_ok off' \<longrightarrow> idx_map s2 root off' = (if off' = off then (VIR_LEAF_NODE, v) else idx_map st root off')"
      using insert_strata_node_correct [OF wf l [unfolded s1] o s2] by blast
    obtain s3 where s3: "insert_strata_slot s3 v pos page buf = (st', 0)" "idx_mem s3 = idx_mem s2" "bmps s3 = bmps s2"
      "vir_mem s3 = vir_mem s2"
      using run ty s2 v(5) by (auto simp: Let_def frame_simps)
    note sl = insert_strata_slot_correct [OF s3(1)]
    have eq: "idx_mem st' = idx_mem s2" "bmps st' = bmps s2" using sl s3 by simp_all
    have "vir_mem s2 u = vir_mem st u" if "u \<noteq> v" for u using v(3) that by (metis fun_upd_other)
    then show ?thesis
      by (intro that [of v]) (use True v(1,2,4,6,7) o sl s3 idx_wf_cong [OF eq] idx_view_cong(2) [OF eq(1)] in auto)
  next
    case False
    then have ty: "get_idxson_type (idx_mem st l) (leaf_pos off) = VIR_LEAF_NODE" and
      ty': "get_idxson_type (idx_mem st l) (leaf_pos off) \<noteq> SSD_BLOCK"
      using mv s1 by (auto simp: slot_of_def get_idxson_type_def)
    define v where "v = son_blk_id (idx_mem st l) (leaf_pos off)"
    have "insert_strata_slot st v pos page buf = (st', 0)" using run ty' by (simp add: v_def Let_def)
    note sl = insert_strata_slot_correct [OF this]
    have mv': "idx_map st root off = (VIR_LEAF_NODE, v)" using mv s1 ty by (simp add: slot_of_def v_def)
    show ?thesis
      by (rule that [of v]) (use False mv' o sl wf idx_wf_cong [OF sl(8,9)] idx_view_cong(2) [OF sl(8)] in auto)
  qed
qed

end
