(* ===== verification/Index_Query.thy ===== *)
theory Index_Query
  imports Index_Append Index_Change
begin

text \<open>
  Reading the index (\<open>query_offset_info\<close> of \<open>LibFS/index.c\<close>) against its map, and the
  properties of the operations that change one entry, on a concrete file.
\<close>

declare One_nat_def [simp del]

section \<open>Queries\<close>

text \<open>The answer is determined by the map and the virtual nodes.\<close>

lemma query_entry:
  assumes wf: "idx_wf st root ino A" and o: "off_ok off"
  shows "query_offset_info st root ino off =
    (case idx_map st root off of (t, son) \<Rightarrow>
       if son = EMPTY_BLKID then empty_off_info off
       else if t = SSD_BLOCK then (empty_off_info off)\<lparr>oi_ndtype := SSD_BLOCK, oi_ssd_dev_addr := ssdblk_to_devaddr son\<rparr>
       else if \<not> virnodeid_ok son then empty_off_info off
       else let v = vir_mem st son;
                addr = (\<lambda>f id. if id = EMPTY_BLKID then - 1 else f id);
                ret = (empty_off_info off)\<lparr>oi_nvm_page_id := (\<lambda>i. addr nvmpage_to_devaddr (vn_nvm_page_id v i))\<rparr>
            in if ndtype v = VIR_LEAF_NODE then ret\<lparr>oi_ndtype := VIR_LEAF_NODE\<rparr>
               else if ndtype v = STRATA_NODE
               then ret\<lparr>oi_ndtype := STRATA_NODE, oi_ssd_dev_addr := addr ssdblk_to_devaddr (vn_ssd_dev_addr v),
                        oi_buf_meta_id := (\<lambda>i. addr bufmetaid_to_devaddr (vn_buf_meta_id v i))\<rparr>
               else ret)"
proof (cases "idx_entry_blkid (idx_mem st root) = EMPTY_BLKID")
  case True
  then show ?thesis by (simp add: query_offset_info_def idx_map_def leaf_of_def Let_def)
next
  case False
  have root: "indexid_ok root" using wf by (simp add: idx_wf_def)
  have g: "get_leafnode_pt st root ino off = Inr (leaf_of st root off)"
    using idx_wf_search [OF wf o] by (auto simp: get_leafnode_pt_def split: option.splits)
  have "get_idxson_type b p = SSD_BLOCK \<or> get_idxson_type b p = VIR_LEAF_NODE" for b p
    by (simp add: get_idxson_type_def)
  then show ?thesis
    using False root g
    by (auto simp: query_offset_info_def idx_map_def slot_of_def Let_def fun_eq_iff split: option.splits)
qed

section \<open>A file with one SSD block and one virtual node\<close>

text \<open>Slot 0 of the only leaf names SSD block 11, slot 1 the virtual node 1 with the pages 21
  and 22.\<close>

definition demo_file :: libfs where
  "demo_file = demo_fs\<lparr>
     idx_mem := (idx_mem demo_fs)(1 := (node_init (\<lambda>_. 0) 6 LEAF_NODE)(2 := 2, 6 := 11, 7 := 1)),
     vir_mem := (vir_mem demo_fs)(1 := (vir_node_init (\<lambda>_. 0) VIR_LEAF_NODE)(2 := 2, 3 := 21, 4 := 22))\<rparr>"

lemma demo_file_wf: "idx_wf demo_file 0 7 {1}"
proof -
  have u: "unat (6 :: i64) = 6" by simp
  have ok: "indexid_ok 1" by (simp add: indexid_ok_def neg64_def layout_values)
  have "wft (idx_mem demo_file) 0 1 {1}" by (rule wft.leaf) (use ok u in \<open>simp_all add: demo_file_def\<close>)
  then show ?thesis using demo_idx_wf unfolding idx_wf_def by (simp add: demo_file_def demo_fs_def idx_ids_def)
qed

lemma demo_leaf: "leaf_of demo_file 0 0 = Some 1" "leaf_of demo_file 0 1 = Some 1"
proof -
  have u: "unat (6 :: i64) = 6" by simp
  have ok: "indexid_ok 0" "indexid_ok 1" by (simp_all add: indexid_ok_def neg64_def layout_values)
  show "leaf_of demo_file 0 0 = Some 1" "leaf_of demo_file 0 1 = Some 1"
    using ok u by (simp_all add: word_le_nat_alt leaf_of_def demo_file_def demo_fs_def search_leaf_node.simps bad_node_def neg64_def
        zipped_part_def node_init_def)
qed

lemma demo_block:
  "idx_mem demo_file 1 = (node_init (\<lambda>_. 0) 6 LEAF_NODE)(2 := 2, 6 := 11, 7 := 1)"
  "vir_mem demo_file 1 = (vir_node_init (\<lambda>_. 0) VIR_LEAF_NODE)(2 := 2, 3 := 21, 4 := 22)"
  "cur_tx demo_file = Some empty_txn"
  by (simp_all add: demo_file_def demo_fs_def)

lemma demo_map: "idx_map demo_file 0 0 = (SSD_BLOCK, 11)" "idx_map demo_file 0 1 = (VIR_LEAF_NODE, 1)"
  by (simp_all add: idx_map_def demo_leaf slot_of_def get_idxson_type_def demo_block leaf_pos_def)

lemma demo_start:
  "check_root_id demo_file 0 7 = (demo_file, Inr ())" "get_leafnode_id demo_file 0 7 0 = Inr (Some 1)"
  "get_leafnode_id demo_file 0 7 1 = Inr (Some 1)" "indexid_ok 1" "virnodeid_ok 1" "virnodeid_ok 2"
  "\<not> bad_offset 0" "\<not> bad_offset 1" "off_ok 0" "off_ok 1" "leaf_pos 0 = 0" "leaf_pos 1 = 1"
proof -
  have ok: "indexid_ok 0" "indexid_ok 1" by (simp_all add: indexid_ok_def neg64_def layout_values)
  show "check_root_id demo_file 0 7 = (demo_file, Inr ())"
    using ok by (simp add: check_root_id_def demo_file_def demo_fs_def neg64_def)
  show o: "off_ok 0" "off_ok 1" by (simp_all add: off_ok_def)
  then show "\<not> bad_offset 0" "\<not> bad_offset 1" by (simp_all only: not_bad_offset)
  show "get_leafnode_id demo_file 0 7 0 = Inr (Some 1)" "get_leafnode_id demo_file 0 7 1 = Inr (Some 1)"
    using idx_wf_search(1) [OF demo_file_wf] o demo_leaf by (simp_all add: get_leafnode_id_def)
  show "indexid_ok 1" by (rule ok)
  show "virnodeid_ok 1" "virnodeid_ok 2" by (simp_all add: virnodeid_ok_def neg64_def layout_values)
  show "leaf_pos 0 = 0" "leaf_pos 1 = 1" by (simp_all add: leaf_pos_def)
qed

text \<open>Adding the leaf of offset 64 splits the only leaf and allocates two blocks.\<close>

lemma reserve_cong:
  assumes "bmps s = bmps s'" "worker s = worker s'" "cur_tx s \<noteq> None" "snd (reserve s t) = Inr a"
  shows "snd (reserve s' t) = Inr a"
  using assms by (auto simp: reserve_def orchfs_log_record_current_allocation_def
      orchfs_log_transaction_record_allocation_def split: prod.splits sum.splits option.splits if_splits)

lemma demo_insert: "snd (get_and_add_leafnode_id demo_fs 0 7 64) = Inr 3"
proof -
  have z: "zipped_part 0 36 64 = 1" "allow_zipped_layer 1 6 = 5" "zipped_part 0 30 64 = 0" "next_layer_key 0 30 64 = 1"
    by code_simp+
  have u: "unat (6 :: i64) = 6" "unat (5 :: i64) = 5" by simp_all
  have ok: "indexid_ok 1" "indexid_ok 2" "indexid_ok 3" by (simp_all add: indexid_ok_def neg64_def layout_values)
  have ng: "\<not> neg64 1" "\<not> neg64 2" "\<not> neg64 3" "\<not> neg64 7" "\<not> neg64 5" "\<not> neg64 6" "\<not> neg64 64" by (simp_all add: neg64_def)
  have r: "snd (require_index_node_id demo_fs) = Inr 2"
    "snd (require_index_node_id (fst (require_index_node_id demo_fs))) = Inr 3" by code_simp+
  define s0 where "s0 = fst (require_index_node_id demo_fs)"
  have s0: "require_index_node_id demo_fs = (s0, Inr 2)" using r(1) by (simp add: s0_def prod_eq_iff)
  have dm: "idx_mem demo_fs 1 = node_init (\<lambda>_. 0) 6 LEAF_NODE" "idx_mem demo_fs 2 = node_init (\<lambda>_. 0) 6 LEAF_NODE"
    "idx_mem demo_fs 3 = node_init (\<lambda>_. 0) 6 LEAF_NODE" "idx_mem demo_fs 0 2 = 1" by (simp_all add: demo_fs_def)
  have sp: "space_wf (bmps demo_fs)" using demo_idx_wf by (simp add: idx_wf_def)
  have "cur_tx s0 \<noteq> None"
    using arg_cong [OF reserve_ok(7) [OF sp s0 [unfolded require_index_node_id_def]], of cur_tx] by (simp add: demo_fs_def)
  then have q: "snd (require_index_node_id s) = Inr 3" if "bmps s = bmps s0" "worker s = worker s0" for s
    using reserve_cong [of s0 s IDXND_EXT 3] that r(2) by (simp add: s0_def require_index_node_id_def)
  obtain s1 where s1: "insert_split demo_fs 1 (Root_entry 0) 1 = (s1, Inr 2)"
    using ok by (simp add: insert_split_def s0 Let_def)
  obtain s1b: "bmps s1 = bmps s0" "worker s1 = worker s0" and m1: "idx_mem s1 = split_mem (idx_mem demo_fs) 1 (Root_entry 0) 5 2"
    by (rule insert_split_ok [OF s1]) (use s0 z u dm in simp)
  obtain t where t: "require_index_node_id s1 = (t, Inr 3)" using q [OF s1b] by (metis prod.collapse)
  have tm: "idx_mem t = idx_mem s1" using reserve_frame [OF t [unfolded require_index_node_id_def]] by simp
  obtain s2 where s2: "insert_add_son s1 2 0 30 1 = (s2, Inr ())"
    and m2: "idx_mem s2 = set_word ((idx_mem s1)(3 := node_init (idx_mem s1 3) 0 LEAF_NODE)) 2 7 3"
    using ok t tm by (simp add: insert_add_son_def Let_def frame_simps)
  have n: "ndtype (idx_mem s1 2) = NOT_LEAF_NODE" "zipped_layer (idx_mem s1 2) = 5" "idx_mem s1 2 7 = EMPTY_BLKID"
    "idx_mem s2 2 7 = 3" "ndtype (idx_mem s2 3) = LEAF_NODE" "zipped_layer (idx_mem s2 3) = 0"
    "idx_mem s2 0 2 = 2" "ndtype (idx_mem s2 2) = NOT_LEAF_NODE" "zipped_layer (idx_mem s2 2) = 5"
    by (simp_all add: m1 m2 split_mem_def set_word_def node_init_def)
  have g: "\<not> push_bit KEY_LEN 1 \<le> (64 :: u64)" by simp
  have i3: "insert_node_into_index s2 3 7 (Son_slot 2 1) 36 64 = (s2, Inr 0)"
    using ng ok g n by (simp add: insert_node_into_index.simps [of s2 3] bad_node_def)
  have i2: "insert_node_into_index s1 2 7 (Son_slot 2 0) 0 64 = (s2, Inr 0)"
    using ng ok g n z u i3 s2 by (simp add: insert_node_into_index.simps [of s1 2] bad_node_def Let_def)
  have i1: "insert_node_into_index demo_fs 1 7 (Root_entry 0) 0 64 = (s2, Inr 1)"
    using ng ok g dm z u i2 s1 by (simp add: insert_node_into_index.simps [of demo_fs 1] bad_node_def Let_def)
  have "search_leaf_node (idx_mem demo_fs) 1 7 0 64 = Inr None"
    using ng ok g dm z u by (simp add: search_leaf_node.simps bad_node_def Let_def)
  moreover have "search_leaf_node (idx_mem s2) 2 7 0 64 = Inr (Some 3)"
    using ng ok g n z u by (simp add: search_leaf_node.simps bad_node_def Let_def)
  ultimately show ?thesis
    using i1 n dm by (simp add: get_and_add_leafnode_id_def frame_simps)
qed

section \<open>Properties\<close>

text \<open>C11. Append then query: after \<open>append_ssd_blocks\<close> succeeded, \<open>query_offset_info\<close> at every
  appended offset answers with the device address of exactly the block appended there, and
  at every other offset it answers as before.\<close>
theorem append_then_query:
  fixes st st' :: libfs
  assumes "idx_wf st root ino A" and "append_ssd_blocks st root ino n arr = (st', 0)" and "unat n < 2 ^ 31"
    and "\<forall>off. off_ok off \<longrightarrow> unat (max_blk_offset (idx_mem st root) + 1) \<le> unat off \<longrightarrow> idx_map st root off = no_entry"
    and "\<forall>k. k < unat n \<longrightarrow> arr k \<noteq> EMPTY_BLKID" and "off_ok off"
  shows "query_offset_info st' root ino off =
    (let first = unat (max_blk_offset (idx_mem st root) + 1)
     in if first \<le> unat off \<and> unat off < first + unat n
        then (empty_off_info off)\<lparr>oi_ndtype := SSD_BLOCK, oi_ssd_dev_addr := ssdblk_to_devaddr (arr (unat off - first))\<rparr>
        else query_offset_info st root ino off)"
proof -
  note a = append_ssd_map [OF assms(1-4)]
  then obtain A' where wf': "idx_wf st' root ino A'" and v: "vir_mem st' = vir_mem st" by blast
  from a assms(6) have m: "idx_map st' root off =
      (let first = unat (max_blk_offset (idx_mem st root) + 1)
       in if first \<le> unat off \<and> unat off < first + unat n
          then (SSD_BLOCK, arr (unat off - first)) else idx_map st root off)" by blast
  let ?f = "unat (max_blk_offset (idx_mem st root) + 1)"
  have ne: "arr (unat off - ?f) \<noteq> EMPTY_BLKID" if "?f \<le> unat off" "unat off < ?f + unat n"
    using assms(5) that by simp
  show ?thesis
    unfolding query_entry [OF wf' assms(6)] query_entry [OF assms(1,6)] m v using ne by (auto simp: Let_def)
qed

theorem append_then_query_witness:
  "\<exists>st'. append_ssd_blocks demo_fs 0 7 2 (\<lambda>i. if i = 0 then 11 else 12) = (st', 0) \<and>
    oi_ssd_dev_addr (query_offset_info st' 0 7 1) = ssdblk_to_devaddr 12"
proof -
  obtain st' where st': "append_ssd_blocks demo_fs 0 7 2 (\<lambda>i. if i = 0 then 11 else 12) = (st', 0)"
    using demo_append by (metis prod.collapse)
  have f: "max_blk_offset (idx_mem demo_fs 0) + 1 = 0" by (simp add: demo_fs_def)
  have "query_offset_info st' 0 7 1 = (empty_off_info 1)\<lparr>oi_ndtype := SSD_BLOCK, oi_ssd_dev_addr := ssdblk_to_devaddr 12\<rparr>"
    using append_then_query [OF demo_idx_wf st', of 1] demo_none demo_start(10) unfolding f by (simp add: Let_def)
  with st' show ?thesis by simp
qed

text \<open>C24. Moving a block of cached pages back to the SSD: when \<open>change_virnd_to_ssdblk\<close> succeeds
  inside a transaction, the entry of the offset was a virtual leaf node and is now the given
  SSD block, no other entry changed, the index is still well-formed, and the transaction will
  release exactly the pages of that virtual node, in order, and then the node itself.\<close>
theorem change_virnd_to_ssdblk_moves:
  fixes st st' :: libfs
  assumes "idx_wf st root ino A" and "cur_tx st = Some tx"
    and "change_virnd_to_ssdblk st root ino off blk = (st', 0)"
    and "\<forall>v j. j < 8 \<longrightarrow> vn_nvm_page_id (vir_mem st v) j = EMPTY_BLKID \<or> \<not> neg64 (vn_nvm_page_id (vir_mem st v) j)"
  shows "idx_wf st' root ino A \<and>
    (\<forall>off'. off_ok off' \<longrightarrow> idx_map st' root off' = (if off' = off then (SSD_BLOCK, blk) else idx_map st root off')) \<and>
    (\<exists>v. idx_map st root off = (VIR_LEAF_NODE, v) \<and> ndtype (vir_mem st v) = VIR_LEAF_NODE \<and>
       map_option tx_deallocations (cur_tx st') =
         Some ((VIRND_EXT, v) # rev (map (Pair PAGE_EXT) (page_list (vir_mem st v))) @ tx_deallocations tx))"
  by (rule change_virnd_correct [OF assms(1-4)]) auto

theorem change_virnd_to_ssdblk_moves_witness:
  "\<exists>st'. change_virnd_to_ssdblk demo_file 0 7 1 30 = (st', 0) \<and> idx_map st' 0 1 = (SSD_BLOCK, 30) \<and>
    idx_map st' 0 0 = (SSD_BLOCK, 11) \<and>
    map_option tx_deallocations (cur_tx st') = Some [(VIRND_EXT, 1), (PAGE_EXT, 22), (PAGE_EXT, 21)]"
proof -
  have ty: "get_idxson_type (idx_mem demo_file 1) 1 = VIR_LEAF_NODE" by (simp add: get_idxson_type_def demo_block)
  obtain st' where c: "change_virnd_to_ssdblk demo_file 0 7 1 30 = (st', 0)"
    using ty by (simp add: change_virnd_to_ssdblk_def Let_def demo_start demo_block vir_node_init_def)
  have vm: "vir_mem demo_file v = (if v = 1 then vir_mem demo_file 1 else (\<lambda>_. 0))" for v
    by (simp add: demo_file_def demo_fs_def)
  have pages: "\<forall>v j. j < 8 \<longrightarrow> vn_nvm_page_id (vir_mem demo_file v) j = EMPTY_BLKID \<or>
      \<not> neg64 (vn_nvm_page_id (vir_mem demo_file v) j)"
    by (subst (1 2) vm) (auto simp: demo_block vir_node_init_def neg64_def)
  have pl: "page_list (vir_mem demo_file 1) = [21, 22]"
    by (simp add: page_list_def demo_block vir_node_init_def upt_rec)
  show ?thesis
    using change_virnd_to_ssdblk_moves [OF demo_file_wf demo_block(3) c pages] c demo_map demo_start(9,10) pl
    by (auto simp: empty_txn_def)
qed

text \<open>C23. Inserting a cache page over an SSD block: when \<open>insert_strata_page_and_metabuf\<close> succeeds,
  only the entry of its offset may change.  Over a plain SSD block a virtual node that was
  free becomes a strata node remembering that block, with the page and its metadata in slot
  \<open>pos\<close> and nothing in the other slots; over a strata node the page goes to its empty slot
  \<open>pos\<close>.  Every other virtual node is unchanged and the index stays well-formed.\<close>
theorem insert_strata_keeps_block:
  fixes st st' :: libfs
  assumes "idx_wf st root ino A" and "insert_strata_page_and_metabuf st root ino off pos page buf = (st', 0)"
  shows "idx_wf st' root ino A \<and> 0 \<le> pos \<and> pos < 8 \<and>
    (\<exists>v. (\<forall>off'. off_ok off' \<longrightarrow>
            idx_map st' root off' = (if off' = off then (VIR_LEAF_NODE, v) else idx_map st root off')) \<and>
       (\<forall>u. u \<noteq> v \<longrightarrow> vir_mem st' u = vir_mem st u) \<and>
       (if fst (idx_map st root off) = SSD_BLOCK
        then unat v \<notin> used_ids (bmps st) VIRND_EXT \<and>
          (\<exists>nd. strata_over (snd (idx_map st root off)) nd \<and>
             vir_mem st' v = nd(3 + nat pos := page, 11 + nat pos := buf))
        else idx_map st root off = (VIR_LEAF_NODE, v) \<and> ndtype (vir_mem st v) = STRATA_NODE \<and>
          vn_nvm_page_id (vir_mem st v) (nat pos) = EMPTY_BLKID \<and>
          vir_mem st' v = (vir_mem st v)(3 + nat pos := page, 11 + nat pos := buf)))"
  by (rule insert_strata_correct [OF assms]) blast

theorem insert_strata_keeps_block_witness:
  "\<exists>st' v. insert_strata_page_and_metabuf demo_file 0 7 0 3 25 5 = (st', 0) \<and> idx_map st' 0 0 = (VIR_LEAF_NODE, v) \<and>
    idx_map st' 0 1 = (VIR_LEAF_NODE, 1) \<and> vn_ssd_dev_addr (vir_mem st' v) = 11 \<and> vn_nvm_page_id (vir_mem st' v) 3 = 25"
proof -
  have ty: "get_idxson_type (idx_mem demo_file 1) 0 = SSD_BLOCK" by (simp add: get_idxson_type_def demo_block)
  have "snd (require_virindex_node_id demo_file) = Inr 2" by code_simp
  then obtain s0 where rq: "require_virindex_node_id demo_file = (s0, Inr 2)" by (metis prod.collapse)
  note r = require_vir_ok [OF demo_file_wf rq]
  obtain st' where c: "insert_strata_page_and_metabuf demo_file 0 7 0 3 25 5 = (st', 0)"
    using ty rq r(2,3)
    by (simp add: insert_strata_page_and_metabuf_def Let_def demo_start demo_block insert_strata_node_def insert_strata_slot_def
        vir_node_init_def frame_simps set_word_def change_idxson_type_def)
  show ?thesis
    using insert_strata_keeps_block [OF demo_file_wf c] c demo_map demo_start(9,10)
    by (auto simp: strata_over_def)
qed

text \<open>C12. Adding a leaf: when \<open>get_and_add_leafnode_id\<close> succeeds on a well-formed index, searching
  for the offset finds the returned leaf, the entry of every offset is unchanged (new nodes
  are empty and a split keeps the old subtree in its place), the index is well-formed, and
  the last offset and everything outside the index blocks is untouched.\<close>
theorem add_leaf_keeps_map:
  assumes "idx_wf st root ino A" and "idx_entry_blkid (idx_mem st root) \<noteq> EMPTY_BLKID" and "off_ok off"
    and "get_and_add_leafnode_id st root ino off = (st', Inr l)"
  shows "(\<exists>A'. idx_wf st' root ino A') \<and> get_leafnode_id st' root ino off = Inr (Some l) \<and>
    (\<forall>off'. off_ok off' \<longrightarrow> idx_map st' root off' = idx_map st root off') \<and> same_rest st st' root"
proof (rule get_and_add_leaf_ok [OF assms])
  fix A'
  assume a: "idx_wf st' root ino A'" "leaf_of st' root off = Some l" "same_rest st st' root"
    "\<And>off'. off_ok off' \<Longrightarrow> idx_map st' root off' = idx_map st root off'"
  then have "get_leafnode_id st' root ino off = Inr (Some l)"
    using idx_wf_search(1) [OF a(1) assms(3)] by (simp add: get_leafnode_id_def)
  with a show ?thesis by blast
qed

theorem add_leaf_keeps_map_witness:
  "\<exists>st'. get_and_add_leafnode_id demo_fs 0 7 64 = (st', Inr 3) \<and> get_leafnode_id st' 0 7 64 = Inr (Some 3) \<and>
    idx_map st' 0 0 = idx_map demo_fs 0 0"
proof -
  obtain st' where g: "get_and_add_leafnode_id demo_fs 0 7 64 = (st', Inr 3)" using demo_insert by (metis prod.collapse)
  have "off_ok 64" "off_ok 0" by (simp_all add: off_ok_def)
  then show ?thesis using add_leaf_keeps_map [OF demo_idx_wf _ _ g] g by (simp add: demo_fs_def)
qed

end
