(* ===== verification/Index_Delete.thy ===== *)
theory Index_Delete
  imports Index_View
begin

text \<open>
  Deleting a file's index (\<open>delete_all_index\<close> of \<open>LibFS/index.c\<close>).  The recursion of the source
  follows the tree, whose depth is at most seven levels, so seven units of fuel suffice.
\<close>

section \<open>Steps that only defer releases\<close>














section \<open>The whole tree\<close>





end
