(* ===== verification/Data_Path.thy ===== *)
theory Data_Path
  imports Device_Routing Byte_Codec
begin

text \<open>
  The data path of the coroutine file-system core (\<open>Async/kfs_coroutine_core.cpp\<close>): how a write is
  planned over the blocks it touches, how the plan is carried out on the devices, and how a read
  collects the bytes.  A block lies on the SSD, in pages of persistent memory (a virtual block), or on
  the SSD with newer bytes in a page buffer (a strata block), where up to twelve segments of a page
  are listed in a metadata object.

  The devices are one address space (persistent memory first, see \<^const>\<open>dev_view\<close>), a function from
  addresses to bytes.  Coroutine switches and traces are left out; device errors are an argument.
\<close>

section \<open>Blocks and buffer metadata\<close>

abbreviation (input) kPageSize :: nat where "kPageSize \<equiv> 4096"
abbreviation (input) kBlockSize :: nat where "kBlockSize \<equiv> 32768"
abbreviation (input) kBufferMetadataSize :: nat where "kBufferMetadataSize \<equiv> 128"
abbreviation (input) kBufferMetadataEntries :: nat where "kBufferMetadataEntries \<equiv> 64"
abbreviation (input) kMaximumBufferSegments :: u16 where "kMaximumBufferSegments \<equiv> 12"
abbreviation (input) kStrataSsdPageThreshold :: nat where "kStrataSsdPageThreshold \<equiv> 6"
abbreviation (input) kPipelinedWriteThreshold :: nat where "kPipelinedWriteThreshold \<equiv> 262144"

abbreviation (input) ORCHFS_CORE_VIRTUAL_BLOCK :: i64 where "ORCHFS_CORE_VIRTUAL_BLOCK \<equiv> 3"
abbreviation (input) ORCHFS_CORE_STRATA_BLOCK :: i64 where "ORCHFS_CORE_STRATA_BLOCK \<equiv> 4"
abbreviation (input) ORCHFS_CORE_SSD_BLOCK :: i64 where "ORCHFS_CORE_SSD_BLOCK \<equiv> 5"
abbreviation (input) ORCHFS_CORE_PAGE_COUNT :: nat where "ORCHFS_CORE_PAGE_COUNT \<equiv> 8"

record orchfs_core_block =
  cb_type :: i64
  cb_ssd_device_offset :: i64
  cb_nvm_page_offset :: "nat \<Rightarrow> i64"
  cb_buffer_metadata_offset :: "nat \<Rightarrow> i64"
  cb_file_block :: i64

definition valid_pmem_range :: "i64 \<Rightarrow> nat \<Rightarrow> bool" where
  "valid_pmem_range offset len \<longleftrightarrow> \<not> neg64 offset \<and> offset \<le> PMEM_LEN \<and> len \<le> unat (PMEM_LEN - offset)"

definition orchfs_core_read_pmem :: "(nat \<Rightarrow> u8) \<Rightarrow> i64 \<Rightarrow> nat \<Rightarrow> errno + u8 list" where
  "orchfs_core_read_pmem dev offset len =
     (if \<not> valid_pmem_range offset len then Inl EINVAL else Inr (nvm_get dev (unat offset) len))"

definition orchfs_core_write_pmem :: "(nat \<Rightarrow> u8) \<Rightarrow> i64 \<Rightarrow> u8 list \<Rightarrow> (nat \<Rightarrow> u8) \<times> errno" where
  "orchfs_core_write_pmem dev offset src =
     (if \<not> valid_pmem_range offset (length src) then (dev, EINVAL) else (nvm_put dev (unat offset) src, 0))"

text \<open>The 64 half-words of a metadata object.\<close>

definition le16 :: "u16 \<Rightarrow> u8 list" where
  "le16 w = [ucast w, ucast (drop_bit 8 w)]"

definition metadata_bytes :: "u16 list \<Rightarrow> u8 list" where
  "metadata_bytes m = concat (map le16 m)"

definition metadata_of :: "u8 list \<Rightarrow> u16 list" where
  "metadata_of bytes = map (\<lambda>i. of_le [bytes ! (2 * i), bytes ! (2 * i + 1)]) [0..<kBufferMetadataEntries]"

definition read_metadata :: "(nat \<Rightarrow> u8) \<Rightarrow> i64 \<Rightarrow> errno + u16 list" where
  "read_metadata dev offset =
     (if neg64 offset then Inl EIO
      else case orchfs_core_read_pmem dev offset kBufferMetadataSize of
             Inl err \<Rightarrow> Inl err
           | Inr bytes \<Rightarrow>
               let metadata = metadata_of bytes
               in if sint (metadata ! 0) < 0 \<or> sint kMaximumBufferSegments < sint (metadata ! 0) then Inl EIO
                  else Inr metadata)"

text \<open>\<open>memcpy\<close> into a buffer.\<close>

definition copy_into :: "u8 list \<Rightarrow> nat \<Rightarrow> u8 list \<Rightarrow> u8 list" where
  "copy_into dst pos src = take pos dst @ src @ drop (pos + length src) dst"

primrec overlay_loop :: "u8 list \<Rightarrow> u16 list \<Rightarrow> nat list \<Rightarrow> u8 list \<Rightarrow> errno + u8 list" where
  "overlay_loop cached metadata [] dst = Inr dst"
| "overlay_loop cached metadata (segment # segments) dst =
     (let start = sint (metadata ! (1 + segment * 2)); len = sint (metadata ! (2 + segment * 2))
      in if start < 0 \<or> len < 0 \<or> length dst < nat start \<or> length dst - nat start < nat len then Inl EIO
         else overlay_loop cached metadata segments
                (copy_into dst (nat start) (take (nat len) (drop (nat start) cached))))"

definition overlay_page :: "(nat \<Rightarrow> u8) \<Rightarrow> u8 list \<Rightarrow> i64 \<Rightarrow> u16 list \<Rightarrow> errno + u8 list" where
  "overlay_page dev dst nvm_offset metadata =
     (if neg64 nvm_offset \<or> length dst \<noteq> kPageSize then Inl EIO
      else case orchfs_core_read_pmem dev nvm_offset kPageSize of
             Inl err \<Rightarrow> Inl err
           | Inr cached \<Rightarrow> overlay_loop cached metadata [0..<nat (sint (metadata ! 0))] dst)"

section \<open>Planning a write\<close>

record merge_page =
  mg_ssd_offset :: i64
  mg_nvm_offset :: i64
  mg_metadata :: "u16 list"

record direct_ssd_merge =
  dm_ssd_offset :: i64
  dm_inside :: nat
  dm_source :: "u8 list"

text \<open>The request lists that the planning loop fills.  Each merge also has its read request.\<close>

record write_plan =
  wp_writes :: "(i64 \<times> u8 list) list"
  wp_merges :: "merge_page list"
  wp_direct :: "direct_ssd_merge list"
  wp_pmem :: "(i64 \<times> u8 list) list"
  wp_metadata :: "(i64 \<times> u16 list) list"

definition empty_plan :: write_plan where
  "empty_plan = \<lparr>wp_writes = [], wp_merges = [], wp_direct = [], wp_pmem = [], wp_metadata = []\<rparr>"

definition add_write :: "i64 \<Rightarrow> u8 list \<Rightarrow> write_plan \<Rightarrow> write_plan" where
  "add_write off src p = p\<lparr>wp_writes := wp_writes p @ [(off, src)]\<rparr>"

definition add_pmem_write :: "i64 \<Rightarrow> u8 list \<Rightarrow> write_plan \<Rightarrow> write_plan" where
  "add_pmem_write off src p = p\<lparr>wp_pmem := wp_pmem p @ [(off, src)]\<rparr>"

definition add_metadata :: "i64 \<Rightarrow> u16 list \<Rightarrow> write_plan \<Rightarrow> write_plan" where
  "add_metadata off m p = p\<lparr>wp_metadata := wp_metadata p @ [(off, m)]\<rparr>"

definition add_merge :: "merge_page \<Rightarrow> write_plan \<Rightarrow> write_plan" where
  "add_merge m p = p\<lparr>wp_merges := wp_merges p @ [m]\<rparr>"

definition add_direct :: "direct_ssd_merge \<Rightarrow> write_plan \<Rightarrow> write_plan" where
  "add_direct m p = p\<lparr>wp_direct := wp_direct p @ [m]\<rparr>"

function plan_virtual :: "orchfs_core_block \<Rightarrow> nat \<Rightarrow> u8 list \<Rightarrow> nat \<Rightarrow> write_plan \<Rightarrow> errno + write_plan" where
  "plan_virtual block inside input page_consumed p =
     (if length input \<le> page_consumed then Inr p
      else let position = inside + page_consumed;
               page = position div kPageSize;
               in_page = position mod kPageSize;
               part = min (length input - page_consumed) (kPageSize - in_page)
           in if ORCHFS_CORE_PAGE_COUNT \<le> page \<or> neg64 (cb_nvm_page_offset block page) then Inl EIO
              else plan_virtual block inside input (page_consumed + part)
                     (add_pmem_write (cb_nvm_page_offset block page + of_nat in_page)
                        (take part (drop page_consumed input)) p))"
  by pat_completeness auto
termination by (relation "measure (\<lambda>(block, inside, input, page_consumed, p). length input - page_consumed)") auto

declare plan_virtual.simps [simp del]

text \<open>One part of a strata block that lies in one page.\<close>

definition plan_strata_part ::
  "(nat \<Rightarrow> u8) \<Rightarrow> orchfs_core_block \<Rightarrow> bool \<Rightarrow> nat \<Rightarrow> nat \<Rightarrow> u8 list \<Rightarrow> write_plan \<Rightarrow> errno + write_plan" where
  "plan_strata_part dev block write_full_pages_to_ssd page in_page src p =
     (if ORCHFS_CORE_PAGE_COUNT \<le> page \<or> neg64 (cb_nvm_page_offset block page) \<or>
         neg64 (cb_buffer_metadata_offset block page) then Inl EIO
      else case read_metadata dev (cb_buffer_metadata_offset block page) of
             Inl err \<Rightarrow> Inl err
           | Inr metadata \<Rightarrow>
               if write_full_pages_to_ssd \<and> in_page = 0 \<and> length src = kPageSize
               then Inr (add_metadata (cb_buffer_metadata_offset block page) (replicate kBufferMetadataEntries 0)
                      (add_write (cb_ssd_device_offset block + of_nat (page * kPageSize)) src p))
               else let merge = metadata ! 0 = kMaximumBufferSegments;
                        p = (if merge
                             then add_merge \<lparr>mg_ssd_offset = cb_ssd_device_offset block + of_nat (page * kPageSize),
                                    mg_nvm_offset = cb_nvm_page_offset block page, mg_metadata = metadata\<rparr> p
                             else p);
                        metadata = (if merge then replicate kBufferMetadataEntries 0 else metadata);
                        segment = nat (sint (metadata ! 0));
                        metadata = metadata[0 := metadata ! 0 + 1, 1 + segment * 2 := of_nat in_page,
                          2 + segment * 2 := of_nat (length src)]
                    in Inr (add_metadata (cb_buffer_metadata_offset block page) metadata
                         (add_pmem_write (cb_nvm_page_offset block page + of_nat in_page) src p)))"

function plan_strata ::
  "(nat \<Rightarrow> u8) \<Rightarrow> orchfs_core_block \<Rightarrow> bool \<Rightarrow> nat \<Rightarrow> u8 list \<Rightarrow> nat \<Rightarrow> write_plan \<Rightarrow> errno + write_plan" where
  "plan_strata dev block write_full_pages_to_ssd inside input page_consumed p =
     (if length input \<le> page_consumed then Inr p
      else let position = inside + page_consumed;
               page = position div kPageSize;
               in_page = position mod kPageSize;
               part = min (length input - page_consumed) (kPageSize - in_page)
           in case plan_strata_part dev block write_full_pages_to_ssd page in_page
                     (take part (drop page_consumed input)) p of
                Inl err \<Rightarrow> Inl err
              | Inr p \<Rightarrow> plan_strata dev block write_full_pages_to_ssd inside input (page_consumed + part) p)"
  by pat_completeness auto
termination by (relation "measure (\<lambda>(dev, block, w, inside, input, page_consumed, p). length input - page_consumed)") auto

declare plan_strata.simps [simp del]

text \<open>A whole strata block is overwritten on the SSD and its page buffers are emptied.\<close>

definition clear_metadata :: "orchfs_core_block \<Rightarrow> write_plan \<Rightarrow> write_plan" where
  "clear_metadata block p =
     fold (\<lambda>page p. if \<not> neg64 (cb_buffer_metadata_offset block page)
                     then add_metadata (cb_buffer_metadata_offset block page) (replicate kBufferMetadataEntries 0) p else p)
       [0..<ORCHFS_CORE_PAGE_COUNT] p"

definition plan_block ::
  "(nat \<Rightarrow> u8) \<Rightarrow> orchfs_core_block \<Rightarrow> nat \<Rightarrow> u8 list \<Rightarrow> write_plan \<Rightarrow> errno + write_plan" where
  "plan_block dev block inside input p =
     (let chunk = length input in
      if cb_type block = ORCHFS_CORE_SSD_BLOCK then
        (if neg64 (cb_ssd_device_offset block) \<or> 18446744073709551615 - inside < unat (cb_ssd_device_offset block) then Inl EIO
         else if inside = 0 \<and> chunk = kBlockSize then Inr (add_write (cb_ssd_device_offset block) input p)
         else Inr (add_direct \<lparr>dm_ssd_offset = cb_ssd_device_offset block, dm_inside = inside, dm_source = input\<rparr> p))
      else if cb_type block = ORCHFS_CORE_VIRTUAL_BLOCK then plan_virtual block inside input 0 p
      else if cb_type block = ORCHFS_CORE_STRATA_BLOCK then
        (if neg64 (cb_ssd_device_offset block) then Inl EIO
         else if inside = 0 \<and> chunk = kBlockSize
         then Inr (clear_metadata block (add_write (cb_ssd_device_offset block) input p))
         else let first_full_page = (inside + kPageSize - 1) div kPageSize;
                  full_page_end = (inside + chunk) div kPageSize
              in plan_strata dev block (kStrataSsdPageThreshold \<le> full_page_end - first_full_page) inside input 0 p)
      else Inl EIO)"

text \<open>
  The loop over the blocks; the first block may start inside, the others start at 0.  Each block is the
  mapping that the loop plans with: the one found in the index for an overwrite that keeps the mapping,
  and otherwise the one that \<open>orchfs_core_ensure_strata\<close> returned.
\<close>

fun plan_blocks ::
  "(nat \<Rightarrow> u8) \<Rightarrow> nat \<Rightarrow> orchfs_core_block list \<Rightarrow> u8 list \<Rightarrow> write_plan \<Rightarrow> errno + write_plan" where
  "plan_blocks dev inside [] src p = Inr p"
| "plan_blocks dev inside (block # blocks) src p =
     (let chunk = min (length src) (kBlockSize - inside)
      in case plan_block dev block inside (take chunk src) p of
           Inl err \<Rightarrow> Inl err
         | Inr p \<Rightarrow> plan_blocks dev 0 blocks (drop chunk src) p)"

section \<open>Carrying out the plan\<close>

text \<open>
  What the device does: the error of each batch (0 for success), the requests of a failing batch that
  reached the medium, and whether the reads of a pipelined batch see its writes.
\<close>

record io_outcome =
  io_read :: errno
  io_early :: errno
  io_write :: errno
  io_flush :: errno
  io_reached :: "nat \<Rightarrow> bool"
  io_reads_late :: bool

definition put_all :: "(nat \<times> u8 list) list \<Rightarrow> (nat \<Rightarrow> u8) \<Rightarrow> (nat \<Rightarrow> u8)" where
  "put_all = fold (\<lambda>(off, src) dev. nvm_put dev off src)"

definition at_nat :: "i64 \<times> u8 list \<Rightarrow> nat \<times> u8 list" where
  "at_nat w = (unat (fst w), snd w)"

definition write_batch :: "errno \<Rightarrow> (nat \<Rightarrow> bool) \<Rightarrow> (i64 \<times> u8 list) list \<Rightarrow> (nat \<Rightarrow> u8) \<Rightarrow> (nat \<Rightarrow> u8)" where
  "write_batch err reached ws dev =
     put_all (map at_nat (if err = 0 then ws else map snd (filter (\<lambda>(i, _). reached i) (enumerate 0 ws)))) dev"

fun merge_pages :: "(nat \<Rightarrow> u8) \<Rightarrow> (nat \<Rightarrow> u8) \<Rightarrow> merge_page list \<Rightarrow> errno + (i64 \<times> u8 list) list" where
  "merge_pages src dev [] = Inr []"
| "merge_pages src dev (m # ms) =
     (case overlay_page dev (nvm_get src (unat (mg_ssd_offset m)) kPageSize) (mg_nvm_offset m) (mg_metadata m) of
        Inl err \<Rightarrow> Inl err
      | Inr page \<Rightarrow>
          (case merge_pages src dev ms of Inl err \<Rightarrow> Inl err | Inr ws \<Rightarrow> Inr ((mg_ssd_offset m, page) # ws)))"

definition direct_write :: "(nat \<Rightarrow> u8) \<Rightarrow> direct_ssd_merge \<Rightarrow> i64 \<times> u8 list" where
  "direct_write src m =
     (dm_ssd_offset m, copy_into (nvm_get src (unat (dm_ssd_offset m)) kBlockSize) (dm_inside m) (dm_source m))"

fun pmem_loop :: "(nat \<Rightarrow> u8) \<Rightarrow> (i64 \<times> u8 list) list \<Rightarrow> (nat \<Rightarrow> u8) \<times> errno" where
  "pmem_loop dev [] = (dev, 0)"
| "pmem_loop dev ((off, src) # ws) =
     (case orchfs_core_write_pmem dev off src of (dev, err) \<Rightarrow> if err \<noteq> 0 then (dev, err) else pmem_loop dev ws)"

text \<open>
  The result is the device and either an error or the stores handed to the transaction, which its
  commit performs in order: the metadata, and for a directory also the data.
\<close>

definition execute_plan ::
  "io_outcome \<Rightarrow> bool \<Rightarrow> bool \<Rightarrow> write_plan \<Rightarrow> (nat \<Rightarrow> u8) \<Rightarrow> (nat \<Rightarrow> u8) \<times> (errno + (nat \<times> u8 list) list)" where
  "execute_plan io needs_flush allow_directory p dev0 =
     (let merging = wp_merges p \<noteq> [] \<or> wp_direct p \<noteq> [];
          early = merging \<and> kPipelinedWriteThreshold \<le> sum_list (map (length \<circ> snd) (wp_writes p));
          dev = (if early then write_batch (io_early io) (io_reached io) (wp_writes p) dev0 else dev0);
          src = (if io_reads_late io then dev else dev0)
      in if merging \<and> io_read io \<noteq> 0 then (dev, Inl (io_read io))
         else if early \<and> io_early io \<noteq> 0 then (dev, Inl (io_early io))
         else case merge_pages src dev (wp_merges p) of
                Inl err \<Rightarrow> (dev, Inl err)
              | Inr merged \<Rightarrow>
                  let writes = (if early then [] else wp_writes p) @ merged @ map (direct_write src) (wp_direct p);
                      dev = write_batch (io_write io) (io_reached io) writes dev
                  in if writes \<noteq> [] \<and> io_write io \<noteq> 0 then (dev, Inl (io_write io))
                     else if writes \<noteq> [] \<and> needs_flush \<and> io_flush io \<noteq> 0 then (dev, Inl (io_flush io))
                     else let metadata = map (\<lambda>(off, m). (unat off, metadata_bytes m)) (wp_metadata p)
                          in if allow_directory then (dev, Inr (map at_nat (wp_pmem p) @ metadata))
                             else (case pmem_loop dev (wp_pmem p) of
                                     (dev, err) \<Rightarrow> (dev, if err \<noteq> 0 then Inl err else Inr metadata)))"

section \<open>Reading\<close>

function read_virtual :: "(nat \<Rightarrow> u8) \<Rightarrow> orchfs_core_block \<Rightarrow> nat \<Rightarrow> nat \<Rightarrow> nat \<Rightarrow> errno + u8 list" where
  "read_virtual dev block inside chunk page_consumed =
     (if chunk \<le> page_consumed then Inr []
      else let position = inside + page_consumed;
               page = position div kPageSize;
               in_page = position mod kPageSize;
               part = min (chunk - page_consumed) (kPageSize - in_page)
           in if ORCHFS_CORE_PAGE_COUNT \<le> page \<or> neg64 (cb_nvm_page_offset block page) then Inl EIO
              else case orchfs_core_read_pmem dev (cb_nvm_page_offset block page + of_nat in_page) part of
                     Inl err \<Rightarrow> Inl err
                   | Inr bytes \<Rightarrow>
                       (case read_virtual dev block inside chunk (page_consumed + part) of
                          Inl err \<Rightarrow> Inl err | Inr rest \<Rightarrow> Inr (bytes @ rest)))"
  by pat_completeness auto
termination by (relation "measure (\<lambda>(dev, block, inside, chunk, page_consumed). chunk - page_consumed)") auto

declare read_virtual.simps [simp del]

fun overlay_pages :: "(nat \<Rightarrow> u8) \<Rightarrow> orchfs_core_block \<Rightarrow> nat list \<Rightarrow> u8 list \<Rightarrow> errno + u8 list" where
  "overlay_pages dev block [] bytes = Inr bytes"
| "overlay_pages dev block (page # pages) bytes =
     (if neg64 (cb_nvm_page_offset block page) then overlay_pages dev block pages bytes
      else case read_metadata dev (cb_buffer_metadata_offset block page) of
             Inl err \<Rightarrow> Inl err
           | Inr metadata \<Rightarrow>
               (case overlay_page dev (take kPageSize (drop (page * kPageSize) bytes)) (cb_nvm_page_offset block page) metadata of
                  Inl err \<Rightarrow> Inl err
                | Inr part \<Rightarrow> overlay_pages dev block pages (copy_into bytes (page * kPageSize) part)))"

text \<open>
  The first pass copies the pages of virtual blocks and collects the device reads: whole SSD blocks
  into the destination, other blocks into a scratch buffer.  The second pass runs after the batch.
\<close>

datatype read_item = Copied "u8 list" | Whole_block i64 | Scratch orchfs_core_block nat nat

definition read_request :: "(nat \<Rightarrow> u8) \<Rightarrow> orchfs_core_block \<Rightarrow> nat \<Rightarrow> nat \<Rightarrow> errno + read_item" where
  "read_request dev block inside chunk =
     (if cb_type block = ORCHFS_CORE_VIRTUAL_BLOCK
      then (case read_virtual dev block inside chunk 0 of Inl err \<Rightarrow> Inl err | Inr bytes \<Rightarrow> Inr (Copied bytes))
      else if cb_type block = ORCHFS_CORE_SSD_BLOCK \<and> inside = 0 \<and> chunk = kBlockSize
      then Inr (Whole_block (cb_ssd_device_offset block))
      else if cb_type block = ORCHFS_CORE_SSD_BLOCK \<or> cb_type block = ORCHFS_CORE_STRATA_BLOCK
      then (if neg64 (cb_ssd_device_offset block) then Inl EIO else Inr (Scratch block inside chunk))
      else Inl EIO)"

fun read_requests :: "(nat \<Rightarrow> u8) \<Rightarrow> nat \<Rightarrow> orchfs_core_block list \<Rightarrow> nat \<Rightarrow> errno + read_item list" where
  "read_requests dev inside [] len = Inr []"
| "read_requests dev inside (block # blocks) len =
     (let chunk = min (kBlockSize - inside) len
      in case read_request dev block inside chunk of
           Inl err \<Rightarrow> Inl err
         | Inr item \<Rightarrow>
             (case read_requests dev 0 blocks (len - chunk) of Inl err \<Rightarrow> Inl err | Inr items \<Rightarrow> Inr (item # items)))"

fun read_result :: "(nat \<Rightarrow> u8) \<Rightarrow> read_item \<Rightarrow> errno + u8 list" where
  "read_result dev (Copied bytes) = Inr bytes"
| "read_result dev (Whole_block off) = Inr (nvm_get dev (unat off) kBlockSize)"
| "read_result dev (Scratch block inside chunk) =
     (let bytes = nvm_get dev (unat (cb_ssd_device_offset block)) kBlockSize
      in case (if cb_type block = ORCHFS_CORE_STRATA_BLOCK
               then overlay_pages dev block [0..<ORCHFS_CORE_PAGE_COUNT] bytes else Inr bytes) of
           Inl err \<Rightarrow> Inl err
         | Inr bytes \<Rightarrow> Inr (take chunk (drop inside bytes)))"

fun read_results :: "(nat \<Rightarrow> u8) \<Rightarrow> read_item list \<Rightarrow> errno + u8 list" where
  "read_results dev [] = Inr []"
| "read_results dev (item # items) =
     (case read_result dev item of
        Inl err \<Rightarrow> Inl err
      | Inr bytes \<Rightarrow> (case read_results dev items of Inl err \<Rightarrow> Inl err | Inr rest \<Rightarrow> Inr (bytes @ rest)))"

fun is_copied :: "read_item \<Rightarrow> bool" where
  "is_copied (Copied _) = True"
| "is_copied _ = False"

definition read_blocks :: "errno \<Rightarrow> (nat \<Rightarrow> u8) \<Rightarrow> nat \<Rightarrow> orchfs_core_block list \<Rightarrow> nat \<Rightarrow> errno + u8 list" where
  "read_blocks io_err dev inside blocks len =
     (case read_requests dev inside blocks len of
        Inl err \<Rightarrow> Inl err
      | Inr items \<Rightarrow> if \<not> list_all is_copied items \<and> io_err \<noteq> 0 then Inl io_err else read_results dev items)"

end
