(* ===== verification/Data_Write.thy ===== *)
theory Data_Write
  imports Data_Path
begin

text \<open>
  Correctness of the data path of \<open>Data_Path\<close>.  \<open>block_byte\<close> is the content of a block, whatever its
  kind.  A plan is a batch of stores; two plans that touch different addresses can be carried out one
  after the other, so the effect of a write is followed page by page.
\<close>

section \<open>The content of a block\<close>

definition in_segment :: "u16 list \<Rightarrow> nat \<Rightarrow> nat \<Rightarrow> bool" where
  "in_segment m s k \<longleftrightarrow> nat (sint (m ! (1 + s * 2))) \<le> k \<and> k < nat (sint (m ! (1 + s * 2))) + nat (sint (m ! (2 + s * 2)))"

definition covered :: "u16 list \<Rightarrow> nat \<Rightarrow> bool" where
  "covered m k \<longleftrightarrow> list_ex (\<lambda>s. in_segment m s k) [0..<nat (sint (m ! 0))]"

definition metadata_at :: "(nat \<Rightarrow> u8) \<Rightarrow> i64 \<Rightarrow> u16 list" where
  "metadata_at dev off = metadata_of (nvm_get dev (unat off) kBufferMetadataSize)"

definition block_byte :: "(nat \<Rightarrow> u8) \<Rightarrow> orchfs_core_block \<Rightarrow> nat \<Rightarrow> u8" where
  "block_byte dev b i =
     (let page = i div kPageSize; k = i mod kPageSize; nvm_page = cb_nvm_page_offset b page;
          ssd = unat (cb_ssd_device_offset b)
      in if cb_type b = ORCHFS_CORE_SSD_BLOCK then dev (ssd + i)
         else if cb_type b = ORCHFS_CORE_VIRTUAL_BLOCK then if neg64 nvm_page then 0 else dev (unat nvm_page + k)
         else if \<not> neg64 nvm_page \<and> covered (metadata_at dev (cb_buffer_metadata_offset b page)) k
         then dev (unat nvm_page + k) else dev (ssd + i))"

text \<open>The addresses that hold a page of a block.\<close>

definition ssd_area :: "orchfs_core_block \<Rightarrow> nat \<Rightarrow> nat set" where
  "ssd_area b page = (if cb_type b = ORCHFS_CORE_VIRTUAL_BLOCK then {}
     else {unat (cb_ssd_device_offset b) + kPageSize * page..<unat (cb_ssd_device_offset b) + kPageSize * page + kPageSize})"

definition nvm_area :: "orchfs_core_block \<Rightarrow> nat \<Rightarrow> nat set" where
  "nvm_area b page = (if cb_type b = ORCHFS_CORE_SSD_BLOCK \<or> neg64 (cb_nvm_page_offset b page) then {}
     else {unat (cb_nvm_page_offset b page)..<unat (cb_nvm_page_offset b page) + kPageSize})"

definition meta_area :: "orchfs_core_block \<Rightarrow> nat \<Rightarrow> nat set" where
  "meta_area b page = (if cb_type b \<noteq> ORCHFS_CORE_STRATA_BLOCK \<or> neg64 (cb_buffer_metadata_offset b page) then {}
     else {unat (cb_buffer_metadata_offset b page)..<unat (cb_buffer_metadata_offset b page) + kBufferMetadataSize})"

definition page_area :: "orchfs_core_block \<Rightarrow> nat \<Rightarrow> nat set" where
  "page_area b page = ssd_area b page \<union> nvm_area b page \<union> meta_area b page"

definition block_area :: "orchfs_core_block \<Rightarrow> nat set" where
  "block_area b = (\<Union>page<8. page_area b page)"

definition segments_ok :: "u16 list \<Rightarrow> bool" where
  "segments_ok m \<longleftrightarrow> length m = 64 \<and> 0 \<le> sint (m ! 0) \<and> sint (m ! 0) \<le> 12 \<and>
     (\<forall>s < nat (sint (m ! 0)). 0 \<le> sint (m ! (1 + s * 2)) \<and> 0 \<le> sint (m ! (2 + s * 2)) \<and>
        sint (m ! (1 + s * 2)) + sint (m ! (2 + s * 2)) \<le> 4096)"

definition page_ok :: "(nat \<Rightarrow> u8) \<Rightarrow> orchfs_core_block \<Rightarrow> nat \<Rightarrow> bool" where
  "page_ok dev b page \<longleftrightarrow>
     (cb_type b \<noteq> ORCHFS_CORE_SSD_BLOCK \<and> \<not> neg64 (cb_nvm_page_offset b page) \<longrightarrow>
        unat (cb_nvm_page_offset b page) + kPageSize \<le> pmem_len) \<and>
     (cb_type b = ORCHFS_CORE_STRATA_BLOCK \<longrightarrow>
        (\<not> neg64 (cb_nvm_page_offset b page) \<longrightarrow> \<not> neg64 (cb_buffer_metadata_offset b page)) \<and>
        (\<not> neg64 (cb_buffer_metadata_offset b page) \<longrightarrow>
           unat (cb_buffer_metadata_offset b page) + kBufferMetadataSize \<le> pmem_len \<and>
           segments_ok (metadata_at dev (cb_buffer_metadata_offset b page)) \<and>
           nvm_area b page \<inter> meta_area b page = {}))"

definition block_ok :: "(nat \<Rightarrow> u8) \<Rightarrow> orchfs_core_block \<Rightarrow> bool" where
  "block_ok dev b \<longleftrightarrow> cb_type b \<in> {ORCHFS_CORE_VIRTUAL_BLOCK, ORCHFS_CORE_STRATA_BLOCK, ORCHFS_CORE_SSD_BLOCK} \<and>
     (cb_type b \<noteq> ORCHFS_CORE_VIRTUAL_BLOCK \<longrightarrow> \<not> neg64 (cb_ssd_device_offset b) \<and> pmem_len \<le> unat (cb_ssd_device_offset b)) \<and>
     (\<forall>page<8. page_ok dev b page) \<and>
     (\<forall>page<8. \<forall>other<8. page \<noteq> other \<longrightarrow> page_area b page \<inter> page_area b other = {})"

fun areas_disjoint :: "orchfs_core_block list \<Rightarrow> bool" where
  "areas_disjoint [] \<longleftrightarrow> True"
| "areas_disjoint (b # bs) \<longleftrightarrow> (\<forall>c \<in> set bs. block_area b \<inter> block_area c = {}) \<and> areas_disjoint bs"

definition blocks_ok :: "(nat \<Rightarrow> u8) \<Rightarrow> orchfs_core_block list \<Rightarrow> bool" where
  "blocks_ok dev bs \<longleftrightarrow> (\<forall>b \<in> set bs. block_ok dev b) \<and> areas_disjoint bs"

definition file_byte :: "(nat \<Rightarrow> u8) \<Rightarrow> orchfs_core_block list \<Rightarrow> nat \<Rightarrow> u8" where
  "file_byte dev bs i = block_byte dev (bs ! (i div kBlockSize)) (i mod kBlockSize)"

section \<open>Metadata objects\<close>

lemma le16_length [simp]: "length (le16 w) = 2"
  by (simp add: le16_def)

lemma of_le_le16 [simp]: "of_le [ucast w, ucast (drop_bit 8 w)] = w" for w :: u16
  by (rule bit_word_eqI) (auto simp: bit_or_iff bit_push_bit_iff bit_unsigned_iff bit_drop_bit_eq)

lemma metadata_bytes_length: "length (metadata_bytes m) = 2 * length m"
  by (induction m) (simp_all add: metadata_bytes_def)

lemma metadata_bytes_nth:
  "i < length m \<Longrightarrow> metadata_bytes m ! (2 * i) = ucast (m ! i) \<and> metadata_bytes m ! Suc (2 * i) = ucast (drop_bit 8 (m ! i))"
proof (induction m arbitrary: i)
  case (Cons w m)
  show ?case
  proof (cases i)
    case 0
    then show ?thesis by (simp add: metadata_bytes_def le16_def)
  next
    case (Suc j)
    with Cons show ?thesis by (simp add: metadata_bytes_def nth_append le16_def)
  qed
qed simp

lemma metadata_roundtrip: "length m = 64 \<Longrightarrow> metadata_of (metadata_bytes m) = m"
  by (rule nth_equalityI) (simp_all add: metadata_of_def metadata_bytes_nth del: of_le.simps)

lemma metadata_of_length [simp]: "length (metadata_of bs) = 64"
  by (simp add: metadata_of_def)

lemma metadata_at_length [simp]: "length (metadata_at dev off) = 64"
  by (simp add: metadata_at_def)

lemma nvm_get_same: "(\<And>a. off \<le> a \<Longrightarrow> a < off + n \<Longrightarrow> g a = h a) \<Longrightarrow> nvm_get g off n = nvm_get h off n"
  by (simp add: nvm_get_def)

lemma metadata_at_cong:
  "(\<And>a. unat off \<le> a \<Longrightarrow> a < unat off + 128 \<Longrightarrow> dev a = dev' a) \<Longrightarrow> metadata_at dev off = metadata_at dev' off"
  unfolding metadata_at_def by (simp cong: nvm_get_same)

lemma covered_empty: "length m = 64 \<Longrightarrow> m ! 0 = 0 \<Longrightarrow> \<not> covered m k"
  by (simp add: covered_def)

lemma read_metadata_ok: "read_metadata dev off = Inr m \<Longrightarrow> m = metadata_at dev off"
  by (auto simp: read_metadata_def orchfs_core_read_pmem_def metadata_at_def Let_def split: if_splits)

section \<open>Overlaying a page\<close>

lemma copy_into_length: "pos + length src \<le> length dst \<Longrightarrow> length (copy_into dst pos src) = length dst"
  by (simp add: copy_into_def)

lemma copy_into_nth:
  "pos + length src \<le> length dst \<Longrightarrow> k < length dst \<Longrightarrow>
    copy_into dst pos src ! k = (if pos \<le> k \<and> k < pos + length src then src ! (k - pos) else dst ! k)"
  by (auto simp: copy_into_def nth_append min_def)

lemma overlay_loop_spec:
  "overlay_loop cached m ss dst = Inr r \<Longrightarrow> length cached = length dst \<Longrightarrow>
    length r = length dst \<and> (\<forall>k < length dst. r ! k = (if \<exists>s \<in> set ss. in_segment m s k then cached ! k else dst ! k))"
proof (induction ss arbitrary: dst)
  case (Cons s ss)
  define start len where "start = nat (sint (m ! (1 + s * 2)))" and "len = nat (sint (m ! (2 + s * 2)))"
  let ?d = "copy_into dst start (take len (drop start cached))"
  have fit: "start + len \<le> length dst" and rec: "overlay_loop cached m ss ?d = Inr r"
    using Cons.prems(1) by (auto simp: start_def len_def Let_def split: if_splits)
  have l: "length (take len (drop start cached)) = len" using fit Cons.prems(2) by simp
  have d: "length ?d = length dst" using fit l by (simp add: copy_into_length)
  have nth: "?d ! k = (if in_segment m s k then cached ! k else dst ! k)" if "k < length dst" for k
  proof -
    have "in_segment m s k \<longleftrightarrow> start \<le> k \<and> k < start + len" by (simp add: in_segment_def start_def len_def)
    then show ?thesis using fit l that Cons.prems(2) by (auto simp: copy_into_nth)
  qed
  show ?case using Cons.IH [OF rec] Cons.prems(2) d nth by auto
qed simp

lemma overlay_page_spec:
  assumes "overlay_page dev dst nvm_offset m = Inr r"
  shows "length dst = 4096 \<and> length r = 4096 \<and> valid_pmem_range nvm_offset 4096 \<and>
    (\<forall>k<4096. r ! k = (if covered m k then dev (unat nvm_offset + k) else dst ! k))"
proof -
  have len: "length dst = 4096" and v: "valid_pmem_range nvm_offset 4096"
    and ov: "overlay_loop (nvm_get dev (unat nvm_offset) 4096) m [0..<nat (sint (m ! 0))] dst = Inr r"
    using assms by (auto simp: overlay_page_def orchfs_core_read_pmem_def split: if_splits)
  show ?thesis
    using overlay_loop_spec [OF ov] len v by (auto simp: covered_def list_ex_iff nvm_get_def)
qed

lemma overlay_loop_ok:
  assumes "\<forall>s \<in> set ss. s < nat (sint (m ! 0))" "segments_ok m" "length cached = 4096"
  shows "length dst = 4096 \<Longrightarrow> \<exists>r. overlay_loop cached m ss dst = Inr r"
  using assms(1)
proof (induction ss arbitrary: dst)
  case (Cons s ss)
  have s: "0 \<le> sint (m ! (1 + s * 2))" "0 \<le> sint (m ! (2 + s * 2))" "sint (m ! (1 + s * 2)) + sint (m ! (2 + s * 2)) \<le> 4096"
    using Cons.prems(2) assms(2) by (auto simp: segments_ok_def)
  then have "length (copy_into dst (nat (sint (m ! (1 + s * 2)))) (take (nat (sint (m ! (2 + s * 2)))) (drop (nat (sint (m ! (1 + s * 2)))) cached))) = 4096"
    using Cons.prems(1) assms(3) by (simp add: copy_into_def min_def nat_le_iff)
  then show ?case using Cons.IH Cons.prems s by (auto simp: Let_def nat_le_iff)
qed simp

section \<open>Batches of stores\<close>

definition op_area :: "nat \<times> u8 list \<Rightarrow> nat set" where
  "op_area w = {fst w..<fst w + length (snd w)}"

definition ops_area :: "(nat \<times> u8 list) list \<Rightarrow> nat set" where
  "ops_area ws = \<Union> (op_area ` set ws)"

lemma ops_area_simps [simp]:
  "ops_area [] = {}" "ops_area (w # ws) = op_area w \<union> ops_area ws" "ops_area (vs @ ws) = ops_area vs \<union> ops_area ws"
  by (auto simp: ops_area_def)

lemma put_all_simps [simp]:
  "put_all [] dev = dev" "put_all (w # ws) dev = put_all ws (nvm_put dev (fst w) (snd w))"
  "put_all (vs @ ws) dev = put_all ws (put_all vs dev)"
  by (simp_all add: put_all_def split_beta)

lemma nvm_put_out: "a \<notin> op_area w \<Longrightarrow> nvm_put dev (fst w) (snd w) a = dev a"
  by (auto simp: nvm_put_def op_area_def)

lemma put_all_out: "a \<notin> ops_area ws \<Longrightarrow> put_all ws dev a = dev a"
  by (induction ws arbitrary: dev) (auto simp: nvm_put_out)

lemma put_all_base: "dev a = dev' a \<Longrightarrow> put_all ws dev a = put_all ws dev' a"
proof (induction ws arbitrary: dev dev')
  case (Cons w ws)
  then have "nvm_put dev (fst w) (snd w) a = nvm_put dev' (fst w) (snd w) a" by (simp add: nvm_put_def)
  then show ?case unfolding put_all_simps by (rule Cons.IH)
qed simp

text \<open>The effect of a plan, when no request fails and the transaction commits.\<close>

definition merge_op :: "(nat \<Rightarrow> u8) \<Rightarrow> merge_page \<Rightarrow> nat \<times> u8 list" where
  "merge_op dev m = (unat (mg_ssd_offset m),
     map (\<lambda>k. if covered (mg_metadata m) k then dev (unat (mg_nvm_offset m) + k) else dev (unat (mg_ssd_offset m) + k)) [0..<4096])"

definition meta_op :: "i64 \<times> u16 list \<Rightarrow> nat \<times> u8 list" where
  "meta_op w = (unat (fst w), metadata_bytes (snd w))"

definition plan_ops :: "write_plan \<Rightarrow> (nat \<Rightarrow> u8) \<Rightarrow> (nat \<times> u8 list) list" where
  "plan_ops p dev = map at_nat (wp_writes p) @ map (merge_op dev) (wp_merges p) @
     map (\<lambda>m. at_nat (direct_write dev m)) (wp_direct p) @ map at_nat (wp_pmem p) @ map meta_op (wp_metadata p)"

definition exec :: "write_plan \<Rightarrow> (nat \<Rightarrow> u8) \<Rightarrow> (nat \<Rightarrow> u8)" where
  "exec p dev = put_all (plan_ops p dev) dev"

definition merge_area :: "merge_page \<Rightarrow> nat set" where
  "merge_area m = {unat (mg_ssd_offset m)..<unat (mg_ssd_offset m) + 4096} \<union> {unat (mg_nvm_offset m)..<unat (mg_nvm_offset m) + 4096}"

definition direct_area :: "direct_ssd_merge \<Rightarrow> nat set" where
  "direct_area m = {unat (dm_ssd_offset m)..<unat (dm_ssd_offset m) + 32768}"

definition read_area :: "write_plan \<Rightarrow> nat set" where
  "read_area p = \<Union> (merge_area ` set (wp_merges p)) \<union> \<Union> (direct_area ` set (wp_direct p))"

definition plan_area :: "write_plan \<Rightarrow> nat set" where
  "plan_area p = ops_area (map at_nat (wp_writes p)) \<union> read_area p \<union> ops_area (map at_nat (wp_pmem p)) \<union>
     ops_area (map meta_op (wp_metadata p))"

text \<open>A plan whose early stores do not disturb its reads.\<close>

definition plan_ok :: "write_plan \<Rightarrow> bool" where
  "plan_ok p \<longleftrightarrow> ops_area (map at_nat (wp_writes p)) \<inter> read_area p = {} \<and>
     (\<forall>m \<in> set (wp_direct p). dm_inside m + length (dm_source m) \<le> 32768)"

definition join :: "write_plan \<Rightarrow> write_plan \<Rightarrow> write_plan" where
  "join p q = \<lparr>wp_writes = wp_writes p @ wp_writes q, wp_merges = wp_merges p @ wp_merges q,
     wp_direct = wp_direct p @ wp_direct q, wp_pmem = wp_pmem p @ wp_pmem q, wp_metadata = wp_metadata p @ wp_metadata q\<rparr>"

lemma join_simps [simp]: "join empty_plan p = p" "join p empty_plan = p" "join (join p q) r = join p (join q r)"
  by (simp_all add: join_def empty_plan_def)

lemma join_area: "plan_area (join p q) = plan_area p \<union> plan_area q" "read_area (join p q) = read_area p \<union> read_area q"
  by (auto simp: plan_area_def read_area_def join_def)

lemma empty_plan_area [simp]: "plan_area empty_plan = {}" "read_area empty_plan = {}" "plan_ok empty_plan" "exec empty_plan dev = dev"
  by (simp_all add: plan_area_def read_area_def empty_plan_def plan_ok_def exec_def plan_ops_def)

lemma plan_ok_join: "plan_ok p \<Longrightarrow> plan_ok q \<Longrightarrow> plan_area p \<inter> plan_area q = {} \<Longrightarrow> plan_ok (join p q)"
  unfolding plan_ok_def plan_area_def join_area by (auto simp: join_def)

lemma merge_op_area: "op_area (merge_op dev m) \<subseteq> merge_area m"
  by (auto simp: op_area_def merge_op_def merge_area_def)

lemma direct_op_area:
  "dm_inside m + length (dm_source m) \<le> 32768 \<Longrightarrow> op_area (at_nat (direct_write dev m)) = direct_area m"
  by (simp add: op_area_def at_nat_def direct_write_def direct_area_def copy_into_length)

lemma ops_area_subset: "(\<And>x. x \<in> set xs \<Longrightarrow> op_area (f x) \<subseteq> A) \<Longrightarrow> ops_area (map f xs) \<subseteq> A"
  by (auto simp: ops_area_def)

lemma read_ops_area:
  assumes "plan_ok p"
  shows "ops_area (map (merge_op dev) (wp_merges p)) \<subseteq> read_area p"
    and "ops_area (map (\<lambda>m. at_nat (direct_write dev m)) (wp_direct p)) \<subseteq> read_area p"
  by (rule ops_area_subset, use merge_op_area in \<open>fastforce simp: read_area_def\<close>)
    (rule ops_area_subset, use assms in \<open>auto simp: read_area_def plan_ok_def direct_op_area\<close>)

lemma plan_ops_area: "plan_ok p \<Longrightarrow> ops_area (plan_ops p dev) \<subseteq> plan_area p"
  using read_ops_area [of p dev] by (auto simp: plan_ops_def plan_area_def)

lemma exec_out: "plan_ok p \<Longrightarrow> a \<notin> plan_area p \<Longrightarrow> exec p dev a = dev a"
  using plan_ops_area [of p dev] by (auto simp: exec_def intro!: put_all_out)

lemma exec_same:
  assumes "plan_ok q" "plan_area q \<subseteq> A" "A \<inter> B = {}" "a \<in> B"
  shows "dev a = exec q dev a"
proof -
  have "a \<notin> plan_area q" using assms(2-4) by blast
  then show ?thesis using exec_out [OF assms(1)] by simp
qed

lemma plan_ops_cong:
  assumes "\<And>a. a \<in> read_area p \<Longrightarrow> dev a = dev' a"
  shows "plan_ops p dev = plan_ops p dev'"
proof -
  have "merge_op dev m = merge_op dev' m" if "m \<in> set (wp_merges p)" for m
  proof -
    have "merge_area m \<subseteq> read_area p" using that by (auto simp: read_area_def)
    then have "dev a = dev' a" if "a \<in> merge_area m" for a using that assms by blast
    then show ?thesis by (simp add: merge_op_def merge_area_def)
  qed
  moreover have "direct_write dev m = direct_write dev' m" if "m \<in> set (wp_direct p)" for m
  proof -
    have "nvm_get dev (unat (dm_ssd_offset m)) 32768 = nvm_get dev' (unat (dm_ssd_offset m)) 32768"
      using that assms by (intro nvm_get_same) (auto simp: read_area_def direct_area_def)
    then show ?thesis by (simp add: direct_write_def)
  qed
  ultimately show ?thesis by (simp add: plan_ops_def)
qed

text \<open>Plans with separate areas are carried out one after the other.\<close>

lemma exec_join:
  assumes "plan_ok p" "plan_ok q" "plan_area p \<inter> plan_area q = {}"
  shows "exec (join p q) dev = exec q (exec p dev)"
proof
  fix a
  have same: "plan_ops q (exec p dev) = plan_ops q dev"
    using assms by (intro plan_ops_cong exec_out) (auto simp: plan_area_def)
  note out = subsetD [OF plan_ops_area [OF assms(1), of dev]] subsetD [OF plan_ops_area [OF assms(2), of dev]]
  show "exec (join p q) dev a = exec q (exec p dev) a"
  proof (cases "a \<in> plan_area q")
    case True
    then have "a \<notin> ops_area (plan_ops p dev)" using out(1) [of a] assms(3) by blast
    then have "exec (join p q) dev a = put_all (plan_ops q dev) dev a" "exec p dev a = dev a"
      by (auto simp: exec_def plan_ops_def join_def put_all_out intro!: put_all_base)
    then show ?thesis unfolding exec_def [of q] same by (metis put_all_base)
  next
    case False
    then have "a \<notin> ops_area (plan_ops q dev)" using out(2) [of a] by blast
    then have "exec (join p q) dev a = put_all (plan_ops p dev) dev a"
      by (auto simp: exec_def plan_ops_def join_def put_all_out intro!: put_all_base)
    then show ?thesis using False assms(2) by (simp add: exec_out exec_def [of p])
  qed
qed

section \<open>Plans accumulate\<close>

definition accum :: "(write_plan \<Rightarrow> errno + write_plan) \<Rightarrow> bool" where
  "accum f \<longleftrightarrow> (\<forall>p. f p = map_sum id (join p) (f empty_plan))"

lemma accumD: "accum f \<Longrightarrow> f p = map_sum id (join p) (f empty_plan)"
  unfolding accum_def by blast

lemma accum_bind:
  assumes "accum f" "accum g"
  shows "accum (\<lambda>p. case f p of Inl e \<Rightarrow> Inl e | Inr q \<Rightarrow> g q)"
  unfolding accum_def
proof
  fix p
  show "(case f p of Inl e \<Rightarrow> Inl e | Inr q \<Rightarrow> g q) = map_sum id (join p) (case f empty_plan of Inl e \<Rightarrow> Inl e | Inr q \<Rightarrow> g q)"
  proof (cases "f empty_plan")
    case (Inr q)
    show ?thesis
      using accumD [OF assms(1), of p] accumD [OF assms(2), of "join p q"] accumD [OF assms(2), of q] Inr
      by (cases "g empty_plan") simp_all
  qed (simp add: accumD [OF assms(1), of p])
qed

lemma accum_bind_empty:
  assumes "(case f empty_plan of Inl e \<Rightarrow> Inl e | Inr q \<Rightarrow> g q) = Inr r" "accum g"
  obtains u v where "f empty_plan = Inr u" "g empty_plan = Inr v" "r = join u v"
proof (cases "f empty_plan")
  case (Inr u)
  then have "map_sum id (join u) (g empty_plan) = Inr r" using assms(1) accumD [OF assms(2), of u] by simp
  then show ?thesis using that Inr by (cases "g empty_plan") auto
qed (use assms(1) in simp)

lemma accum_Inr [simp]: "accum Inr" "accum (\<lambda>_. Inl e)"
  by (simp_all add: accum_def)

lemma accum_steps:
  assumes "accum f"
  shows "accum (\<lambda>p. f (add_write off src p))" "accum (\<lambda>p. f (add_pmem_write off src p))"
    "accum (\<lambda>p. f (add_metadata off m p))" "accum (\<lambda>p. f (add_merge g p))" "accum (\<lambda>p. f (add_direct d p))"
proof -
  have *: "accum (\<lambda>p. f (h p))" if "\<And>p. h p = join p (h empty_plan)" for h
  proof -
    have "accum (\<lambda>p. Inr (h p))" unfolding accum_def map_sum.simps using that by blast
    from accum_bind [OF this assms] show ?thesis by simp
  qed
  show "accum (\<lambda>p. f (add_write off src p))" "accum (\<lambda>p. f (add_pmem_write off src p))"
    "accum (\<lambda>p. f (add_metadata off m p))" "accum (\<lambda>p. f (add_merge g p))" "accum (\<lambda>p. f (add_direct d p))"
    by (rule *; simp add: add_write_def add_pmem_write_def add_metadata_def add_merge_def add_direct_def join_def empty_plan_def)+
qed

lemmas add_defs = add_write_def add_pmem_write_def add_metadata_def add_merge_def add_direct_def

lemma strata_part_accum: "accum (plan_strata_part dev b w page in_page src)"
  unfolding accum_def by (auto simp: plan_strata_part_def Let_def add_defs join_def empty_plan_def split: sum.splits)

section \<open>The loop over the pages of a block\<close>

definition page_effect :: "(nat \<Rightarrow> u8) \<Rightarrow> write_plan \<Rightarrow> orchfs_core_block \<Rightarrow> nat \<Rightarrow> nat \<Rightarrow> u8 list \<Rightarrow> bool" where
  "page_effect dev q b page lo src \<longleftrightarrow> plan_ok q \<and> plan_area q \<subseteq> page_area b page \<and> page_ok (exec q dev) b page \<and>
     (\<forall>k<4096. block_byte (exec q dev) b (4096 * page + k) =
        (if lo \<le> k \<and> k < lo + length src then src ! (k - lo) else block_byte dev b (4096 * page + k)))"

definition block_effect :: "(nat \<Rightarrow> u8) \<Rightarrow> write_plan \<Rightarrow> orchfs_core_block \<Rightarrow> nat \<Rightarrow> u8 list \<Rightarrow> bool" where
  "block_effect dev q b lo src \<longleftrightarrow> plan_ok q \<and> plan_area q \<subseteq> block_area b \<and> block_ok (exec q dev) b \<and>
     (\<forall>i<32768. block_byte (exec q dev) b i =
        (if lo \<le> i \<and> i < lo + length src then src ! (i - lo) else block_byte dev b i))"

lemma block_byte_cong:
  assumes "block_ok dev b" "i < 32768" "\<And>a. a \<in> page_area b (i div 4096) \<Longrightarrow> dev a = dev' a"
  shows "block_byte dev b i = block_byte dev' b i"
proof -
  define page k where "page = i div 4096" and "k = i mod 4096"
  have i: "i = 4096 * page + k" "k < 4096" "page < 8" using assms(2) by (simp_all add: page_def k_def)
  have pg: "page_ok dev b page" using assms(1) i(3) by (simp add: block_ok_def)
  have ssd: "dev (unat (cb_ssd_device_offset b) + i) = dev' (unat (cb_ssd_device_offset b) + i)" if "cb_type b \<noteq> 3"
    using that i assms(3) by (auto simp: page_area_def ssd_area_def page_def [symmetric])
  have nvm: "dev (unat (cb_nvm_page_offset b page) + k) = dev' (unat (cb_nvm_page_offset b page) + k)"
    if "cb_type b \<noteq> 5" "\<not> neg64 (cb_nvm_page_offset b page)"
    using that i assms(3) by (auto simp: page_area_def nvm_area_def page_def [symmetric])
  have meta: "metadata_at dev (cb_buffer_metadata_offset b page) = metadata_at dev' (cb_buffer_metadata_offset b page)"
    if "cb_type b = 4" "\<not> neg64 (cb_nvm_page_offset b page)"
    using that pg assms(3) by (intro metadata_at_cong) (auto simp: page_area_def meta_area_def page_ok_def page_def [symmetric])
  have "cb_type b \<in> {3, 4, 5}" using assms(1) by (simp add: block_ok_def)
  then show ?thesis
    using ssd nvm meta by (auto simp: block_byte_def Let_def page_def [symmetric] k_def [symmetric])
qed

lemma page_ok_cong:
  assumes "page_ok dev b page" "\<And>a. a \<in> page_area b page \<Longrightarrow> dev a = dev' a"
  shows "page_ok dev' b page"
proof -
  have "metadata_at dev (cb_buffer_metadata_offset b page) = metadata_at dev' (cb_buffer_metadata_offset b page)"
    if "cb_type b = 4" "\<not> neg64 (cb_buffer_metadata_offset b page)"
    using that assms(2) by (intro metadata_at_cong) (auto simp: page_area_def meta_area_def)
  then show ?thesis using assms(1) by (auto simp: page_ok_def)
qed

lemma block_ok_page:
  assumes "block_ok dev b" "page < 8" "page_effect dev q b page lo src"
  shows "block_ok (exec q dev) b"
proof -
  have ok: "plan_ok q" and sub: "plan_area q \<subseteq> page_area b page" and pg: "page_ok (exec q dev) b page"
    using assms(3) by (auto simp: page_effect_def)
  have "page_ok (exec q dev) b other" if "other < 8" for other
  proof (cases "other = page")
    case False
    then have sep: "page_area b page \<inter> page_area b other = {}" using assms(1,2) that by (simp add: block_ok_def)
    have "page_ok dev b other" using assms(1) that by (simp add: block_ok_def)
    then show ?thesis by (rule page_ok_cong [OF _ exec_same [OF ok sub sep]])
  qed (use pg in simp)
  then show ?thesis using assms(1) by (simp add: block_ok_def)
qed

lemma page_to_block:
  assumes "block_ok dev b" "page < 8" "lo + length src \<le> 4096" "page_effect dev q b page lo src"
  shows "block_effect dev q b (4096 * page + lo) src"
proof -
  have ok: "plan_ok q" and sub: "plan_area q \<subseteq> page_area b page"
    and eff: "\<And>k. k < 4096 \<Longrightarrow> block_byte (exec q dev) b (4096 * page + k) =
        (if lo \<le> k \<and> k < lo + length src then src ! (k - lo) else block_byte dev b (4096 * page + k))"
    using assms(4) by (auto simp: page_effect_def)
  have "block_byte (exec q dev) b i =
      (if 4096 * page + lo \<le> i \<and> i < 4096 * page + lo + length src then src ! (i - (4096 * page + lo)) else block_byte dev b i)"
    if i: "i < 32768" for i
  proof (cases "i div 4096 = page")
    case True
    then obtain k where "i = 4096 * page + k" "k < 4096" by (metis mod_less_divisor mult_div_mod_eq zero_less_numeral)
    then show ?thesis using eff [of k] by auto
  next
    case False
    then have sep: "page_area b page \<inter> page_area b (i div 4096) = {}" using assms(1,2) i by (simp add: block_ok_def)
    have "block_byte dev b i = block_byte (exec q dev) b i"
      by (rule block_byte_cong [OF assms(1) i], rule exec_same [OF ok sub sep])
    moreover have "\<not> (4096 * page + lo \<le> i \<and> i < 4096 * page + lo + length src)"
    proof
      assume "4096 * page + lo \<le> i \<and> i < 4096 * page + lo + length src"
      then have "i div 4096 = page" using assms(3) by (intro div_nat_eqI) auto
      then show False using False by simp
    qed
    ultimately show ?thesis by (simp only: if_False)
  qed
  moreover have "page_area b page \<subseteq> block_area b" using assms(2) by (auto simp: block_area_def)
  ultimately show ?thesis
    using ok sub block_ok_page [OF assms(1,2,4)] by (auto simp: block_effect_def)
qed

text \<open>Effects on one block, one after the other.\<close>

lemma block_effect_join:
  assumes "block_effect dev u b lo xs" "block_effect (exec u dev) v b (lo + length xs) ys" "plan_area u \<inter> plan_area v = {}"
  shows "block_effect dev (join u v) b lo (xs @ ys)"
proof -
  have ok: "plan_ok u" "plan_ok v" using assms(1,2) by (simp_all add: block_effect_def)
  have "exec (join u v) dev = exec v (exec u dev)" by (rule exec_join [OF ok assms(3)])
  then show ?thesis
    using assms plan_ok_join [OF ok assms(3)] by (auto simp: block_effect_def join_area nth_append)
qed

lemma block_effect_empty: "block_ok dev b \<Longrightarrow> block_effect dev empty_plan b lo []"
  by (auto simp: block_effect_def)

function plan_parts :: "(nat \<Rightarrow> nat \<Rightarrow> u8 list \<Rightarrow> write_plan \<Rightarrow> errno + write_plan) \<Rightarrow> nat \<Rightarrow> u8 list \<Rightarrow> write_plan \<Rightarrow> errno + write_plan" where
  "plan_parts f position src p =
     (if src = [] then Inr p
      else let part = min (length src) (4096 - position mod 4096)
           in case f (position div 4096) (position mod 4096) (take part src) p of
                Inl err \<Rightarrow> Inl err | Inr p \<Rightarrow> plan_parts f (position + part) (drop part src) p)"
  by pat_completeness auto
termination by (relation "measure (\<lambda>(f, position, src, p). length src)") (auto simp: min_def)

declare plan_parts.simps [simp del]

definition pages_from :: "orchfs_core_block \<Rightarrow> nat \<Rightarrow> nat set" where
  "pages_from b page = (\<Union>p \<in> {page..<8}. page_area b p)"

lemma pages_from_mono: "page \<le> other \<Longrightarrow> pages_from b other \<subseteq> pages_from b page"
  by (fastforce simp: pages_from_def)

text \<open>A planner of page parts, and what its loop achieves.\<close>

locale page_planner =
  fixes part :: "(nat \<Rightarrow> u8) \<Rightarrow> orchfs_core_block \<Rightarrow> nat \<Rightarrow> nat \<Rightarrow> u8 list \<Rightarrow> write_plan \<Rightarrow> errno + write_plan"
    and kind :: i64
  assumes part_accum: "accum (part dev b page in_page src)"
    and part_cong: "cb_type b = kind \<Longrightarrow> (\<And>a. a \<in> page_area b page \<Longrightarrow> dev a = dev' a) \<Longrightarrow>
      part dev b page in_page src p = part dev' b page in_page src p"
    and part_effect: "block_ok dev b \<Longrightarrow> cb_type b = kind \<Longrightarrow> src \<noteq> [] \<Longrightarrow> in_page + length src \<le> 4096 \<Longrightarrow>
      part dev b page in_page src empty_plan = Inr q \<Longrightarrow> page < 8 \<and> page_effect dev q b page in_page src"
begin

lemma parts_accum: "accum (plan_parts (part dev b) position src)"
proof (induction "length src" arbitrary: position src rule: less_induct)
  case less
  define n where "n = min (length src) (4096 - position mod 4096)"
  show ?case
  proof (cases "src = []")
    case True
    then show ?thesis by (simp add: plan_parts.simps [abs_def] accum_def)
  next
    case False
    then have "length (drop n src) < length src" by (auto simp: n_def min_def)
    from accum_bind [OF part_accum [of dev b "position div 4096" "position mod 4096" "take n src"] less [OF this, of "position + n"]]
    show ?thesis using False by (simp add: plan_parts.simps [of _ position src, abs_def] Let_def n_def [symmetric])
  qed
qed

lemma parts_cong:
  assumes "cb_type b = kind" "position + length src \<le> 32768" "\<And>a. a \<in> pages_from b (position div 4096) \<Longrightarrow> dev a = dev' a"
  shows "plan_parts (part dev b) position src p = plan_parts (part dev' b) position src p"
  using assms(2,3)
proof (induction "length src" arbitrary: position src p rule: less_induct)
  case less
  define n where "n = min (length src) (4096 - position mod 4096)"
  show ?case
  proof (cases "src = []")
    case False
    then have n: "0 < n" "n \<le> length src" by (simp_all add: n_def)
    have pg: "position div 4096 < 8" using False less.prems(1) by (cases src) auto
    have part: "part dev b (position div 4096) (position mod 4096) (take n src) p =
        part dev' b (position div 4096) (position mod 4096) (take n src) p"
    proof (rule part_cong [OF assms(1)])
      fix a assume "a \<in> page_area b (position div 4096)"
      then have "a \<in> pages_from b (position div 4096)" using pg by (auto simp: pages_from_def)
      then show "dev a = dev' a" by (rule less.prems(2))
    qed
    have le: "pages_from b ((position + n) div 4096) \<subseteq> pages_from b (position div 4096)"
      by (intro pages_from_mono div_le_mono) simp
    have "plan_parts (part dev b) (position + n) (drop n src) q = plan_parts (part dev' b) (position + n) (drop n src) q" for q
      using n less.prems(1) subsetD [OF le] less.prems(2) by (intro less.hyps) auto
    then show ?thesis using part by (simp add: plan_parts.simps [of _ position] Let_def n_def split: sum.split)
  qed (simp add: plan_parts.simps)
qed

lemma parts_effect:
  assumes "plan_parts (part dev b) position src empty_plan = Inr q" "block_ok dev b" "cb_type b = kind" "position + length src \<le> 32768"
  shows "block_effect dev q b position src \<and> plan_area q \<subseteq> pages_from b (position div 4096)"
  using assms
proof (induction "length src" arbitrary: dev position src q rule: less_induct)
  case less
  define page k where "page = position div 4096" and "k = position mod 4096"
  define n where "n = min (length src) (4096 - k)"
  have pos: "position = 4096 * page + k" "k < 4096" by (simp_all add: page_def k_def)
  show ?case
  proof (cases "src = []")
    case True
    then show ?thesis using less.prems block_effect_empty by (simp add: plan_parts.simps [of _ position])
  next
    case False
    have n: "0 < n" "n \<le> length src" "k + n \<le> 4096" using False pos(2) by (auto simp: n_def k_def min_def)
    have "(case part dev b page k (take n src) empty_plan of Inl err \<Rightarrow> Inl err
        | Inr p \<Rightarrow> plan_parts (part dev b) (position + n) (drop n src) p) = Inr q"
      using less.prems(1) False
      by (simp add: plan_parts.simps [of _ position src] Let_def n_def [symmetric] page_def [symmetric] k_def [symmetric])
    then obtain u v where u: "part dev b page k (take n src) empty_plan = Inr u"
      and v: "plan_parts (part dev b) (position + n) (drop n src) empty_plan = Inr v" and q: "q = join u v"
      using parts_accum by (rule accum_bind_empty)
    have pg: "page < 8" and ue: "page_effect dev u b page k (take n src)"
      using part_effect [OF less.prems(2,3) _ _ u] False n by auto
    have ub: "block_effect dev u b position (take n src)" and ua: "plan_ok u" "plan_area u \<subseteq> page_area b page"
      using page_to_block [OF less.prems(2) pg _ ue] ue n pos by (simp_all add: page_effect_def)
    have sub: "page_area b page \<subseteq> pages_from b page" using pg by (auto simp: pages_from_def)
    show ?thesis
    proof (cases "drop n src = []")
      case True
      then have "q = u" using v q by (simp add: plan_parts.simps)
      moreover have "take n src = src" using True n by simp
      ultimately show ?thesis using ub ua(2) sub page_def by auto
    next
      case False
      then have full: "k + n = 4096" using n by (auto simp: n_def k_def min_def split: if_splits)
      then have next_pg: "(position + n) div 4096 = Suc page" using pos by simp
      have ok': "block_ok (exec u dev) b" using ub by (simp add: block_effect_def)
      have sep: "page_area b page \<inter> pages_from b (Suc page) = {}"
      proof -
        have "page_area b page \<inter> page_area b other = {}" if "Suc page \<le> other" "other < 8" for other
          using less.prems(2) pg that by (simp add: block_ok_def)
        then show ?thesis by (simp add: pages_from_def Int_UN_distrib)
      qed
      have same: "plan_parts (part dev b) (position + n) (drop n src) empty_plan = plan_parts (part (exec u dev) b) (position + n) (drop n src) empty_plan"
        using less.prems(4) n by (intro parts_cong [OF less.prems(3)], simp, unfold next_pg) (rule exec_same [OF ua sep])
      have vv: "block_effect (exec u dev) v b (position + n) (drop n src) \<and> plan_area v \<subseteq> pages_from b (Suc page)"
        using less.hyps [of "drop n src" "exec u dev" "position + n" v] v same ok' less.prems(3,4) n next_pg by simp
      moreover have "plan_area u \<inter> plan_area v = {}" using vv ua sep by blast
      moreover have "length (take n src) = n" "take n src @ drop n src = src" using n by simp_all
      ultimately have "block_effect dev q b position src"
        using block_effect_join [OF ub, of v "drop n src"] q by metis
      moreover have "plan_area q \<subseteq> pages_from b page"
        using calculation ua sub pages_from_mono [of page "Suc page" b] vv q by (auto simp: join_area)
      ultimately show ?thesis by (simp add: page_def)
    qed
  qed
qed

end

section \<open>Parts of virtual and strata blocks\<close>

lemma page_addr:
  assumes "unat x + 4096 \<le> pmem_len" "k \<le> 4096"
  shows "unat (x + of_nat k :: i64) = unat x + k"
proof -
  have "unat (of_nat k :: i64) = k" using assms(2) by (intro unat_of_nat64) simp
  then show ?thesis using assms pmem_len_aligned(2) by (subst unat_add64) simp_all
qed

lemma ssd_addr:
  assumes "\<not> neg64 x" "page < 8"
  shows "unat (x + of_nat (page * 4096) :: i64) = unat x + 4096 * page"
proof -
  have "unat (of_nat (page * 4096) :: i64) = page * 4096" using assms(2) by (intro unat_of_nat64) simp
  moreover have "unat x < 2 ^ 63" using assms(1) by (simp add: neg64_iff)
  ultimately show ?thesis using assms(2) by (subst unat_add64) simp_all
qed

lemma exec_pmem:
  "exec (add_pmem_write off src empty_plan) dev = nvm_put dev (unat off) src"
  "plan_ok (add_pmem_write off src empty_plan)"
  "plan_area (add_pmem_write off src empty_plan) = {unat off..<unat off + length src}"
  by (simp_all add: exec_def plan_ops_def add_defs empty_plan_def at_nat_def plan_ok_def plan_area_def read_area_def op_area_def)

definition virtual_part ::
  "(nat \<Rightarrow> u8) \<Rightarrow> orchfs_core_block \<Rightarrow> nat \<Rightarrow> nat \<Rightarrow> u8 list \<Rightarrow> write_plan \<Rightarrow> errno + write_plan" where
  "virtual_part dev b page in_page src p =
     (if 8 \<le> page \<or> neg64 (cb_nvm_page_offset b page) then Inl EIO
      else Inr (add_pmem_write (cb_nvm_page_offset b page + of_nat in_page) src p))"

lemma plan_virtual_parts: "plan_virtual b inside input pc p = plan_parts (virtual_part dev b) (inside + pc) (drop pc input) p"
proof (induction b inside input pc p rule: plan_virtual.induct)
  case (1 b inside input pc p)
  show ?case
  proof (cases "length input \<le> pc")
    case True
    then show ?thesis by (simp add: plan_virtual.simps plan_parts.simps)
  next
    case False
    then show ?thesis
      using "1.IH" [OF False refl refl refl refl]
      by (simp add: plan_virtual.simps [of b inside input pc] plan_parts.simps [of _ "inside + pc"] virtual_part_def Let_def ac_simps)
  qed
qed

lemma virtual_part_effect:
  assumes "block_ok dev b" "cb_type b = 3" "in_page + length src \<le> 4096" "virtual_part dev b page in_page src empty_plan = Inr q"
  shows "page < 8 \<and> page_effect dev q b page in_page src"
proof -
  define N where "N = unat (cb_nvm_page_offset b page)"
  have pg: "page < 8" "\<not> neg64 (cb_nvm_page_offset b page)"
    and q: "q = add_pmem_write (cb_nvm_page_offset b page + of_nat in_page) src empty_plan"
    using assms(4) by (auto simp: virtual_part_def split: if_splits)
  have ok: "page_ok dev b page" using assms(1) pg by (simp add: block_ok_def)
  then have N: "N + 4096 \<le> pmem_len" using pg assms(2) by (simp add: page_ok_def N_def)
  then have a: "unat (cb_nvm_page_offset b page + of_nat in_page) = N + in_page"
    unfolding N_def using assms(3) by (intro page_addr) simp_all
  have byte: "block_byte d b (4096 * page + k) = d (N + k)" if "k < 4096" for d k
    using that assms(2) pg by (simp add: block_byte_def Let_def N_def)
  have "plan_area q \<subseteq> page_area b page"
    using assms(2,3) pg unfolding q exec_pmem a by (auto simp: page_area_def nvm_area_def N_def)
  moreover have "page_ok (exec q dev) b page" using ok assms(2) by (simp add: page_ok_def)
  moreover have "block_byte (exec q dev) b (4096 * page + k) =
      (if in_page \<le> k \<and> k < in_page + length src then src ! (k - in_page) else block_byte dev b (4096 * page + k))" if "k < 4096" for k
    unfolding byte [OF that] unfolding q exec_pmem a by (auto simp: nvm_put_def)
  ultimately show ?thesis using pg q exec_pmem(2) by (auto simp: page_effect_def)
qed

text \<open>Appending a segment to a metadata object.\<close>

definition push_segment :: "u16 list \<Rightarrow> nat \<Rightarrow> nat \<Rightarrow> u16 list" where
  "push_segment m lo len =
     m[0 := m ! 0 + 1, 1 + nat (sint (m ! 0)) * 2 := of_nat lo, 2 + nat (sint (m ! 0)) * 2 := of_nat len]"

lemma sint_small16: "n \<le> 4096 \<Longrightarrow> sint (of_nat n :: u16) = int n"
  by (simp add: sint_uint unsigned_of_nat take_bit_nat_eq_self signed_take_bit_int_eq_self)

lemma sint_succ16: "0 \<le> sint w \<Longrightarrow> sint w < 12 \<Longrightarrow> sint (w + 1) = sint w + 1" for w :: u16
proof -
  assume a: "0 \<le> sint w" "sint w < 12"
  have "w = of_nat (nat (sint w))" using a(1) by simp
  then have "w + 1 = of_nat (Suc (nat (sint w)))" by (metis Suc_eq_plus1 of_nat_1 of_nat_add)
  then show ?thesis using sint_small16 [of "Suc (nat (sint w))"] a by (simp add: add.commute nat_le_iff)
qed

lemma push_entries:
  assumes m: "segments_ok m" and room: "sint (m ! 0) < 12" and fits: "lo + len \<le> 4096"
  shows "length (push_segment m lo len) = 64" "sint (push_segment m lo len ! 0) = sint (m ! 0) + 1"
  "s = nat (sint (m ! 0)) \<Longrightarrow> sint (push_segment m lo len ! (1 + s * 2)) = int lo \<and> sint (push_segment m lo len ! (2 + s * 2)) = int len"
  "s < nat (sint (m ! 0)) \<Longrightarrow> push_segment m lo len ! (1 + s * 2) = m ! (1 + s * 2) \<and> push_segment m lo len ! (2 + s * 2) = m ! (2 + s * 2)"
proof -
  have c: "0 \<le> sint (m ! 0)" "length m = 64" "nat (sint (m ! 0)) < 12" using m room by (auto simp: segments_ok_def)
  show "length (push_segment m lo len) = 64" using c by (simp add: push_segment_def)
  show "sint (push_segment m lo len ! 0) = sint (m ! 0) + 1" using c room by (simp add: push_segment_def sint_succ16)
  show "s = nat (sint (m ! 0)) \<Longrightarrow> sint (push_segment m lo len ! (1 + s * 2)) = int lo \<and> sint (push_segment m lo len ! (2 + s * 2)) = int len"
    using c fits by (simp add: push_segment_def nth_list_update sint_small16)
  show "s < nat (sint (m ! 0)) \<Longrightarrow> push_segment m lo len ! (1 + s * 2) = m ! (1 + s * 2) \<and> push_segment m lo len ! (2 + s * 2) = m ! (2 + s * 2)"
    using c by (simp add: push_segment_def nth_list_update)
qed

lemma push_covered:
  assumes m: "segments_ok m" and room: "sint (m ! 0) < 12" and fits: "lo + len \<le> 4096"
  shows "covered (push_segment m lo len) k \<longleftrightarrow> covered m k \<or> lo \<le> k \<and> k < lo + len"
proof -
  note push_entries = push_entries [OF assms]
  define c where "c = nat (sint (m ! 0))"
  have "nat (sint (push_segment m lo len ! 0)) = Suc c" using push_entries(2) m by (simp add: c_def segments_ok_def nat_add_distrib)
  moreover have "in_segment (push_segment m lo len) s k \<longleftrightarrow> in_segment m s k" if "s < c" for s
    using push_entries(4) [of s] that by (simp add: in_segment_def c_def)
  moreover have "in_segment (push_segment m lo len) c k \<longleftrightarrow> lo \<le> k \<and> k < lo + len"
    using push_entries(3) [of c] by (simp add: in_segment_def c_def)
  ultimately show ?thesis by (auto simp: covered_def list_ex_iff c_def [symmetric] less_Suc_eq)
qed

lemma push_ok:
  assumes m: "segments_ok m" and room: "sint (m ! 0) < 12" and fits: "lo + len \<le> 4096"
  shows "segments_ok (push_segment m lo len)"
proof -
  note push_entries = push_entries [OF assms]
  define c where "c = nat (sint (m ! 0))"
  have "nat (sint (push_segment m lo len ! 0)) = Suc c" using push_entries(2) m by (simp add: c_def segments_ok_def nat_add_distrib)
  then show ?thesis
    using push_entries m room fits by (auto simp: segments_ok_def c_def less_Suc_eq)
qed

lemma put_metadata: "length m = 64 \<Longrightarrow> metadata_at (nvm_put d (unat off) (metadata_bytes m)) off = m"
proof -
  assume m: "length m = 64"
  then have "nvm_get (nvm_put d (unat off) (metadata_bytes m)) (unat off) 128 = metadata_bytes m"
    by (intro nth_equalityI) (auto simp: nvm_get_def nvm_put_def metadata_bytes_length)
  then show ?thesis using m by (simp add: metadata_at_def metadata_roundtrip)
qed

lemma zero_metadata: "segments_ok (replicate 64 0)" "\<not> covered (replicate 64 0) k"
  by (simp_all add: segments_ok_def covered_def)

text \<open>The three places of a page of a strata block, for the proof about one part.\<close>

definition strata_place :: "orchfs_core_block \<Rightarrow> nat \<Rightarrow> nat \<Rightarrow> nat \<Rightarrow> nat \<Rightarrow> bool" where
  "strata_place b page S N M \<longleftrightarrow> cb_type b = 4 \<and> page < 8 \<and> \<not> neg64 (cb_nvm_page_offset b page) \<and>
     \<not> neg64 (cb_buffer_metadata_offset b page) \<and> S = unat (cb_ssd_device_offset b) + 4096 * page \<and>
     N = unat (cb_nvm_page_offset b page) \<and> M = unat (cb_buffer_metadata_offset b page) \<and>
     N + 4096 \<le> S \<and> M + 128 \<le> S \<and> (N + 4096 \<le> M \<or> M + 128 \<le> N)"

lemma strata_placeI:
  assumes "block_ok dev b" "cb_type b = 4" "page < 8" "\<not> neg64 (cb_nvm_page_offset b page)" "\<not> neg64 (cb_buffer_metadata_offset b page)"
  obtains S N M where "strata_place b page S N M" "N + 4096 \<le> pmem_len" "\<not> neg64 (cb_ssd_device_offset b)"
    "segments_ok (metadata_at dev (cb_buffer_metadata_offset b page))"
proof -
  define S N M where "S = unat (cb_ssd_device_offset b) + 4096 * page" and "N = unat (cb_nvm_page_offset b page)"
    and "M = unat (cb_buffer_metadata_offset b page)"
  have ok: "page_ok dev b page" and ssd: "\<not> neg64 (cb_ssd_device_offset b)" "pmem_len \<le> S"
    using assms by (auto simp: block_ok_def S_def)
  have le: "N + 4096 \<le> pmem_len" "M + 128 \<le> pmem_len" and dis: "{N..<N + 4096} \<inter> {M..<M + 128} = {}"
    and seg: "segments_ok (metadata_at dev (cb_buffer_metadata_offset b page))"
    using ok assms by (auto simp: page_ok_def N_def M_def nvm_area_def meta_area_def)
  have "N + 4096 \<le> M \<or> M + 128 \<le> N"
  proof (rule ccontr)
    assume "\<not> ?thesis"
    then have "max N M \<in> {N..<N + 4096} \<inter> {M..<M + 128}" by auto
    then show False using dis by blast
  qed
  then show ?thesis using that [of S N M] assms ssd le seg by (auto simp: strata_place_def S_def N_def M_def)
qed

lemma strata_byte:
  "strata_place b page S N M \<Longrightarrow> k < 4096 \<Longrightarrow>
    block_byte d b (4096 * page + k) = (if covered (metadata_at d (cb_buffer_metadata_offset b page)) k then d (N + k) else d (S + k))"
  by (simp add: strata_place_def block_byte_def Let_def add.assoc)

lemma strata_page_ok:
  assumes "strata_place b page S N M" "page_ok dev b page" "segments_ok (metadata_at d (cb_buffer_metadata_offset b page))"
  shows "page_ok d b page"
  using assms by (auto simp: strata_place_def page_ok_def)

lemma strata_area:
  assumes "strata_place b page S N M"
  shows "page_area b page = {S..<S + 4096} \<union> {N..<N + 4096} \<union> {M..<M + 128}"
  using assms by (auto simp: strata_place_def page_area_def ssd_area_def nvm_area_def meta_area_def)

text \<open>A full page written to the SSD.\<close>

lemma strata_full_effect:
  assumes pl: "strata_place b page S N M" and "page_ok dev b page" "length src = 4096" "unat so = S"
    and q: "q = add_metadata (cb_buffer_metadata_offset b page) (replicate 64 0) (add_write so src empty_plan)"
  shows "page_effect dev q b page 0 src"
proof -
  have M: "unat (cb_buffer_metadata_offset b page) = M" using pl by (simp add: strata_place_def)
  have ex: "exec q dev = nvm_put (nvm_put dev S src) M (metadata_bytes (replicate 64 0))"
    by (simp add: q exec_def plan_ops_def add_defs empty_plan_def at_nat_def meta_op_def assms(4) M)
  have area: "plan_ok q" "plan_area q = {S..<S + 4096} \<union> {M..<M + 128}"
    by (simp_all add: q plan_ok_def plan_area_def read_area_def add_defs empty_plan_def op_area_def at_nat_def meta_op_def
        metadata_bytes_length assms(3,4) M)
  have md: "metadata_at (exec q dev) (cb_buffer_metadata_offset b page) = replicate 64 0"
    unfolding ex M [symmetric] by (rule put_metadata) simp
  have "exec q dev (S + k) = src ! k" if "k < 4096" for k
    using pl that assms(3) unfolding ex by (auto simp: nvm_put_def metadata_bytes_length strata_place_def)
  then show ?thesis
    using area strata_area [OF pl] strata_page_ok [OF pl assms(2), of "exec q dev"] zero_metadata assms(3)
    by (auto simp: page_effect_def strata_byte [OF pl] md)
qed

text \<open>A part kept in the page buffer, after the older segments were merged into the SSD if need be.\<close>

lemma strata_buffer_effect:
  assumes pl: "strata_place b page S N M" and "page_ok dev b page" "in_page + length src \<le> 4096"
    and ad: "unat so = S" "unat no = N + in_page"
    and m: "m = metadata_at dev (cb_buffer_metadata_offset b page)" "segments_ok m"
    and g: "g = \<lparr>mg_ssd_offset = so, mg_nvm_offset = cb_nvm_page_offset b page, mg_metadata = m\<rparr>"
    and base: "base = (if m ! 0 = 12 then replicate 64 0 else m)"
    and q: "q = add_metadata (cb_buffer_metadata_offset b page) (push_segment base in_page (length src))
      (add_pmem_write no src (if m ! 0 = 12 then add_merge g empty_plan else empty_plan))"
  shows "page_effect dev q b page in_page src"
proof -
  have MN: "unat (cb_buffer_metadata_offset b page) = M" "unat (cb_nvm_page_offset b page) = N"
    using pl by (simp_all add: strata_place_def)
  define old where "old = (\<lambda>k. if covered m k then dev (N + k) else dev (S + k))"
  define d1 where "d1 = (if m ! 0 = 12 then nvm_put dev S (map old [0..<4096]) else dev)"
  have "sint (m ! 0) \<noteq> 12" if "m ! 0 \<noteq> 12"
  proof
    assume "sint (m ! 0) = 12"
    then have "m ! 0 = 12" by (intro signed_word_eqI) simp
    then show False using that by simp
  qed
  then have bs: "segments_ok base" "sint (base ! 0) < 12" using m(2) zero_metadata(1) by (auto simp: base segments_ok_def)
  define m' where "m' = push_segment base in_page (length src)"
  have m': "length m' = 64" "segments_ok m'" "\<And>k. covered m' k \<longleftrightarrow> covered base k \<or> in_page \<le> k \<and> k < in_page + length src"
    unfolding m'_def using push_entries(1) [OF bs assms(3)] push_ok [OF bs assms(3)] push_covered [OF bs assms(3)] by auto
  have "merge_op dev g = (S, map old [0..<4096])" by (simp add: merge_op_def old_def g ad MN cong: if_cong)
  then have ex: "exec q dev = nvm_put (nvm_put d1 (N + in_page) src) M (metadata_bytes m')"
    by (auto simp: q exec_def plan_ops_def add_defs empty_plan_def at_nat_def meta_op_def d1_def ad MN m'_def)
  have area: "plan_ok q" "plan_area q \<subseteq> {S..<S + 4096} \<union> {N..<N + 4096} \<union> {M..<M + 128}"
    using assms(3) m'(1) by (auto simp: q plan_ok_def plan_area_def read_area_def merge_area_def add_defs empty_plan_def op_area_def
        at_nat_def meta_op_def metadata_bytes_length g ad MN m'_def)
  have md: "metadata_at (exec q dev) (cb_buffer_metadata_offset b page) = m'"
    unfolding ex MN(1) [symmetric] by (rule put_metadata [OF m'(1)])
  have nvm: "exec q dev (N + k) = (if in_page \<le> k \<and> k < in_page + length src then src ! (k - in_page) else dev (N + k))"
    and ssd: "exec q dev (S + k) = (if m ! 0 = 12 then old k else dev (S + k))" if "k < 4096" for k
    using pl that assms(3) m'(1) unfolding ex by (auto simp: nvm_put_def metadata_bytes_length strata_place_def d1_def)
  have "block_byte (exec q dev) b (4096 * page + k) =
      (if in_page \<le> k \<and> k < in_page + length src then src ! (k - in_page) else block_byte dev b (4096 * page + k))" if "k < 4096" for k
    unfolding strata_byte [OF pl that] md m' nvm [OF that] ssd [OF that] m(1) [symmetric]
    using zero_metadata(2) [of k] by (auto simp: base old_def)
  then show ?thesis
    using area strata_area [OF pl] strata_page_ok [OF pl assms(2), of "exec q dev"] m'(2) by (auto simp: page_effect_def md)
qed

lemma strata_part_effect:
  assumes ok: "block_ok dev b" and ty: "cb_type b = 4" and le: "in_page + length src \<le> 4096"
    and part: "plan_strata_part dev b w page in_page src empty_plan = Inr q"
  shows "page < 8 \<and> page_effect dev q b page in_page src"
proof -
  define m where "m = metadata_at dev (cb_buffer_metadata_offset b page)"
  have pg: "page < 8" "\<not> neg64 (cb_nvm_page_offset b page)" "\<not> neg64 (cb_buffer_metadata_offset b page)"
    and rd: "read_metadata dev (cb_buffer_metadata_offset b page) = Inr m"
    using part unfolding m_def by (auto simp: plan_strata_part_def dest: read_metadata_ok split: if_splits sum.splits)
  obtain S N M where pl: "strata_place b page S N M" and N: "N + 4096 \<le> pmem_len"
    and ssd: "\<not> neg64 (cb_ssd_device_offset b)" and seg: "segments_ok m"
    unfolding m_def using strata_placeI [OF ok ty pg] by metis
  have page: "page_ok dev b page" using ok pg by (simp add: block_ok_def)
  have so: "unat (cb_ssd_device_offset b + of_nat (page * 4096)) = S"
    using ssd_addr [OF ssd pg(1)] pl by (simp add: strata_place_def)
  have no: "unat (cb_nvm_page_offset b page + of_nat in_page) = N + in_page"
    using page_addr [of "cb_nvm_page_offset b page" in_page] N le pl by (simp add: strata_place_def)
  show ?thesis
  proof (cases "w \<and> in_page = 0 \<and> length src = 4096")
    case True
    then have "q = add_metadata (cb_buffer_metadata_offset b page) (replicate 64 0)
        (add_write (cb_ssd_device_offset b + of_nat (page * 4096)) src empty_plan)"
      using part pg rd by (simp add: plan_strata_part_def)
    then show ?thesis using strata_full_effect [OF pl page _ so] True pg by simp
  next
    case False
    then have "q = add_metadata (cb_buffer_metadata_offset b page)
        (push_segment (if m ! 0 = 12 then replicate 64 0 else m) in_page (length src))
        (add_pmem_write (cb_nvm_page_offset b page + of_nat in_page) src
          (if m ! 0 = 12 then add_merge \<lparr>mg_ssd_offset = cb_ssd_device_offset b + of_nat (page * 4096),
             mg_nvm_offset = cb_nvm_page_offset b page, mg_metadata = m\<rparr> empty_plan else empty_plan))"
      using part pg rd by (auto simp: plan_strata_part_def push_segment_def Let_def)
    from strata_buffer_effect [OF pl page le so no m_def seg refl refl this] show ?thesis using pg by simp
  qed
qed

lemma strata_part_cong:
  assumes "cb_type b = 4" "\<And>a. a \<in> page_area b page \<Longrightarrow> dev a = dev' a"
  shows "plan_strata_part dev b w page in_page src p = plan_strata_part dev' b w page in_page src p"
proof (cases "neg64 (cb_buffer_metadata_offset b page)")
  case False
  then have "nvm_get dev (unat (cb_buffer_metadata_offset b page)) 128 = nvm_get dev' (unat (cb_buffer_metadata_offset b page)) 128"
    using assms by (intro nvm_get_same) (auto simp: page_area_def meta_area_def)
  then have "read_metadata dev (cb_buffer_metadata_offset b page) = read_metadata dev' (cb_buffer_metadata_offset b page)"
    by (simp add: read_metadata_def orchfs_core_read_pmem_def)
  then show ?thesis by (simp add: plan_strata_part_def)
qed (simp add: plan_strata_part_def)

interpretation virtual: page_planner virtual_part 3
proof
  show "accum (virtual_part dev b page in_page src)" for dev b page in_page src
    by (auto simp: accum_def virtual_part_def add_defs join_def empty_plan_def)
qed (simp add: virtual_part_def, use virtual_part_effect in blast)

interpretation strata: page_planner "\<lambda>dev b. plan_strata_part dev b w" 4 for w
proof
  show "accum (plan_strata_part dev b w page in_page src)" for dev b page in_page src by (rule strata_part_accum)
qed (rule strata_part_cong, assumption, blast, use strata_part_effect in blast)

lemma plan_strata_parts:
  "plan_strata dev b w inside input pc p = plan_parts (plan_strata_part dev b w) (inside + pc) (drop pc input) p"
proof (induction dev b w inside input pc p rule: plan_strata.induct)
  case (1 dev b w inside input pc p)
  show ?case
  proof (cases "length input \<le> pc")
    case True
    then show ?thesis by (simp add: plan_strata.simps plan_parts.simps)
  next
    case False
    then show ?thesis
      using "1.IH" [OF False refl refl refl refl]
      by (simp add: plan_strata.simps [of dev b w inside input pc] plan_parts.simps [of _ "inside + pc"] Let_def ac_simps
          split: sum.split)
  qed
qed

section \<open>Whole blocks\<close>

lemma ssd_block_area:
  assumes "cb_type b \<noteq> 3"
  shows "{unat (cb_ssd_device_offset b)..<unat (cb_ssd_device_offset b) + 32768} \<subseteq> block_area b"
proof
  fix a assume a: "a \<in> {unat (cb_ssd_device_offset b)..<unat (cb_ssd_device_offset b) + 32768}"
  define i where "i = a - unat (cb_ssd_device_offset b)"
  have i: "a = unat (cb_ssd_device_offset b) + i" "i < 32768" using a by (auto simp: i_def)
  then have "a \<in> ssd_area b (i div 4096)" using assms by (simp add: ssd_area_def)
  moreover have "i div 4096 < 8" using i(2) by (simp add: less_mult_imp_div_less)
  ultimately show "a \<in> block_area b" by (auto simp: block_area_def page_area_def)
qed

lemma ssd_block_effect:
  assumes ok: "block_ok dev b" and ty: "cb_type b = 5" and le: "inside + length src \<le> 32768"
    and q: "plan_ok q" "plan_area q \<subseteq> {unat (cb_ssd_device_offset b)..<unat (cb_ssd_device_offset b) + 32768}"
    and ex: "\<And>i. i < 32768 \<Longrightarrow> exec q dev (unat (cb_ssd_device_offset b) + i) =
      (if inside \<le> i \<and> i < inside + length src then src ! (i - inside) else dev (unat (cb_ssd_device_offset b) + i))"
  shows "block_effect dev q b inside src"
proof -
  have "block_ok (exec q dev) b" using ok ty by (simp add: block_ok_def page_ok_def)
  then show ?thesis using q ex ssd_block_area [of b] ty by (auto simp: block_effect_def block_byte_def)
qed

lemma whole_write_effect:
  assumes "block_ok dev b" "cb_type b = 5" "length src = 32768"
  shows "block_effect dev (add_write (cb_ssd_device_offset b) src empty_plan) b 0 src"
  using assms
  by (intro ssd_block_effect) (simp_all add: plan_ok_def plan_area_def read_area_def exec_def plan_ops_def add_defs empty_plan_def
      op_area_def at_nat_def nvm_put_def)

lemma direct_merge_effect:
  assumes "block_ok dev b" "cb_type b = 5" "inside + length src \<le> 32768"
  shows "block_effect dev (add_direct \<lparr>dm_ssd_offset = cb_ssd_device_offset b, dm_inside = inside, dm_source = src\<rparr> empty_plan) b inside src"
  using assms
  by (intro ssd_block_effect) (simp_all add: plan_ok_def plan_area_def read_area_def direct_area_def exec_def plan_ops_def add_defs
      empty_plan_def at_nat_def direct_write_def nvm_put_def copy_into_length copy_into_nth nvm_get_def)

lemma clear_metadata_eq:
  "clear_metadata b p = p\<lparr>wp_metadata := wp_metadata p @
     map (\<lambda>page. (cb_buffer_metadata_offset b page, replicate 64 0)) (filter (\<lambda>page. \<not> neg64 (cb_buffer_metadata_offset b page)) [0..<8])\<rparr>"
proof -
  have "fold (\<lambda>page p. if \<not> neg64 (cb_buffer_metadata_offset b page)
        then add_metadata (cb_buffer_metadata_offset b page) (replicate 64 0) p else p) ps p = p\<lparr>wp_metadata := wp_metadata p @
     map (\<lambda>page. (cb_buffer_metadata_offset b page, replicate 64 0)) (filter (\<lambda>page. \<not> neg64 (cb_buffer_metadata_offset b page)) ps)\<rparr>" for ps
    by (induction ps arbitrary: p) (simp_all add: add_metadata_def)
  then show ?thesis by (simp add: clear_metadata_def)
qed

lemma put_all_zero:
  "\<forall>w \<in> set ws. set (snd w) \<subseteq> {0} \<Longrightarrow> a \<in> ops_area ws \<Longrightarrow> put_all ws dev a = 0"
proof (induction ws arbitrary: dev)
  case (Cons w ws)
  show ?case
  proof (cases "a \<in> ops_area ws")
    case False
    then have "a \<in> op_area w" using Cons.prems by simp
    then have "snd w ! (a - fst w) \<in> set (snd w)" by (auto simp: op_area_def)
    then show ?thesis using False Cons.prems \<open>a \<in> op_area w\<close> by (auto simp: put_all_out nvm_put_def op_area_def)
  qed (use Cons in simp)
qed simp

lemma zero_bytes: "metadata_bytes (replicate 64 0) = replicate 128 0" "metadata_of (replicate 128 0) = replicate 64 0"
proof -
  have "metadata_bytes (replicate n 0) = replicate (2 * n) 0" for n
    by (induction n) (simp_all add: metadata_bytes_def le16_def)
  then show "metadata_bytes (replicate 64 0) = replicate 128 0" by simp
  then show "metadata_of (replicate 128 0) = replicate 64 0" by (metis length_replicate metadata_roundtrip)
qed

lemma strata_whole_effect:
  assumes ok: "block_ok dev b" and ty: "cb_type b = 4" and len: "length src = 32768"
  shows "block_effect dev (clear_metadata b (add_write (cb_ssd_device_offset b) src empty_plan)) b 0 src"
proof -
  define q where "q = clear_metadata b (add_write (cb_ssd_device_offset b) src empty_plan)"
  define S where "S = unat (cb_ssd_device_offset b)"
  define ms where "ms = map (\<lambda>page. (unat (cb_buffer_metadata_offset b page), replicate 128 0 :: u8 list))
    (filter (\<lambda>page. \<not> neg64 (cb_buffer_metadata_offset b page)) [0..<8])"
  have ex: "exec q dev = put_all ms (nvm_put dev S src)"
    by (simp add: q_def exec_def plan_ops_def clear_metadata_eq add_defs empty_plan_def at_nat_def meta_op_def zero_bytes comp_def S_def ms_def)
  have S: "pmem_len \<le> S" using ok ty by (simp add: block_ok_def S_def)
  have area: "plan_ok q" "plan_area q = {S..<S + 32768} \<union> ops_area ms"
    by (simp_all add: q_def plan_ok_def plan_area_def read_area_def clear_metadata_eq add_defs empty_plan_def op_area_def at_nat_def
        meta_op_def zero_bytes comp_def S_def ms_def len)
  have ms_sub: "ops_area ms \<subseteq> block_area b \<inter> {..<pmem_len}"
  proof
    fix a assume "a \<in> ops_area ms"
    then obtain page where p: "page < 8" "\<not> neg64 (cb_buffer_metadata_offset b page)"
      "a \<in> {unat (cb_buffer_metadata_offset b page)..<unat (cb_buffer_metadata_offset b page) + 128}"
      by (auto simp: ops_area_def op_area_def ms_def)
    moreover have "page_ok dev b page" using ok p by (simp add: block_ok_def)
    ultimately show "a \<in> block_area b \<inter> {..<pmem_len}"
      using ty by (auto simp: block_area_def page_area_def meta_area_def page_ok_def)
  qed
  have md: "metadata_at (exec q dev) (cb_buffer_metadata_offset b page) = replicate 64 0"
    if "page < 8" "\<not> neg64 (cb_buffer_metadata_offset b page)" for page
  proof -
    have "exec q dev a = 0" if "unat (cb_buffer_metadata_offset b page) \<le> a" "a < unat (cb_buffer_metadata_offset b page) + 128" for a
      unfolding ex
    proof (rule put_all_zero)
      show "a \<in> ops_area ms" using that \<open>page < 8\<close> \<open>\<not> neg64 _\<close> by (auto simp: ops_area_def op_area_def ms_def)
    qed (simp add: ms_def)
    then have "nvm_get (exec q dev) (unat (cb_buffer_metadata_offset b page)) 128 = replicate 128 0"
      by (intro nth_equalityI) (simp_all add: nvm_get_def)
    then show ?thesis by (simp add: metadata_at_def zero_bytes)
  qed
  have pages: "page_ok (exec q dev) b page" if "page < 8" for page
    using ok that ty md [OF that] zero_metadata(1) by (auto simp: block_ok_def page_ok_def)
  have ssd: "exec q dev (S + i) = src ! i" if "i < 32768" for i
    using that S ms_sub unfolding ex by (subst put_all_out) (auto simp: nvm_put_def len)
  have "block_byte (exec q dev) b i = src ! i" if "i < 32768" for i
  proof -
    have pg: "i div 4096 < 8" using that by (simp add: less_mult_imp_div_less)
    then have "page_ok dev b (i div 4096)" using ok by (simp add: block_ok_def)
    then have "\<not> neg64 (cb_buffer_metadata_offset b (i div 4096))" if "\<not> neg64 (cb_nvm_page_offset b (i div 4096))"
      using that ty by (simp add: page_ok_def)
    then show ?thesis using ty ssd [OF that] md [OF pg] zero_metadata(2) by (auto simp: block_byte_def Let_def S_def)
  qed
  then show ?thesis
    using area pages ok ms_sub ssd_block_area [of b] ty len unfolding q_def [symmetric] S_def [symmetric]
    by (auto simp: block_effect_def block_ok_def)
qed

section \<open>A write over several blocks\<close>

lemma plan_block_accum: "accum (plan_block dev b inside input)"
  unfolding accum_def
proof
  fix p
  have "accum (plan_virtual b inside input 0)"
    unfolding plan_virtual_parts [of b inside input 0 _ dev, abs_def] by (rule virtual.parts_accum)
  note v = accumD [OF this, of p]
  have "accum (plan_strata dev b w inside input 0)" for w
    unfolding plan_strata_parts [abs_def] by (rule strata.parts_accum)
  note s = accumD [OF this, where p = p]
  have a: "add_write off src p = join p (add_write off src empty_plan)" "add_direct d p = join p (add_direct d empty_plan)"
    "clear_metadata b (join p r) = join p (clear_metadata b r)" for off src d r
    by (simp_all add: clear_metadata_eq add_defs join_def empty_plan_def)
  show "plan_block dev b inside input p = map_sum id (join p) (plan_block dev b inside input empty_plan)"
    by (simp add: plan_block_def Let_def v s a)
qed

lemma plan_block_effect:
  assumes "block_ok dev b" "inside + length input \<le> 32768" "plan_block dev b inside input empty_plan = Inr q"
  shows "block_effect dev q b inside input"
proof -
  have "cb_type b = 5 \<or> cb_type b = 3 \<or> cb_type b = 4" using assms(1) by (auto simp: block_ok_def)
  then show ?thesis
  proof (elim disjE)
    assume ty: "cb_type b = 5"
    then show ?thesis
      using assms whole_write_effect [OF assms(1) ty] direct_merge_effect [OF assms(1) ty assms(2)]
      by (auto simp: plan_block_def Let_def split: if_splits)
  next
    assume ty: "cb_type b = 3"
    then have "plan_parts (virtual_part dev b) inside input empty_plan = Inr q"
      using assms(3) by (simp add: plan_block_def plan_virtual_parts [of b inside input 0 _ dev])
    then show ?thesis using virtual.parts_effect [OF _ assms(1) ty assms(2)] by simp
  next
    assume ty: "cb_type b = 4"
    show ?thesis
    proof (cases "inside = 0 \<and> length input = 32768")
      case True
      then have "q = clear_metadata b (add_write (cb_ssd_device_offset b) input empty_plan)"
        using assms(3) ty by (simp add: plan_block_def split: if_splits)
      then show ?thesis using strata_whole_effect [OF assms(1) ty] True by simp
    next
      case False
      then obtain w where "plan_parts (plan_strata_part dev b w) inside input empty_plan = Inr q"
        using assms(3) ty by (auto simp: plan_block_def plan_strata_parts Let_def split: if_splits)
      then show ?thesis using strata.parts_effect [OF _ assms(1) ty assms(2)] by simp
    qed
  qed
qed

lemma plan_block_cong:
  assumes "inside + length input \<le> 32768" "\<And>a. a \<in> block_area b \<Longrightarrow> dev a = dev' a"
  shows "plan_block dev b inside input p = plan_block dev' b inside input p"
proof (cases "cb_type b = 4")
  case True
  have "pages_from b (inside div 4096) \<subseteq> block_area b" by (auto simp: pages_from_def block_area_def)
  then have "plan_parts (plan_strata_part dev b w) inside input p = plan_parts (plan_strata_part dev' b w) inside input p" for w
    using assms by (intro strata.parts_cong [OF True]) auto
  then show ?thesis using True by (simp add: plan_block_def plan_strata_parts Let_def)
qed (simp add: plan_block_def Let_def)

lemma block_ok_cong:
  assumes "block_ok dev b" "\<And>a. a \<in> block_area b \<Longrightarrow> dev a = dev' a"
  shows "block_ok dev' b"
proof -
  have "page_ok dev' b page" if "page < 8" for page
  proof (rule page_ok_cong [of dev])
    show "page_ok dev b page" using assms(1) that by (simp add: block_ok_def)
    show "dev a = dev' a" if "a \<in> page_area b page" for a
      using that \<open>page < 8\<close> by (intro assms(2)) (auto simp: block_area_def)
  qed
  then show ?thesis using assms(1) by (simp add: block_ok_def)
qed

lemma block_byte_same:
  assumes "block_ok dev b" "i < 32768" "\<And>a. a \<in> block_area b \<Longrightarrow> dev a = dev' a"
  shows "block_byte dev b i = block_byte dev' b i"
proof (rule block_byte_cong [OF assms(1,2)])
  fix a assume "a \<in> page_area b (i div 4096)"
  moreover have "i div 4096 < 8" using assms(2) by (simp add: less_mult_imp_div_less)
  ultimately show "dev a = dev' a" by (intro assms(3)) (auto simp: block_area_def)
qed

definition blocks_area :: "orchfs_core_block list \<Rightarrow> nat set" where
  "blocks_area bs = \<Union> (block_area ` set bs)"

definition blocks_effect :: "(nat \<Rightarrow> u8) \<Rightarrow> write_plan \<Rightarrow> orchfs_core_block list \<Rightarrow> nat \<Rightarrow> u8 list \<Rightarrow> bool" where
  "blocks_effect dev q bs lo src \<longleftrightarrow> plan_ok q \<and> plan_area q \<subseteq> blocks_area bs \<and> blocks_ok (exec q dev) bs \<and>
     (\<forall>i<32768 * length bs. file_byte (exec q dev) bs i =
        (if lo \<le> i \<and> i < lo + length src then src ! (i - lo) else file_byte dev bs i))"

lemma file_byte_simps:
  "i < 32768 \<Longrightarrow> file_byte dev (b # bs) i = block_byte dev b i"
  "file_byte dev (b # bs) (32768 + i) = file_byte dev bs i"
proof -
  have "(32768 + i) div 32768 = Suc (i div 32768)" by (simp add: div_add_self1)
  then show "file_byte dev (b # bs) (32768 + i) = file_byte dev bs i" by (simp add: file_byte_def)
qed (simp add: file_byte_def)

lemma blocks_area_Cons [simp]: "blocks_area (b # bs) = block_area b \<union> blocks_area bs"
  by (simp add: blocks_area_def)

lemma areas_disjoint_sep: "areas_disjoint (b # bs) \<Longrightarrow> block_area b \<inter> blocks_area bs = {}"
  by (auto simp: blocks_area_def)

lemma blocks_ok_cong: "blocks_ok dev bs \<Longrightarrow> (\<And>a. a \<in> blocks_area bs \<Longrightarrow> dev a = dev' a) \<Longrightarrow> blocks_ok dev' bs"
  unfolding blocks_ok_def blocks_area_def using block_ok_cong [of dev _ dev'] by blast

lemma file_byte_same:
  assumes "blocks_ok dev bs" "i < 32768 * length bs" "\<And>a. a \<in> blocks_area bs \<Longrightarrow> dev a = dev' a"
  shows "file_byte dev bs i = file_byte dev' bs i"
proof -
  have "i div 32768 < length bs" using assms(2) by (simp add: less_mult_imp_div_less mult.commute)
  then have b: "bs ! (i div 32768) \<in> set bs" by simp
  then have "block_ok dev (bs ! (i div 32768))" using assms(1) by (simp add: blocks_ok_def)
  moreover have "dev a = dev' a" if "a \<in> block_area (bs ! (i div 32768))" for a
    using that b by (intro assms(3)) (auto simp: blocks_area_def)
  ultimately show ?thesis unfolding file_byte_def by (intro block_byte_same) simp_all
qed

lemma plan_blocks_accum: "accum (plan_blocks dev inside bs src)"
proof (induction bs arbitrary: inside src)
  case (Cons b bs)
  show ?case
    unfolding plan_blocks.simps [abs_def] Let_def by (rule accum_bind [OF plan_block_accum Cons])
qed (simp add: accum_def)

lemma plan_blocks_cong:
  "inside \<le> 32768 \<Longrightarrow> (\<And>a. a \<in> blocks_area bs \<Longrightarrow> dev a = dev' a) \<Longrightarrow> plan_blocks dev inside bs src p = plan_blocks dev' inside bs src p"
proof (induction bs arbitrary: inside src p)
  case (Cons b bs)
  let ?c = "min (length src) (32768 - inside)"
  have "plan_block dev b inside (take ?c src) p = plan_block dev' b inside (take ?c src) p"
    using Cons.prems by (intro plan_block_cong) auto
  moreover have "plan_blocks dev 0 bs (drop ?c src) q = plan_blocks dev' 0 bs (drop ?c src) q" for q
    using Cons.prems(2) by (intro Cons.IH) auto
  ultimately show ?case by (simp add: Let_def split: sum.split)
qed simp

lemma blocks_effect_Cons:
  assumes ok: "blocks_ok dev (b # bs)" and u: "block_effect dev u b lo xs" and v: "blocks_effect (exec u dev) v bs 0 ys"
    and len: "lo + length xs = 32768 \<or> ys = []" "lo + length xs \<le> 32768"
  shows "blocks_effect dev (join u v) (b # bs) lo (xs @ ys)"
proof -
  have sep: "block_area b \<inter> blocks_area bs = {}" using ok areas_disjoint_sep by (simp add: blocks_ok_def del: areas_disjoint.simps)
  have uv: "plan_ok u" "plan_area u \<subseteq> block_area b" "plan_ok v" "plan_area v \<subseteq> blocks_area bs"
    using u v by (simp_all add: block_effect_def blocks_effect_def)
  then have dis: "plan_area u \<inter> plan_area v = {}" using sep by blast
  have ex: "exec (join u v) dev = exec v (exec u dev)" by (rule exec_join [OF uv(1,3) dis])
  have vb: "exec u dev a = exec v (exec u dev) a" if "a \<in> block_area b" for a
    using that sep by (intro exec_same [OF uv(3,4), of "block_area b"]) auto
  have ub: "dev a = exec u dev a" if "a \<in> blocks_area bs" for a
    using that by (rule exec_same [OF uv(1,2) sep])
  have okb: "block_ok (exec u dev) b" and okbs: "blocks_ok dev bs" using u ok by (simp_all add: block_effect_def blocks_ok_def)
  have ok': "blocks_ok (exec (join u v) dev) (b # bs)"
    using ok v block_ok_cong [OF okb vb] unfolding ex by (auto simp: blocks_ok_def blocks_effect_def)
  have "file_byte (exec (join u v) dev) (b # bs) i =
      (if lo \<le> i \<and> i < lo + length (xs @ ys) then (xs @ ys) ! (i - lo) else file_byte dev (b # bs) i)" if i: "i < 32768 * length (b # bs)" for i
  proof (cases "i < 32768")
    case True
    have "block_byte (exec v (exec u dev)) b i = block_byte (exec u dev) b i"
      using block_byte_same [OF okb True vb] by simp
    then show ?thesis using u True len unfolding ex by (auto simp: file_byte_simps block_effect_def nth_append)
  next
    case False
    then obtain j where j: "i = 32768 + j" by (metis le_Suc_ex not_less)
    then have jl: "j < 32768 * length bs" using i by simp
    have "file_byte dev bs j = file_byte (exec u dev) bs j" by (rule file_byte_same [OF okbs jl ub])
    then show ?thesis using v jl len unfolding ex j file_byte_simps
      by (auto simp: blocks_effect_def nth_append)
  qed
  then show ?thesis
    using ok' uv plan_ok_join [OF uv(1,3) dis] by (auto simp: blocks_effect_def join_area)
qed

lemma plan_blocks_effect:
  "plan_blocks dev inside bs src empty_plan = Inr q \<Longrightarrow> blocks_ok dev bs \<Longrightarrow> inside \<le> 32768 \<Longrightarrow>
    inside + length src \<le> 32768 * length bs \<or> src = [] \<Longrightarrow> blocks_effect dev q bs inside src"
proof (induction bs arbitrary: dev inside src q)
  case Nil
  then show ?case by (auto simp: blocks_effect_def blocks_ok_def)
next
  case (Cons b bs)
  define c where "c = min (length src) (32768 - inside)"
  have "(case plan_block dev b inside (take c src) empty_plan of Inl err \<Rightarrow> Inl err
      | Inr p \<Rightarrow> plan_blocks dev 0 bs (drop c src) p) = Inr q"
    using Cons.prems(1) by (simp add: Let_def c_def [symmetric])
  then obtain u v where u: "plan_block dev b inside (take c src) empty_plan = Inr u"
    and v: "plan_blocks dev 0 bs (drop c src) empty_plan = Inr v" and q: "q = join u v"
    using plan_blocks_accum by (rule accum_bind_empty)
  have c: "inside + length (take c src) \<le> 32768" "inside + length (take c src) = 32768 \<or> drop c src = []"
    using Cons.prems(3) by (auto simp: c_def min_def)
  have ok: "block_ok dev b" "blocks_ok dev bs" using Cons.prems(2) by (simp_all add: blocks_ok_def)
  have ue: "block_effect dev u b inside (take c src)" by (rule plan_block_effect [OF ok(1) c(1) u])
  have sep: "block_area b \<inter> blocks_area bs = {}"
    using Cons.prems(2) areas_disjoint_sep by (simp add: blocks_ok_def del: areas_disjoint.simps)
  have same: "dev a = exec u dev a" if "a \<in> blocks_area bs" for a
    using that ue by (intro exec_same [OF _ _ sep]) (simp_all add: block_effect_def)
  have "plan_blocks (exec u dev) 0 bs (drop c src) empty_plan = Inr v"
    using v plan_blocks_cong [of 0 bs dev "exec u dev", OF _ same] by simp
  moreover have "0 + length (drop c src) \<le> 32768 * length bs \<or> drop c src = []"
    using Cons.prems(3,4) by (auto simp: c_def min_def)
  ultimately have "blocks_effect (exec u dev) v bs 0 (drop c src)"
    using blocks_ok_cong [OF ok(2) same] by (intro Cons.IH) auto
  from blocks_effect_Cons [OF Cons.prems(2) ue this c(2,1)] show ?case by (simp add: q)
qed

end
