(* ===== verification/Data_Read.thy ===== *)
theory Data_Read
  imports Data_Write
begin

text \<open>
  The properties of the data path: a write that succeeds changes the bytes it was asked to change and
  no others, whatever the kinds of the blocks; a read returns the content of the blocks; and reading
  back what was written returns it.
\<close>

section \<open>Carrying out a plan\<close>

lemma write_batch_ok: "err = 0 \<or> ws = [] \<Longrightarrow> write_batch err reached ws dev = put_all (map at_nat ws) dev"
  by (auto simp: write_batch_def)

lemma pmem_loop_ok: "pmem_loop dev ws = (dev', 0) \<Longrightarrow> dev' = put_all (map at_nat ws) dev"
  by (induction dev ws rule: pmem_loop.induct)
    (auto simp: orchfs_core_write_pmem_def at_nat_def split: if_splits)

lemma merge_pages_ok:
  assumes "merge_pages src dev ms = Inr ws"
    "\<And>m a. m \<in> set ms \<Longrightarrow> a \<in> merge_area m \<Longrightarrow> src a = d0 a \<and> dev a = d0 a"
  shows "map at_nat ws = map (merge_op d0) ms"
  using assms
proof (induction ms arbitrary: ws)
  case (Cons m ms)
  obtain page ws' where page: "overlay_page dev (nvm_get src (unat (mg_ssd_offset m)) 4096) (mg_nvm_offset m) (mg_metadata m) = Inr page"
    and ws': "merge_pages src dev ms = Inr ws'" and ws: "ws = (mg_ssd_offset m, page) # ws'"
    using Cons.prems(1) by (auto split: sum.splits)
  have eq: "src a = d0 a \<and> dev a = d0 a" if "a \<in> merge_area m" for a
    using that by (intro Cons.prems(2) [of m]) simp_all
  have "page ! k = (if covered (mg_metadata m) k then d0 (unat (mg_nvm_offset m) + k) else d0 (unat (mg_ssd_offset m) + k))" if "k < 4096" for k
    using overlay_page_spec [OF page] eq that by (simp add: nvm_get_def merge_area_def)
  then have "(unat (mg_ssd_offset m), page) = merge_op d0 m"
    using overlay_page_spec [OF page] unfolding merge_op_def by (auto intro!: nth_equalityI)
  moreover have "map at_nat ws' = map (merge_op d0) ms"
    by (rule Cons.IH [OF ws']) (rule Cons.prems(2), simp_all)
  moreover have "at_nat (mg_ssd_offset m, page) = (unat (mg_ssd_offset m), page)" by (simp add: at_nat_def)
  ultimately show ?case using ws by simp
qed simp

lemma early_same:
  assumes "plan_ok p" "a \<in> read_area p"
  shows "put_all (map at_nat (wp_writes p)) dev a = dev a"
  using assms by (intro put_all_out) (auto simp: plan_ok_def)

lemma execute_exec:
  assumes "execute_plan io nf ad p dev = (dev1, Inr pending)" "plan_ok p"
  shows "put_all pending dev1 = exec p dev"
proof -
  define merging where "merging \<longleftrightarrow> wp_merges p \<noteq> [] \<or> wp_direct p \<noteq> []"
  define early where "early \<longleftrightarrow> merging \<and> 262144 \<le> sum_list (map (length \<circ> snd) (wp_writes p))"
  define d1 where "d1 = (if early then write_batch (io_early io) (io_reached io) (wp_writes p) dev else dev)"
  define sr where "sr = (if io_reads_late io then d1 else dev)"
  define W where "W = map at_nat (wp_writes p)"
  define metas where "metas = map (\<lambda>(off, m). (unat off, metadata_bytes m)) (wp_metadata p)"
  obtain merged where mg: "merge_pages sr d1 (wp_merges p) = Inr merged"
    using assms(1) unfolding execute_plan_def Let_def merging_def [symmetric] early_def [symmetric] d1_def [symmetric] sr_def [symmetric]
    by (auto split: if_splits sum.splits)
  define rest where "rest = (if early then [] else wp_writes p) @ merged @ map (direct_write sr) (wp_direct p)"
  define d2 where "d2 = write_batch (io_write io) (io_reached io) rest d1"
  have run: "(if merging \<and> io_read io \<noteq> 0 then (d1, Inl (io_read io)) else if early \<and> io_early io \<noteq> 0 then (d1, Inl (io_early io))
      else if rest \<noteq> [] \<and> io_write io \<noteq> 0 then (d2, Inl (io_write io)) else if rest \<noteq> [] \<and> nf \<and> io_flush io \<noteq> 0 then (d2, Inl (io_flush io))
      else if ad then (d2, Inr (map at_nat (wp_pmem p) @ metas))
      else case pmem_loop d2 (wp_pmem p) of (dv, err) \<Rightarrow> (dv, if err \<noteq> 0 then Inl err else Inr metas)) = (dev1, Inr pending)"
    using assms(1) mg unfolding execute_plan_def Let_def merging_def [symmetric] early_def [symmetric] d1_def [symmetric] sr_def [symmetric]
    by (simp add: rest_def d2_def metas_def cong: if_cong)
  have io: "early \<longrightarrow> io_early io = 0" "io_write io = 0 \<or> rest = []" using run by (auto split: if_splits)
  have d1: "d1 = (if early then put_all W dev else dev)" using io(1) by (simp add: d1_def write_batch_ok W_def)
  have rd: "sr a = dev a \<and> d1 a = dev a" if "a \<in> read_area p" for a
    using that early_same [OF assms(2)] by (simp add: sr_def d1 W_def)
  have "map at_nat merged = map (merge_op dev) (wp_merges p)"
    using rd by (intro merge_pages_ok [OF mg]) (auto simp: read_area_def)
  moreover have "direct_write sr m = direct_write dev m" if "m \<in> set (wp_direct p)" for m
  proof -
    have "nvm_get sr (unat (dm_ssd_offset m)) 32768 = nvm_get dev (unat (dm_ssd_offset m)) 32768"
      using that rd by (intro nvm_get_same) (auto simp: read_area_def direct_area_def)
    then show ?thesis by (simp add: direct_write_def)
  qed
  ultimately have d2: "d2 = put_all (W @ map (merge_op dev) (wp_merges p) @ map (\<lambda>m. at_nat (direct_write dev m)) (wp_direct p)) dev"
    using write_batch_ok [OF io(2)] by (auto simp: d2_def rest_def d1 W_def comp_def cong: map_cong)
  have ops: "exec p dev = put_all (map at_nat (wp_pmem p) @ metas) d2"
    by (simp add: exec_def plan_ops_def d2 W_def metas_def meta_op_def [abs_def] split_beta [abs_def])
  show ?thesis
  proof (cases ad)
    case True
    then show ?thesis using run ops by (auto split: if_splits)
  next
    case False
    then show ?thesis using run ops pmem_loop_ok by (auto split: if_splits prod.splits)
  qed
qed

section \<open>Reading\<close>

lemma virtual_byte:
  "cb_type b = 3 \<Longrightarrow> \<not> neg64 (cb_nvm_page_offset b page) \<Longrightarrow> k < 4096 \<Longrightarrow>
    block_byte dev b (4096 * page + k) = dev (unat (cb_nvm_page_offset b page) + k)"
  by (simp add: block_byte_def Let_def)

lemma read_virtual_spec:
  "read_virtual dev b inside chunk pc = Inr r \<Longrightarrow> block_ok dev b \<Longrightarrow> cb_type b = 3 \<Longrightarrow> pc \<le> chunk \<Longrightarrow>
    r = map (block_byte dev b) [inside + pc..<inside + chunk]"
proof (induction dev b inside chunk pc arbitrary: r rule: read_virtual.induct)
  case (1 dev b inside chunk pc)
  show ?case
  proof (cases "chunk \<le> pc")
    case True
    then show ?thesis using "1.prems" by (simp add: read_virtual.simps)
  next
    case False
    define page k where "page = (inside + pc) div 4096" and "k = (inside + pc) mod 4096"
    define n where "n = min (chunk - pc) (4096 - k)"
    have pos: "inside + pc = 4096 * page + k" "k < 4096" by (simp_all add: page_def k_def)
    have n: "0 < n" "pc + n \<le> chunk" "k + n \<le> 4096" using False pos(2) by (auto simp: n_def)
    obtain bytes rest where pg: "page < 8" "\<not> neg64 (cb_nvm_page_offset b page)"
      and bytes: "orchfs_core_read_pmem dev (cb_nvm_page_offset b page + of_nat k) n = Inr bytes"
      and rest: "read_virtual dev b inside chunk (pc + n) = Inr rest" and r: "r = bytes @ rest"
      using "1.prems"(1) False
      by (auto simp: read_virtual.simps [of dev b inside chunk pc] Let_def page_def [symmetric] k_def [symmetric] n_def [symmetric]
          split: if_splits sum.splits)
    have "page_ok dev b page" using "1.prems"(2) pg by (simp add: block_ok_def)
    then have "unat (cb_nvm_page_offset b page + of_nat k) = unat (cb_nvm_page_offset b page) + k"
      using "1.prems"(3) pg pos(2) by (intro page_addr) (simp_all add: page_ok_def)
    then have "bytes = nvm_get dev (unat (cb_nvm_page_offset b page) + k) n"
      using bytes by (simp add: orchfs_core_read_pmem_def split: if_splits)
    also have "\<dots> = map (block_byte dev b) [inside + pc..<inside + (pc + n)]"
    proof (rule nth_equalityI)
      fix i assume "i < length (nvm_get dev (unat (cb_nvm_page_offset b page) + k) n)"
      then have i: "i < n" by simp
      have eq: "inside + (pc + i) = 4096 * page + (k + i)" using pos by simp
      have "k + i < 4096" using n i by simp
      then have "block_byte dev b (inside + (pc + i)) = dev (unat (cb_nvm_page_offset b page) + (k + i))"
        unfolding eq by (rule virtual_byte [OF "1.prems"(3) pg(2)])
      then show "nvm_get dev (unat (cb_nvm_page_offset b page) + k) n ! i = map (block_byte dev b) [inside + pc..<inside + (pc + n)] ! i"
        using i by (simp add: nvm_get_def add.assoc)
    qed simp
    finally have "bytes = map (block_byte dev b) [inside + pc..<inside + (pc + n)]" .
    moreover have "rest = map (block_byte dev b) [inside + (pc + n)..<inside + chunk]"
      using "1.IH" [OF False refl page_def k_def n_def _ bytes rest "1.prems"(2,3) n(2)] pg by (simp add: not_le)
    moreover have "[inside + pc..<inside + (pc + n)] @ [inside + (pc + n)..<inside + chunk] = [inside + pc..<inside + chunk]"
      using n(2) upt_add_eq_append [of "inside + pc" "inside + (pc + n)" "chunk - (pc + n)"] by simp
    ultimately show ?thesis unfolding r by (metis map_append)
  qed
qed

lemma overlay_pages_spec:
  "overlay_pages dev b pages bytes = Inr r \<Longrightarrow> length bytes = 32768 \<Longrightarrow> distinct pages \<Longrightarrow> set pages \<subseteq> {..<8} \<Longrightarrow>
    length r = 32768 \<and> (\<forall>i<32768. r ! i =
      (if i div 4096 \<in> set pages \<and> \<not> neg64 (cb_nvm_page_offset b (i div 4096)) \<and>
          covered (metadata_at dev (cb_buffer_metadata_offset b (i div 4096))) (i mod 4096)
       then dev (unat (cb_nvm_page_offset b (i div 4096)) + i mod 4096) else bytes ! i))"
proof (induction pages arbitrary: bytes)
  case (Cons page pages)
  show ?case
  proof (cases "neg64 (cb_nvm_page_offset b page)")
    case True
    then show ?thesis using Cons by auto
  next
    case False
    define m where "m = metadata_at dev (cb_buffer_metadata_offset b page)"
    obtain part where part: "overlay_page dev (take 4096 (drop (page * 4096) bytes)) (cb_nvm_page_offset b page) m = Inr part"
      and rec: "overlay_pages dev b pages (copy_into bytes (page * 4096) part) = Inr r"
      using Cons.prems(1) False unfolding m_def by (auto dest: read_metadata_ok split: sum.splits)
    have pg: "page < 8" "page \<notin> set pages" using Cons.prems by auto
    have fit: "page * 4096 + length part \<le> length bytes" using overlay_page_spec [OF part] Cons.prems(2) pg by simp
    have len: "length (copy_into bytes (page * 4096) part) = 32768" using copy_into_length [OF fit] Cons.prems(2) by simp
    have byte: "copy_into bytes (page * 4096) part ! i =
        (if i div 4096 = page \<and> covered m (i mod 4096) then dev (unat (cb_nvm_page_offset b page) + i mod 4096) else bytes ! i)"
      if i: "i < 32768" for i
    proof (cases "i div 4096 = page")
      case True
      then obtain k where "i = page * 4096 + k" "k < 4096" by (metis mod_less_divisor div_mult_mod_eq zero_less_numeral)
      then show ?thesis using overlay_page_spec [OF part] copy_into_nth [OF fit, of i] i Cons.prems(2) by auto
    next
      case False
      then have "\<not> (page * 4096 \<le> i \<and> i < page * 4096 + 4096)" by auto
      then show ?thesis using False overlay_page_spec [OF part] copy_into_nth [OF fit, of i] i Cons.prems(2) by auto
    qed
    show ?thesis
      using Cons.IH [OF rec len] Cons.prems byte False pg m_def by auto
  qed
qed simp

lemma read_result_spec:
  assumes "read_request dev b inside chunk = Inr item" "read_result dev item = Inr r" "block_ok dev b" "inside + chunk \<le> 32768"
  shows "r = map (block_byte dev b) [inside..<inside + chunk]"
proof -
  have ssd: "block_byte dev b i = dev (unat (cb_ssd_device_offset b) + i)" if "cb_type b = 5" for i
    using that by (simp add: block_byte_def)
  have cut: "take chunk (drop inside bs) = map (block_byte dev b) [inside..<inside + chunk]"
    if "length bs = 32768" "\<And>i. i < 32768 \<Longrightarrow> bs ! i = block_byte dev b i" for bs
    using that assms(4) by (intro nth_equalityI) simp_all
  consider "cb_type b = 3" | "cb_type b = 5" | "cb_type b = 4" using assms(3) by (auto simp: block_ok_def)
  then show ?thesis
  proof cases
    case 1
    then have "read_virtual dev b inside chunk 0 = Inr r"
      using assms(1,2) by (auto simp: read_request_def split: sum.splits)
    then show ?thesis using read_virtual_spec [OF _ assms(3) 1] by force
  next
    case 2
    have "nvm_get dev (unat (cb_ssd_device_offset b)) 32768 ! i = block_byte dev b i" if "i < 32768" for i
      using that 2 by (simp add: nvm_get_def ssd)
    then show ?thesis using assms(1,2) 2 cut [of "nvm_get dev (unat (cb_ssd_device_offset b)) 32768"]
      by (auto simp: read_request_def Let_def split: if_splits)
  next
    case 3
    then have item: "item = Scratch b inside chunk" using assms(1) by (auto simp: read_request_def split: if_splits)
    then obtain bs where bs: "overlay_pages dev b [0..<8] (nvm_get dev (unat (cb_ssd_device_offset b)) 32768) = Inr bs"
      and r: "r = take chunk (drop inside bs)" using assms(2) 3 by (auto simp: Let_def split: sum.splits)
    have "set [0..<8] \<subseteq> {..<8::nat}" by auto
    note spec = overlay_pages_spec [OF bs nvm_get_length distinct_upt this]
    have "bs ! i = block_byte dev b i" if "i < 32768" for i
    proof -
      have "i div 4096 < 8" using that by (simp add: less_mult_imp_div_less)
      then show ?thesis using spec that 3 by (simp add: block_byte_def Let_def nvm_get_def)
    qed
    then show ?thesis using cut spec r by simp
  qed
qed

lemma read_results_spec:
  "read_requests dev inside bs len = Inr items \<Longrightarrow> read_results dev items = Inr r \<Longrightarrow> blocks_ok dev bs \<Longrightarrow> inside \<le> 32768 \<Longrightarrow>
    inside + len \<le> 32768 * length bs \<or> len = 0 \<Longrightarrow> r = map (file_byte dev bs) [inside..<inside + len]"
proof (induction bs arbitrary: inside len items r)
  case Nil
  then show ?case by auto
next
  case (Cons b bs)
  define c where "c = min (32768 - inside) len"
  obtain item its x rest where rq: "read_request dev b inside c = Inr item" "read_requests dev 0 bs (len - c) = Inr its"
    and rs: "read_result dev item = Inr x" "read_results dev its = Inr rest" and r: "r = x @ rest"
    using Cons.prems(1,2) by (auto simp: Let_def c_def [symmetric] split: sum.splits)
  have c: "inside + c \<le> 32768" "c \<le> len" "len - c = 0 \<or> inside + c = 32768" using Cons.prems(4) by (auto simp: c_def)
  have ok: "block_ok dev b" "blocks_ok dev bs" using Cons.prems(3) by (simp_all add: blocks_ok_def)
  have x: "x = map (file_byte dev (b # bs)) [inside..<inside + c]"
    using read_result_spec [OF rq(1) rs(1) ok(1) c(1)] c(1) by (auto simp: file_byte_simps)
  have "rest = map (file_byte dev bs) [0..<0 + (len - c)]"
    using Cons.prems(5) c by (intro Cons.IH [OF rq(2) rs(2) ok(2)]) auto
  also have "\<dots> = map (file_byte dev (b # bs)) [inside + c..<inside + len]"
  proof (cases "len - c = 0")
    case False
    then have s: "inside + c = 32768" using c by simp
    then have "inside + len = 32768 + (len - c)" using c by simp
    then show ?thesis unfolding s by (intro nth_equalityI) (simp_all add: file_byte_simps)
  qed (use c in simp)
  finally show ?case
  proof -
    assume rest: "rest = map (file_byte dev (b # bs)) [inside + c..<inside + len]"
    have "[inside..<inside + c] @ [inside + c..<inside + len] = [inside..<inside + len]"
      using upt_add_eq_append [of inside "inside + c" "len - c"] c(2) by simp
    then show ?thesis unfolding r x rest by (metis map_append)
  qed
qed

section \<open>Reads that succeed\<close>

lemma valid_range: "unat off + len \<le> pmem_len \<Longrightarrow> valid_pmem_range off len"
proof -
  assume le: "unat off + len \<le> pmem_len"
  then have "off \<le> PMEM_LEN" by (simp add: word_le_nat_alt)
  moreover from this have "unat (PMEM_LEN - off) = pmem_len - unat off" by (rule unat_sub64)
  moreover have "\<not> neg64 off" using le pmem_len_aligned(2) by (simp add: neg64_iff)
  ultimately show ?thesis using le by (simp add: valid_pmem_range_def)
qed

lemma read_virtual_ok:
  "block_ok dev b \<Longrightarrow> cb_type b = 3 \<Longrightarrow>
    (\<And>i. inside + pc \<le> i \<Longrightarrow> i < inside + chunk \<Longrightarrow> i div 4096 < 8 \<and> \<not> neg64 (cb_nvm_page_offset b (i div 4096))) \<Longrightarrow>
    \<exists>r. read_virtual dev b inside chunk pc = Inr r"
proof (induction dev b inside chunk pc rule: read_virtual.induct)
  case (1 dev b inside chunk pc)
  show ?case
  proof (cases "chunk \<le> pc")
    case False
    define page k where "page = (inside + pc) div 4096" and "k = (inside + pc) mod 4096"
    define n where "n = min (chunk - pc) (4096 - k)"
    have n: "k + n \<le> 4096" "k < 4096" by (auto simp: n_def k_def)
    have pg: "page < 8" "\<not> neg64 (cb_nvm_page_offset b page)" using "1.prems"(3) [of "inside + pc"] False by (simp_all add: page_def)
    have le: "unat (cb_nvm_page_offset b page) + 4096 \<le> pmem_len"
      using "1.prems"(1,2) pg by (simp add: block_ok_def page_ok_def)
    have "unat (cb_nvm_page_offset b page + of_nat k) = unat (cb_nvm_page_offset b page) + k"
      using le n by (intro page_addr) simp_all
    then have rd: "orchfs_core_read_pmem dev (cb_nvm_page_offset b page + of_nat k) n = Inr (nvm_get dev (unat (cb_nvm_page_offset b page + of_nat k)) n)"
      using le n by (simp add: orchfs_core_read_pmem_def valid_range)
    have "\<exists>rest. read_virtual dev b inside chunk (pc + n) = Inr rest"
    proof (rule "1.IH" [OF False refl page_def k_def n_def _ rd "1.prems"(1,2)])
      show "\<not> (8 \<le> page \<or> neg64 (cb_nvm_page_offset b page))" using pg by simp
      show "i div 4096 < 8 \<and> \<not> neg64 (cb_nvm_page_offset b (i div 4096))" if "inside + (pc + n) \<le> i" "i < inside + chunk" for i
        using that by (intro "1.prems"(3)) simp_all
    qed
    then show ?thesis
      using False pg rd
      by (auto simp: read_virtual.simps [of dev b inside chunk pc] Let_def page_def [symmetric] k_def [symmetric] n_def [symmetric])
  qed (simp add: read_virtual.simps)
qed

lemma overlay_pages_ok:
  assumes "block_ok dev b" "cb_type b = 4"
  shows "set pages \<subseteq> {..<8} \<Longrightarrow> length bytes = 32768 \<Longrightarrow> \<exists>r. overlay_pages dev b pages bytes = Inr r"
proof (induction pages arbitrary: bytes)
  case (Cons page pages)
  show ?case
  proof (cases "neg64 (cb_nvm_page_offset b page)")
    case False
    have pg: "page < 8" using Cons.prems by simp
    then have ok: "page_ok dev b page" using assms(1) by (simp add: block_ok_def)
    define m where "m = metadata_at dev (cb_buffer_metadata_offset b page)"
    have meta: "\<not> neg64 (cb_buffer_metadata_offset b page)" "unat (cb_buffer_metadata_offset b page) + 128 \<le> pmem_len" "segments_ok m"
      and nvm: "unat (cb_nvm_page_offset b page) + 4096 \<le> pmem_len"
      using ok assms(2) False by (auto simp: page_ok_def m_def)
    have rd: "read_metadata dev (cb_buffer_metadata_offset b page) = Inr m"
      using meta by (simp add: read_metadata_def orchfs_core_read_pmem_def valid_range m_def metadata_at_def segments_ok_def)
    have len: "length (take 4096 (drop (page * 4096) bytes)) = 4096" using Cons.prems(2) pg by simp
    have "\<forall>s \<in> set [0..<nat (sint (m ! 0))]. s < nat (sint (m ! 0))" by simp
    from overlay_loop_ok [OF this meta(3) nvm_get_length len]
    obtain part where part: "overlay_page dev (take 4096 (drop (page * 4096) bytes)) (cb_nvm_page_offset b page) m = Inr part"
      using False nvm len by (auto simp: overlay_page_def orchfs_core_read_pmem_def valid_range)
    have "length (copy_into bytes (page * 4096) part) = 32768"
      using overlay_page_spec [OF part] Cons.prems(2) pg by (subst copy_into_length) simp_all
    then show ?thesis using Cons.IH Cons.prems(1) False rd part by simp
  qed (use Cons in simp)
qed simp

text \<open>The pages that a planned part lies in exist.\<close>

lemma virtual_parts_pages:
  "plan_parts (virtual_part dev b) position src p = Inr q \<Longrightarrow> position \<le> i \<Longrightarrow> i < position + length src \<Longrightarrow>
    i div 4096 < 8 \<and> \<not> neg64 (cb_nvm_page_offset b (i div 4096))"
proof (induction "length src" arbitrary: position src p rule: less_induct)
  case less
  define n where "n = min (length src) (4096 - position mod 4096)"
  have ne: "src \<noteq> []" using less.prems by auto
  then have pg: "position div 4096 < 8" "\<not> neg64 (cb_nvm_page_offset b (position div 4096))"
    and rest: "\<exists>p. plan_parts (virtual_part dev b) (position + n) (drop n src) p = Inr q"
    using less.prems(1) by (auto simp: plan_parts.simps [of _ position src] Let_def virtual_part_def n_def split: if_splits)
  show ?case
  proof (cases "i < position + n")
    case True
    then have "i div 4096 = position div 4096"
      using less.prems(2) by (intro div_nat_eqI) (auto simp: n_def minus_mod_eq_mult_div [symmetric] intro: order_trans [OF _ less.prems(2)])
    then show ?thesis using pg by simp
  next
    case False
    obtain p' where p': "plan_parts (virtual_part dev b) (position + n) (drop n src) p' = Inr q" using rest by blast
    have "0 < n" "n \<le> length src" using ne by (simp_all add: n_def)
    then show ?thesis using False less.prems(3) by (intro less.hyps [OF _ p']) simp_all
  qed
qed

lemma read_back_block:
  assumes "block_ok dev b" "plan_block dev0 b inside input p = Inr q" "block_ok dev' b"
  shows "\<exists>item r. read_request dev b inside (length input) = Inr item \<and> read_result dev' item = Inr r"
proof -
  consider "cb_type b = 3" | "cb_type b = 5" | "cb_type b = 4" using assms(1) by (auto simp: block_ok_def)
  then show ?thesis
  proof cases
    case 1
    then have "plan_parts (virtual_part dev0 b) inside input p = Inr q"
      using assms(2) by (simp add: plan_block_def plan_virtual_parts [of b inside input 0 _ dev0])
    then have "\<exists>r. read_virtual dev b inside (length input) 0 = Inr r"
      using virtual_parts_pages by (intro read_virtual_ok [OF assms(1) 1]) auto
    then show ?thesis using 1 by (auto simp: read_request_def)
  next
    case 2
    then show ?thesis using assms(1) by (auto simp: read_request_def block_ok_def Let_def)
  next
    case 3
    have "set [0..<8] \<subseteq> {..<8::nat}" by auto
    then obtain r where "overlay_pages dev' b [0..<8] (nvm_get dev' (unat (cb_ssd_device_offset b)) 32768) = Inr r"
      using overlay_pages_ok [OF assms(3) 3] by (metis nvm_get_length)
    then show ?thesis using 3 assms(1) by (auto simp: read_request_def block_ok_def Let_def)
  qed
qed

lemma read_back:
  "plan_blocks dev0 inside bs src p = Inr q \<Longrightarrow> \<forall>b \<in> set bs. block_ok dev b \<Longrightarrow> inside \<le> 32768 \<Longrightarrow>
    \<exists>items r. read_requests dev inside bs (length src) = Inr items \<and> read_results dev items = Inr r"
proof (induction bs arbitrary: inside src p)
  case (Cons b bs)
  define c where "c = min (length src) (32768 - inside)"
  obtain p' where p': "plan_block dev0 b inside (take c src) p = Inr p'" "plan_blocks dev0 0 bs (drop c src) p' = Inr q"
    using Cons.prems(1) by (auto simp: Let_def c_def [symmetric] split: sum.splits)
  have len: "length (take c src) = c" "length (drop c src) = length src - c" by (simp_all add: c_def)
  have "block_ok dev b" using Cons.prems(2) by simp
  then obtain item x where "read_request dev b inside c = Inr item" "read_result dev item = Inr x"
    using read_back_block [OF _ p'(1)] len(1) by metis
  moreover obtain items r where "read_requests dev 0 bs (length src - c) = Inr items" "read_results dev items = Inr r"
    using Cons.IH [OF p'(2)] Cons.prems(2) len(2) by auto
  ultimately show ?case by (auto simp: Let_def c_def min.commute)
qed simp

section \<open>A block to try the properties on\<close>

text \<open>A strata block whose first page has a buffer; the devices hold zeros.\<close>

definition demo_block :: orchfs_core_block where
  "demo_block = \<lparr>cb_type = 4, cb_ssd_device_offset = PMEM_LEN, cb_nvm_page_offset = (\<lambda>page. if page = 0 then OFFSET_PAGE else - 1),
     cb_buffer_metadata_offset = (\<lambda>page. if page = 0 then OFFSET_BUFMETA else - 1), cb_file_block = 0\<rparr>"

definition demo_io :: io_outcome where
  "demo_io = \<lparr>io_read = 0, io_early = 0, io_write = 0, io_flush = 0, io_reached = (\<lambda>_. False), io_reads_late = False\<rparr>"

definition demo_plan :: write_plan where
  "demo_plan = add_metadata OFFSET_BUFMETA (push_segment (replicate 64 0) 10 3) (add_pmem_write (OFFSET_PAGE + 10) [1, 2, 3] empty_plan)"

lemma demo_places: "unat OFFSET_PAGE = 10737418240" "unat OFFSET_BUFMETA = 7516192768" "\<not> neg64 OFFSET_PAGE" "\<not> neg64 OFFSET_BUFMETA"
  "\<not> neg64 PMEM_LEN"
  by (simp_all add: OFFSET_PAGE_def OFFSET_BUFMETA_def PMEM_LEN_def neg64_iff)

lemma demo_metadata: "metadata_at (\<lambda>_. 0) off = replicate 64 0"
proof -
  have "nvm_get (\<lambda>_. 0) (unat off) 128 = replicate 128 (0 :: u8)" by (simp add: nvm_get_def map_replicate_const)
  then show ?thesis by (simp add: metadata_at_def zero_bytes)
qed

lemma demo_area: "page_area demo_block page = {pmem_len + 4096 * page..<pmem_len + 4096 * page + 4096} \<union>
    (if page = 0 then {10737418240..<10737418240 + 4096} \<union> {7516192768..<7516192768 + 128} else {})"
  using demo_places by (auto simp: page_area_def ssd_area_def nvm_area_def meta_area_def demo_block_def)

lemma demo_blocks_ok: "blocks_ok (\<lambda>_. 0) [demo_block]"
proof -
  have "page_area demo_block page \<inter> page_area demo_block other = {}" if "page \<noteq> other" for page other
    using that pmem_len_aligned(2) unfolding demo_area by (cases "page < other") auto
  moreover have "page_ok (\<lambda>_. 0) demo_block page" for page
    using demo_places pmem_len_aligned(2) zero_metadata(1)
    by (auto simp: page_ok_def demo_block_def demo_metadata nvm_area_def meta_area_def)
  ultimately show ?thesis using demo_places by (simp add: blocks_ok_def block_ok_def) (simp add: demo_block_def)
qed

lemma demo_planned: "plan_blocks (\<lambda>_. 0) 10 [demo_block] [1, 2, 3] empty_plan = Inr demo_plan"
proof -
  have "orchfs_core_read_pmem (\<lambda>_. 0) OFFSET_BUFMETA 128 = Inr (nvm_get (\<lambda>_. 0) (unat OFFSET_BUFMETA) 128)"
    using demo_places pmem_len_aligned(2) by (simp add: orchfs_core_read_pmem_def valid_range)
  then have "read_metadata (\<lambda>_. 0) OFFSET_BUFMETA = Inr (replicate 64 0)"
    using demo_metadata [of OFFSET_BUFMETA] demo_places by (simp add: read_metadata_def metadata_at_def)
  then have "plan_strata_part (\<lambda>_. 0) demo_block False 0 10 [1, 2, 3] empty_plan = Inr demo_plan"
    using demo_places by (simp add: plan_strata_part_def demo_block_def demo_plan_def push_segment_def) (simp only: numeral_2_eq_2)
  moreover have "cb_type demo_block = 4" "cb_ssd_device_offset demo_block = PMEM_LEN" by (simp_all add: demo_block_def)
  ultimately show ?thesis using demo_places by (simp add: plan_block_def plan_strata_parts plan_parts.simps Let_def)
qed

lemma demo_executed:
  "execute_plan demo_io True False demo_plan (\<lambda>_. 0) =
    (nvm_put (\<lambda>_. 0) (unat OFFSET_PAGE + 10) [1, 2, 3], Inr [(unat OFFSET_BUFMETA, metadata_bytes (push_segment (replicate 64 0) 10 3))])"
proof -
  have "unat (OFFSET_PAGE + 10) = unat OFFSET_PAGE + 10"
    using page_addr [of OFFSET_PAGE 10] demo_places pmem_len_aligned(2) by simp
  then have "pmem_loop (\<lambda>_. 0) [(OFFSET_PAGE + 10, [1, 2, 3])] = (nvm_put (\<lambda>_. 0) (unat OFFSET_PAGE + 10) [1, 2, 3], 0)"
    using demo_places pmem_len_aligned(2) valid_range [of "OFFSET_PAGE + 10" "length [1, 2, 3 :: u8]"] by (simp add: orchfs_core_write_pmem_def)
  then show ?thesis
    by (simp add: execute_plan_def demo_plan_def demo_io_def add_defs empty_plan_def Let_def write_batch_ok)
qed

section \<open>The properties\<close>

text \<open>C6. A write that succeeds stores exactly its bytes: in every block it was planned over - on the SSD,
  in persistent memory, or buffered in strata pages, including full buffers merged into the SSD - the
  content afterwards is the old content with the written range replaced; the blocks stay well formed and
  no other address of the devices changes.  This holds for every outcome of the pipelined reads.\<close>
theorem write_updates_file:
  assumes "blocks_ok dev bs" "plan_blocks dev inside bs src empty_plan = Inr p"
    "execute_plan io needs_flush allow_directory p dev = (dev1, Inr pending)"
    "inside < 32768" "inside + length src \<le> 32768 * length bs"
  shows "(\<forall>i < 32768 * length bs. file_byte (put_all pending dev1) bs i =
      (if inside \<le> i \<and> i < inside + length src then src ! (i - inside) else file_byte dev bs i)) \<and>
    blocks_ok (put_all pending dev1) bs \<and> (\<forall>a. a \<notin> blocks_area bs \<longrightarrow> put_all pending dev1 a = dev a)"
proof -
  have eff: "blocks_effect dev p bs inside src" using plan_blocks_effect [OF assms(2,1)] assms(4,5) by simp
  then have "plan_ok p" "plan_area p \<subseteq> blocks_area bs" by (simp_all add: blocks_effect_def)
  then show ?thesis
    using eff execute_exec [OF assms(3)] exec_out [of p _ dev] by (auto simp: blocks_effect_def)
qed

theorem write_updates_file_witness:
  "\<exists>p dev1 pending. plan_blocks (\<lambda>_. 0) 10 [demo_block] [1, 2, 3] empty_plan = Inr p \<and>
    execute_plan demo_io True False p (\<lambda>_. 0) = (dev1, Inr pending) \<and>
    file_byte (put_all pending dev1) [demo_block] 11 = 2 \<and> blocks_ok (put_all pending dev1) [demo_block]"
  using write_updates_file [OF demo_blocks_ok demo_planned demo_executed] demo_planned demo_executed by auto

text \<open>C8. A read that succeeds returns the content of the blocks, byte for byte, for every kind of block and
  every range; with strata blocks the newest bytes win over those on the SSD.\<close>
theorem read_returns_file:
  assumes "blocks_ok dev bs" "read_blocks io_err dev inside bs len = Inr r" "inside < 32768" "inside + len \<le> 32768 * length bs"
  shows "r = map (file_byte dev bs) [inside..<inside + len]"
proof -
  obtain items where "read_requests dev inside bs len = Inr items" "read_results dev items = Inr r"
    using assms(2) by (auto simp: read_blocks_def split: sum.splits if_splits)
  then show ?thesis using assms by (intro read_results_spec) auto
qed

theorem read_returns_file_witness: "\<exists>r. read_blocks 0 (\<lambda>_. 0) 10 [demo_block] 3 = Inr r \<and> r = [0, 0, 0]"
proof -
  have ok: "\<forall>b \<in> set [demo_block]. block_ok (\<lambda>_. 0) b" using demo_blocks_ok by (simp add: blocks_ok_def)
  obtain items r where "read_requests (\<lambda>_. 0) 10 [demo_block] 3 = Inr items" "read_results (\<lambda>_. 0) items = Inr r"
    using read_back [OF demo_planned ok] by (auto simp: numeral_3_eq_3 simp del: read_requests.simps)
  then have r: "read_blocks 0 (\<lambda>_. 0) 10 [demo_block] 3 = Inr r" by (simp add: read_blocks_def)
  have "file_byte (\<lambda>_. 0) [demo_block] i = 0" if "i < 32768" for i
    using that by (simp add: file_byte_def block_byte_def Let_def demo_block_def)
  then have "map (file_byte (\<lambda>_. 0) [demo_block]) [10..<10 + 3] = [0, 0, 0]" by (simp add: upt_rec)
  then show ?thesis using read_returns_file [OF demo_blocks_ok r] r by simp
qed

text \<open>C7. Reading back a written range succeeds and returns the bytes written.\<close>
theorem read_after_write:
  assumes "blocks_ok dev bs" "plan_blocks dev inside bs src empty_plan = Inr p"
    "execute_plan io needs_flush allow_directory p dev = (dev1, Inr pending)"
    "inside < 32768" "inside + length src \<le> 32768 * length bs"
  shows "read_blocks 0 (put_all pending dev1) inside bs (length src) = Inr src"
proof -
  define dev' where "dev' = put_all pending dev1"
  have eff: "blocks_effect dev p bs inside src" using plan_blocks_effect [OF assms(2,1)] assms(4,5) by simp
  then have ex: "dev' = exec p dev" using execute_exec [OF assms(3)] by (simp add: dev'_def blocks_effect_def)
  have ok: "blocks_ok dev' bs" using eff by (simp add: ex blocks_effect_def)
  then obtain items r where "read_requests dev' inside bs (length src) = Inr items" "read_results dev' items = Inr r"
    using read_back [OF assms(2), of dev'] assms(4) by (auto simp: blocks_ok_def)
  then have "read_blocks 0 dev' inside bs (length src) = Inr r" "r = map (file_byte dev' bs) [inside..<inside + length src]"
    using read_results_spec [of dev' inside bs "length src" items r] ok assms(4,5) by (simp_all add: read_blocks_def)
  moreover have "map (file_byte dev' bs) [inside..<inside + length src] = src"
    using eff assms(5) by (intro nth_equalityI) (simp_all add: ex blocks_effect_def)
  ultimately show ?thesis by (simp add: dev'_def)
qed

theorem read_after_write_witness:
  "\<exists>p dev1 pending. plan_blocks (\<lambda>_. 0) 10 [demo_block] [1, 2, 3] empty_plan = Inr p \<and>
    execute_plan demo_io True False p (\<lambda>_. 0) = (dev1, Inr pending) \<and>
    read_blocks 0 (put_all pending dev1) 10 [demo_block] 3 = Inr [1, 2, 3]"
  using read_after_write [OF demo_blocks_ok demo_planned demo_executed] demo_planned demo_executed by (auto simp: numeral_3_eq_3)

end
