(* ===== verification/Spec2Isabelle.thy ===== *)
theory Spec2Isabelle
  imports Device_Routing Space_Contract Journal_Atomic Range_Protocol Namespace_Locks Meta_Cache Index_Query Index_Delete Data_Read
begin

text \<open>
  OrchFS is a file system over persistent memory and an SSD.  The kernel part (\<open>KernelFS/\<close>) owns the
  devices and the block allocator.  The library part (\<open>LibFS/\<close>) manages the space of a process, keeps the
  index of every file in a metadata cache, and makes changes of metadata atomic with a write-ahead log.
  The asynchronous layer (\<open>Async/\<close>) runs the operations as coroutines: it reads and writes file data,
  serialises accesses to byte ranges and orders the locks of directories.

  \<^bold>\<open>Conventions.\<close>  \<open>Prelude\<close> has the vocabulary: 64-bit integers are words, with \<^const>\<open>neg64\<close> for the signed
  test; an error number is an integer; a call that can fail returns a sum whose left side is the error.
  \<open>Byte_Codec\<close> has the little-endian images of integers.  Stateful code passes its state; concurrent
  code is a step relation whose steps interleave freely.

  \<^bold>\<open>Layout and devices.\<close>  \<open>Config\<close> is \<open>config/config_template.h\<close> with the address translations of
  \<open>KernelFS/addr_util.h\<close>: objects of all kinds lie in disjoint areas.  \<open>Device\<close> and \<open>Device_Routing\<close> are
  \<open>KernelFS/device.c\<close>: the stores and flushes of \<open>nvm_write\<close> and what they make durable, the page-wise
  accesses to the SSD, the split of a range at the boundary of the two devices, and its completion.

  \<^bold>\<open>Space.\<close>  \<open>Balloc\<close> is the allocator of \<open>KernelFS/balloc.c\<close> (sharded bitmaps, cursors, roll-back),
  \<open>Balloc_Persist\<close> its durable side, \<open>Kernel_Space\<close> the typed requests of \<open>KernelFS/kernel_func.c\<close> and
  \<open>LibFS/req_kernel.c\<close>, \<open>Lib_Space\<close> the reservations of \<open>LibFS/libspace.c\<close>.  The locale \<open>block_allocator\<close> is
  the contract between the two parts.  \<open>Space_Contract\<close> shows that allocation returns fresh objects or
  changes nothing, and that release undoes it.

  \<^bold>\<open>Transactions and journal.\<close>  \<open>Txn\<close>, \<open>Journal_Frame\<close> and \<open>Journal\<close> are \<open>LibFS/lib_log.c\<close> with the format of
  \<open>include/orchfs/disk_format.h\<close>; \<open>Crc32c\<close> is its checksum.  \<open>Journal_Crash\<close> models a crash inside any step
  of a commit, with torn writes, and \<open>Journal_Atomic\<close> shows that recovery restores the state before or
  the state after the transaction.

  \<^bold>\<open>File index.\<close>  \<open>Index_Node\<close> and \<open>Index_Ops\<close> are \<open>LibFS/index.c\<close>.  \<open>Index_Tree\<close> and \<open>Index_Insert\<close> prove
  search and insertion correct on a tree with compressed levels; \<open>Index_View\<close> reads the tree as a map from
  offsets to entries; \<open>Index_Append\<close>, \<open>Index_Change\<close>, \<open>Index_Query\<close> and \<open>Index_Delete\<close> state every operation
  against this map.  \<open>Meta_Cache\<close> is the cache of \<open>LibFS/meta_cache.c\<close>.

  \<^bold>\<open>Data path.\<close>  \<open>Data_Path\<close> is the part of \<open>Async/kfs_coroutine_core.cpp\<close> that plans a write, carries the
  plan out and reads, with the checked accesses of \<open>LibFS/kfs_core_api.c\<close>.  \<open>Data_Write\<close> defines the file
  content that blocks of the three kinds hold and shows what a plan does to it; the locale \<open>page_planner\<close>
  is what the planning of one page promises, for virtual and for strata blocks.  \<open>Data_Read\<close> has the
  theorems on writing, reading and reading back.

  \<^bold>\<open>Ranges and directories.\<close>  \<open>Range_Arbiter\<close> is \<open>Async/range_arbiter.cpp\<close>, \<open>Range_Grant\<close> its queue discipline
  and \<open>Range_Protocol\<close> the interleaving of clients, owner and runtime: exclusion, wake-ups, order of service.
  \<open>Namespace_Coordinator\<close> has the tables of \<open>Async/namespace_coordinator.cpp\<close>, \<open>Namespace_Locks\<close> its ordered
  locking, which cannot deadlock.

  \<^bold>\<open>Bounds and fuel.\<close>  Loops over lists and counters are structural or have a termination proof.  Only
  the deletion of an index takes fuel, because the source follows the nodes it finds; a well-formed index has at
  most seven levels, and seven units are shown to suffice.

  \<^bold>\<open>What is assumed.\<close>  An operation under a lock is one step.  Memory allocation does not fail unless an
  argument of the operation says so.  Device errors and the requests of a failed batch that reached the
  medium are arguments.  The data path is given the mapping of each block it touches, and the blocks of
  one file do not share storage.

  \<^bold>\<open>Not modelled.\<close>  Opening and mapping devices, the SPDK backend, sockets, shared-memory rings, threads
  and the coroutine scheduler are calls to the operating system or to other libraries.  Inode attributes,
  path walks, directory operations, the extent cache, the allocation of missing blocks before a write
  (\<open>LibFS/kfs_data_plan.c\<close>), migration and the formatter are not modelled; the index, space and log operations
  that they are made of are.  The containers in \<open>util/\<close> and \<open>LibFS/dir_cache.c\<close> are not used by the
  modelled operations.
\<close>

end
